(* ===== verification/Prelude.thy ===== *)
theory Prelude
  imports Main "HOL-Library.Word" "HOL-Library.Finite_Map" "HOL-Library.Type_Length"
begin

text \<open>
  Shared vocabulary of the development: results that can be a value, an error or a panic,
  64-bit arithmetic under the two Rust overflow regimes, the operations of
  \<open>std::collections::HashMap\<close> and \<open>BTreeMap\<close> on finite maps, and the generic lemmas that
  the component theories share.
\<close>

named_theorems map_facts
named_theorems arith_facts
named_theorems wire_defs

type_synonym u8 = "8 word"
type_synonym u64 = "64 word"


section \<open>Results\<close>

text \<open>
  A Rust call ends in \<open>Ok\<close>, in \<open>Err\<close>, or it panics. An operation with \<open>&mut self\<close>
  is a function from the state to a pair of its result and the state it leaves behind, so
  that what an error leaves behind is a theorem and not a convention.
\<close>

datatype ('e, 'a) res = Ok 'a | Err 'e | Panic

definition is_ok :: "('e, 'a) res \<Rightarrow> bool" where
  "is_ok r \<longleftrightarrow> (case r of Ok _ \<Rightarrow> True | Err _ \<Rightarrow> False | Panic \<Rightarrow> False)"

lemma is_ok_simps [simp]: "is_ok (Ok a)" "\<not> is_ok (Err e)" "\<not> is_ok Panic"
  by (simp_all add: is_ok_def)

lemma is_ok_iff: "is_ok r \<longleftrightarrow> (\<exists>a. r = Ok a)"
  by (cases r) simp_all


section \<open>64-bit arithmetic\<close>

text \<open>
  The operators \<open>+\<close> and \<open>-\<close> on \<open>u64\<close> panic on overflow in a build with overflow checks
  (the \<open>dev\<close> profile) and wrap in a build without them (the \<open>release\<close> profile). The
  workspace sets neither, so both profiles are modelled; \<open>None\<close> stands for the panic.
\<close>

datatype profile = Debug | Release

definition add_u64 :: "profile \<Rightarrow> u64 \<Rightarrow> u64 \<Rightarrow> u64 option" where
  "add_u64 pr a b = (if pr = Debug \<and> 2 ^ 64 \<le> unat a + unat b then None else Some (a + b))"

definition sub_u64 :: "profile \<Rightarrow> u64 \<Rightarrow> u64 \<Rightarrow> u64 option" where
  "sub_u64 pr a b = (if pr = Debug \<and> a < b then None else Some (a - b))"

definition checked_add :: "u64 \<Rightarrow> u64 \<Rightarrow> u64 option" where
  "checked_add a b = (if unat a + unat b < 2 ^ 64 then Some (a + b) else None)"

lemma unat_add_u64:
  fixes a b :: u64
  assumes "unat a + unat b < 2 ^ 64"
  shows "unat (a + b) = unat a + unat b"
  using assms by (simp add: unat_word_ariths)

lemma unat_sub_u64:
  fixes a b :: u64
  assumes "b \<le> a"
  shows "unat (a - b) = unat a - unat b"
  using assms by (simp add: unat_sub)

lemma unat_u64_bound: "unat (a :: u64) < 2 ^ 64"
  using unsigned_less [of a] by simp

lemma checked_add_None [arith_facts]:
  "checked_add a b = None \<longleftrightarrow> 2 ^ 64 \<le> unat a + unat b"
  by (simp add: checked_add_def)

lemma add_u64_no_overflow [arith_facts]:
  "unat a + unat b < 2 ^ 64 \<Longrightarrow> add_u64 pr a b = Some (a + b)"
  by (simp add: add_u64_def)

lemma add_u64_Release [simp]: "add_u64 Release a b = Some (a + b)"
  by (simp add: add_u64_def)

lemma sub_u64_no_underflow [arith_facts]: "b \<le> a \<Longrightarrow> sub_u64 pr a b = Some (a - b)"
  by (auto simp: sub_u64_def)

lemma add_u64_Some: "add_u64 pr a b = Some c \<Longrightarrow> c = a + b"
  by (simp add: add_u64_def split: if_splits)

text \<open>\<open>u64::MAX\<close>.\<close>

abbreviation u64_max :: u64 where
  "u64_max \<equiv> 0xFFFFFFFFFFFFFFFF"

lemma unat_inc_u64:
  fixes a :: u64
  assumes "a \<noteq> u64_max"
  shows "unat (a + 1) = Suc (unat a)"
proof -
  have "unat a \<noteq> unat u64_max" using assms word_unat_eq_iff by blast
  moreover have "unat u64_max = 2 ^ 64 - 1" by simp
  ultimately have "unat a + unat (1 :: u64) < 2 ^ 64"
    using unat_u64_bound [of a] unsigned_1 [where ?'b = 64 and ?'a = nat] by linarith
  then show ?thesis by (simp add: unat_add_u64)
qed

lemma inc_overflow_iff:
  fixes a :: u64
  shows "2 ^ 64 \<le> unat a + unat (1 :: u64) \<longleftrightarrow> a = u64_max"
  using unat_u64_bound [of a] by (simp add: word_unat_eq_iff) arith

lemma add_u64_one [arith_facts]:
  "add_u64 pr a 1 = (if pr = Debug \<and> a = u64_max then None else Some (a + 1))"
  unfolding add_u64_def inc_overflow_iff by simp


section \<open>Hash maps and B-tree maps\<close>

text \<open>
  A \<open>HashMap\<close> or \<open>BTreeMap\<close> is a finite map. The order in which a \<open>HashMap\<close> yields its
  keys is unspecified: every operation that depends on it takes the order as an argument, a
  function from the finite set of keys to a list, constrained only by \<open>key_order\<close>.
\<close>

type_synonym ('k, 'v) hash_map = "('k, 'v) fmap"
type_synonym ('k, 'v) btree_map = "('k, 'v) fmap"
type_synonym 'k iter_order = "'k fset \<Rightarrow> 'k list"

definition key_order :: "'k iter_order \<Rightarrow> bool" where
  "key_order it \<longleftrightarrow> (\<forall>S. distinct (it S) \<and> set (it S) = fset S)"

definition hm_len :: "('k, 'v) hash_map \<Rightarrow> nat" where
  "hm_len m = fcard (fmdom m)"

definition hm_contains :: "('k, 'v) hash_map \<Rightarrow> 'k \<Rightarrow> bool" where
  "hm_contains m k \<longleftrightarrow> fmlookup m k \<noteq> None"

definition hm_values :: "'k iter_order \<Rightarrow> ('k, 'v) hash_map \<Rightarrow> 'v list" where
  "hm_values it m = List.map_filter (fmlookup m) (it (fmdom m))"

text \<open>A \<open>BTreeMap\<close> iterates in ascending key order.\<close>

definition bt_keys :: "('k :: linorder, 'v) btree_map \<Rightarrow> 'k list" where
  "bt_keys m = sorted_list_of_fset (fmdom m)"

definition bt_values :: "('k :: linorder, 'v) btree_map \<Rightarrow> 'v list" where
  "bt_values m = List.map_filter (fmlookup m) (bt_keys m)"

lemma key_order_distinct: "key_order it \<Longrightarrow> distinct (it S)"
  by (simp add: key_order_def)

lemma key_order_set: "key_order it \<Longrightarrow> set (it S) = fset S"
  by (simp add: key_order_def)

lemma key_order_sorted: "key_order (sorted_list_of_fset :: 'k :: linorder iter_order)"
  by (simp add: key_order_def sorted_list_of_fset.rep_eq)

lemma bt_keys_set [simp, map_facts]: "set (bt_keys m) = fset (fmdom m)"
  by (simp add: bt_keys_def)

lemma bt_keys_sorted: "sorted_wrt (<) (bt_keys m)"
  by (simp add: bt_keys_def sorted_list_of_fset.rep_eq)

lemma bt_keys_empty [simp]: "bt_keys fmempty = []"
  by (simp add: bt_keys_def sorted_list_of_fset.rep_eq)

lemma fmlookup_dom_member: "k \<in> fset (fmdom m) \<longleftrightarrow> (\<exists>v. fmlookup m k = Some v)"
  by (simp add: fmlookup_dom_iff)

lemma hm_len_0_iff [map_facts]: "hm_len m = 0 \<longleftrightarrow> m = fmempty"
proof
  assume "hm_len m = 0"
  then have "fmdom m = {||}" by (simp add: hm_len_def)
  then show "m = fmempty" by (metis fmap_ext fmdom_notD fmempty_lookup fempty_iff)
qed (simp add: hm_len_def)

lemma hm_len_empty [simp]: "hm_len fmempty = 0"
  by (simp add: hm_len_def)

lemma hm_len_fresh [map_facts]: "fmlookup m k = None \<Longrightarrow> hm_len (fmupd k v m) = Suc (hm_len m)"
  by (simp add: hm_len_def fmdom_notI fcard_finsert_disjoint)

lemma hm_len_drop_le: "hm_len (fmdrop k m) \<le> hm_len m"
  unfolding hm_len_def by (rule fcard_mono) auto

lemma hm_len_drop:
  assumes "fmlookup m k = Some v"
  shows "Suc (hm_len (fmdrop k m)) = hm_len m"
proof -
  have "fmupd k v (fmdrop k m) = m" by (rule fmap_ext) (use assms in auto)
  then show ?thesis using hm_len_fresh [of "fmdrop k m" k v] by simp
qed

lemma fmap_not_empty_iff: "m \<noteq> fmempty \<longleftrightarrow> (\<exists>k v. fmlookup m k = Some v)"
  by (metis fmap_ext fmempty_lookup not_None_eq)

lemma hm_contains_iff [map_facts]: "hm_contains m k \<longleftrightarrow> (\<exists>v. fmlookup m k = Some v)"
  by (simp add: hm_contains_def)


section \<open>Lists\<close>

lemma distinct_set_single: "distinct xs \<Longrightarrow> set xs = {x} \<Longrightarrow> xs = [x]"
  by (cases xs) (auto simp: subset_singleton_iff dest: arg_cong [where f = "\<lambda>A. A - {x}"])

end
