(* ===== verification/Bytes.thy ===== *)
theory Bytes
  imports Prelude "HOL-Library.List_Lexorder" "HOL-Library.Numeral_Type"
begin

text \<open>
  Fixed-size byte arrays \<open>[u8; N]\<close>, the little-endian bytes of a \<open>u64\<close>, and the decimal
  rendering of sizes in error messages.
\<close>

section \<open>Byte arrays\<close>

text \<open>
  \<open>[u8; 32]\<close> and \<open>[u8; 64]\<close> are the types \<open>32 bytes\<close> and \<open>64 bytes\<close>: the length is
  part of the type, as in the source.
\<close>

typedef (overloaded) 'n bytes = "{bs :: u8 list. length bs = LENGTH('n :: len)}"
  morphisms as_slice Bytes
  by (rule exI [of _ "replicate LENGTH('n) 0"]) simp

lemmas bytes_abstype [code abstype] = as_slice_inverse

lemma length_as_slice [simp]: "length (as_slice (b :: 'n :: len bytes)) = LENGTH('n)"
  using as_slice [of b] by simp

lemma as_slice_eq_iff [simp]: "as_slice a = as_slice b \<longleftrightarrow> a = b"
  by (rule as_slice_inject)

text \<open>The array literal \<open>[b; N]\<close>.\<close>

definition repeat_byte :: "u8 \<Rightarrow> 'n :: len bytes" where
  "repeat_byte b = Bytes (replicate LENGTH('n) b)"

lemma as_slice_repeat_byte [simp, code abstract]:
  "as_slice (repeat_byte b :: 'n :: len bytes) = replicate LENGTH('n) b"
  by (simp add: repeat_byte_def Bytes_inverse)

text \<open>An array filled with the front of a byte string, padded with zeros.\<close>

definition pad_bytes :: "u8 list \<Rightarrow> 'n :: len bytes" where
  "pad_bytes bs = Bytes (take LENGTH('n) (bs @ replicate LENGTH('n) 0))"

lemma as_slice_pad_bytes [simp, code abstract]:
  "as_slice (pad_bytes bs :: 'n :: len bytes) = take LENGTH('n) (bs @ replicate LENGTH('n) 0)"
  by (simp add: pad_bytes_def Bytes_inverse)

lemma pad_bytes_exact: "length bs = LENGTH('n) \<Longrightarrow> pad_bytes bs = (Bytes bs :: 'n :: len bytes)"
  by (simp add: pad_bytes_def)

text \<open>
  \<open>arr.copy_from_slice(&v)\<close> onto a whole array: it panics (\<open>None\<close>) when the lengths
  differ.
\<close>

definition copy_from_slice :: "u8 list \<Rightarrow> 'n :: len bytes option" where
  "copy_from_slice bs = (if length bs = LENGTH('n) then Some (Bytes bs) else None)"

lemma copy_from_slice_code [code]:
  "copy_from_slice bs = (if length bs = LENGTH('n) then Some (pad_bytes bs :: 'n :: len bytes) else None)"
  by (simp add: copy_from_slice_def pad_bytes_exact)

lemma copy_from_slice_Some:
  "copy_from_slice bs = Some (a :: 'n :: len bytes) \<longleftrightarrow> bs = as_slice a"
  by (auto simp: copy_from_slice_def Bytes_inverse as_slice_inverse split: if_splits)

lemma copy_from_slice_as_slice [simp]: "copy_from_slice (as_slice a) = Some a"
  by (simp add: copy_from_slice_Some)

lemma copy_from_slice_None:
  "(copy_from_slice bs :: 'n :: len bytes option) = None \<longleftrightarrow> length bs \<noteq> LENGTH('n)"
  by (simp add: copy_from_slice_def)

lemma repeat_byte_inject [simp]: "(repeat_byte a :: 'n :: len bytes) = repeat_byte b \<longleftrightarrow> a = b"
proof
  assume "(repeat_byte a :: 'n bytes) = repeat_byte b"
  then have "replicate LENGTH('n) a = replicate LENGTH('n) b"
    by (metis as_slice_repeat_byte)
  then show "a = b" by (simp add: replicate_eq_replicate)
qed simp

text \<open>
  Byte arrays are compared lexicographically, as \<open>Ord\<close> on Rust arrays does; this makes
  the sorting functions of the library apply to addresses and digests.
\<close>

instantiation bytes :: (len) linorder
begin

definition less_eq_bytes :: "'a bytes \<Rightarrow> 'a bytes \<Rightarrow> bool" where
  "less_eq_bytes a b \<longleftrightarrow> as_slice a \<le> as_slice b"

definition less_bytes :: "'a bytes \<Rightarrow> 'a bytes \<Rightarrow> bool" where
  "less_bytes a b \<longleftrightarrow> as_slice a < as_slice b"

instance
  by intro_classes
    (auto simp: less_eq_bytes_def less_bytes_def as_slice_eq_iff dest: le_imp_less_or_eq)

end

instantiation bytes :: (len) equal
begin

definition equal_bytes :: "'a bytes \<Rightarrow> 'a bytes \<Rightarrow> bool" where
  "equal_bytes a b \<longleftrightarrow> as_slice a = as_slice b"

instance
  by intro_classes (simp add: equal_bytes_def as_slice_eq_iff)

end

instantiation bytes :: (len) size
begin

definition size_bytes :: "'a bytes \<Rightarrow> nat" where
  "size_bytes b = length (as_slice b)"

instance ..

end


section \<open>Little-endian integers\<close>

text \<open>\<open>u64::to_le_bytes\<close>: byte \<open>i\<close> holds bits \<open>8 i\<close> to \<open>8 i + 7\<close>.\<close>

definition to_le_bytes :: "u64 \<Rightarrow> u8 list" where
  "to_le_bytes w = map (\<lambda>i. ucast (drop_bit (8 * i) w)) [0..<8]"

lemma length_to_le_bytes [simp]: "length (to_le_bytes w) = 8"
  by (simp add: to_le_bytes_def)

lemma bit_to_le_bytes: "n < 64 \<Longrightarrow> bit (to_le_bytes w ! (n div 8)) (n mod 8) = bit w n"
  by (simp add: to_le_bytes_def bit_simps less_mult_imp_div_less)

lemma to_le_bytes_inject [simp]: "to_le_bytes a = to_le_bytes b \<longleftrightarrow> a = b"
proof
  assume eq: "to_le_bytes a = to_le_bytes b"
  show "a = b"
  proof (rule bit_word_eqI)
    fix n assume "n < LENGTH(64)"
    then show "bit a n = bit b n"
      using bit_to_le_bytes [of n a] bit_to_le_bytes [of n b] eq by simp
  qed
qed simp


section \<open>Decimal rendering\<close>

text \<open>\<open>format!("{}", n)\<close> for an unsigned integer.\<close>

definition digit :: "nat \<Rightarrow> char" where
  "digit d = char_of (48 + d)"

fun show_nat :: "nat \<Rightarrow> string" where
  "show_nat n = (if n < 10 then [digit n] else show_nat (n div 10) @ [digit (n mod 10)])"

declare show_nat.simps [simp del]

lemma show_nat_small [simp]: "n < 10 \<Longrightarrow> show_nat n = [digit n]"
  by (subst show_nat.simps) simp

lemma show_nat_nonempty [simp]: "show_nat n \<noteq> []"
  by (subst show_nat.simps) simp

end
