(* ===== verification/Data_Types.thy ===== *)
theory Data_Types
  imports Bytes
begin

text \<open>
  The data of the chain (\<open>crates/types\<close>) and the interface of the libraries it is built on.
  The libraries are not part of the repository: each of their functions that the code calls
  is a field of the record \<open>libs\<close>, an argument of every definition that needs it, and what
  the code relies on is stated by the predicates \<open>codec_laws\<close>, \<open>ed25519_laws\<close> and
  \<open>channel_laws\<close>, which theorems name as hypotheses where they need them.
\<close>

section \<open>Digests and addresses\<close>

text \<open>\<open>Hash\<close> is \<open>commonware_cryptography::sha256::Digest\<close>, a wrapper around 32 bytes.\<close>

datatype digest = Digest (digest_bytes: "32 bytes")

type_synonym address = "32 bytes"
type_synonym signature = "64 bytes"

instantiation digest :: linorder
begin

definition less_eq_digest :: "digest \<Rightarrow> digest \<Rightarrow> bool" where
  "less_eq_digest a b \<longleftrightarrow> digest_bytes a \<le> digest_bytes b"

definition less_digest :: "digest \<Rightarrow> digest \<Rightarrow> bool" where
  "less_digest a b \<longleftrightarrow> digest_bytes a < digest_bytes b"

instance
  by intro_classes (auto simp: less_eq_digest_def less_digest_def intro: digest.expand)

end


section \<open>Transactions and blocks\<close>

record transaction =
  tx_from :: address
  tx_to :: address
  tx_amount :: u64
  tx_nonce :: u64
  tx_signature :: "signature option"

record block_header =
  hd_height :: u64
  hd_parent_hash :: digest
  hd_tx_root :: digest
  hd_timestamp :: u64
  hd_proposer :: address

record block =
  blk_header :: block_header
  blk_transactions :: "transaction list"

record signed_block =
  sb_block :: block
  sb_signature :: signature

text \<open>\<open>nanochain_types::Error\<close>.\<close>

datatype types_error =
    InvalidTransaction string
  | InvalidBlock string
  | InvalidSignature string


section \<open>The library interface\<close>

text \<open>
  A type with \<open>commonware_codec::Write\<close>, \<open>Read\<close> and \<open>EncodeSize\<close>: what it appends to
  the buffer, what it reads off the front of a buffer (an error is its rendering), and the
  size it announces.
\<close>

type_synonym 'a reader = "u8 list \<Rightarrow> string + ('a \<times> u8 list)"

text \<open>The \<open>?\<close> operator on a read: stop at the first error, else go on with the rest.\<close>

fun read_then ::
  "string + ('a \<times> u8 list) \<Rightarrow> ('a \<Rightarrow> u8 list \<Rightarrow> string + ('b \<times> u8 list)) \<Rightarrow>
     string + ('b \<times> u8 list)" where
  "read_then (Inl e) k = Inl e"
| "read_then (Inr (x, rest)) k = k x rest"

lemma read_then_Inr: "read_then r k = Inr z \<longleftrightarrow> (\<exists>x rest. r = Inr (x, rest) \<and> k x rest = Inr z)"
  by (cases "(r, k)" rule: read_then.cases) auto

record 'a codec =
  c_write :: "'a \<Rightarrow> u8 list"
  c_read :: "'a reader"
  c_size :: "'a \<Rightarrow> nat"

text \<open>
  \<^item> \<open>lib_sha256\<close> is \<open>Sha256::hash\<close>;
  \<^item> \<open>lib_encode n bs\<close> is \<open>Encode::encode\<close> of a value whose \<open>encode_size\<close> is \<open>n\<close> and
    whose \<open>write\<close> appends \<open>bs\<close>; \<open>lib_decode_block\<close> is \<open>DecodeExt::decode\<close> at \<open>Block\<close>,
    given the block reader;
  \<^item> \<open>lib_u64\<close>, \<open>lib_arr32\<close>, \<open>lib_arr64\<close>, \<open>lib_digest\<close>, \<open>lib_opt_sig\<close> and \<open>lib_vec_tx\<close>
    are the codecs of \<open>u64\<close>, \<open>[u8; 32]\<close>, \<open>[u8; 64]\<close>, \<open>Digest\<close>, \<open>Option<[u8; 64]>\<close> and,
    given the upper end of its \<open>RangeCfg\<close> and the codec of its elements, \<open>Vec<Transaction>\<close>;
  \<^item> \<open>lib_public sk\<close> is \<open>sk.verifying_key().to_bytes()\<close>, \<open>lib_sign sk m\<close> is
    \<open>sk.sign(m).to_bytes()\<close>, \<open>lib_verifying_key\<close> is \<open>VerifyingKey::from_bytes\<close> and
    \<open>lib_verify vk m s\<close> is \<open>vk.verify(m, &Signature::from_bytes(s))\<close> of \<open>ed25519_dalek\<close>;
  \<^item> \<open>lib_accepts cap q\<close> says whether \<open>try_send\<close> on a channel of capacity \<open>cap\<close> with
    queue \<open>q\<close> succeeds.
\<close>

record ('sk, 'vk) libs =
  lib_sha256 :: "u8 list \<Rightarrow> digest"
  lib_encode :: "nat \<Rightarrow> u8 list \<Rightarrow> u8 list"
  lib_decode_block :: "block reader \<Rightarrow> u8 list \<Rightarrow> string + block"
  lib_u64 :: "u64 codec"
  lib_arr32 :: "32 bytes codec"
  lib_arr64 :: "64 bytes codec"
  lib_digest :: "digest codec"
  lib_opt_sig :: "64 bytes option codec"
  lib_vec_tx :: "nat \<Rightarrow> transaction codec \<Rightarrow> transaction list codec"
  lib_public :: "'sk \<Rightarrow> address"
  lib_sign :: "'sk \<Rightarrow> u8 list \<Rightarrow> signature"
  lib_verifying_key :: "address \<Rightarrow> string + 'vk"
  lib_verify :: "'vk \<Rightarrow> u8 list \<Rightarrow> signature \<Rightarrow> string + unit"
  lib_accepts :: "nat \<Rightarrow> u8 list list \<Rightarrow> bool"


section \<open>Documented behaviour of the libraries\<close>

text \<open>
  The contract of a codec on the values satisfying \<open>P\<close>: reading undoes writing and leaves
  the rest of the buffer, and the announced size is the number of bytes written.
\<close>

definition codec_ok :: "('a \<Rightarrow> bool) \<Rightarrow> 'a codec \<Rightarrow> bool" where
  "codec_ok P c \<longleftrightarrow>
     (\<forall>x r. P x \<longrightarrow> c_read c (c_write c x @ r) = Inr (x, r)) \<and>
     (\<forall>x. P x \<longrightarrow> c_size c x = length (c_write c x))"

definition fixed_size :: "nat \<Rightarrow> 'a codec \<Rightarrow> bool" where
  "fixed_size n c \<longleftrightarrow> codec_ok (\<lambda>_. True) c \<and> (\<forall>x. length (c_write c x) = n)"

text \<open>
  \<open>Vec\<close> prefixes its elements with their number and refuses, when reading, a number outside
  its \<open>RangeCfg\<close>.
\<close>

definition vec_laws :: "('sk, 'vk) libs \<Rightarrow> bool" where
  "vec_laws L \<longleftrightarrow>
     (\<forall>n P c. n < 2 ^ 32 \<longrightarrow> codec_ok P c \<longrightarrow>
        codec_ok (\<lambda>ts. length ts \<le> n \<and> (\<forall>t \<in> set ts. P t)) (lib_vec_tx L n c)) \<and>
     (\<forall>n c bs ts r. c_read (lib_vec_tx L n c) bs = Inr (ts, r) \<longrightarrow> length ts \<le> n)"

definition codec_laws :: "('sk, 'vk) libs \<Rightarrow> bool" where
  "codec_laws L \<longleftrightarrow>
     fixed_size 8 (lib_u64 L) \<and> fixed_size 32 (lib_arr32 L) \<and> fixed_size 64 (lib_arr64 L) \<and>
     fixed_size 32 (lib_digest L) \<and> codec_ok (\<lambda>_. True) (lib_opt_sig L) \<and> vec_laws L \<and>
     (\<forall>bs. lib_encode L (length bs) bs = bs) \<and>
     (\<forall>rd bs b. lib_decode_block L rd bs = Inr b \<longleftrightarrow> rd bs = Inr (b, []))"

text \<open>A signature made with a key verifies under the public key of that key.\<close>

definition ed25519_laws :: "('sk, 'vk) libs \<Rightarrow> bool" where
  "ed25519_laws L \<longleftrightarrow>
     (\<forall>sk m. \<exists>vk. lib_verifying_key L (lib_public L sk) = Inr vk \<and>
        lib_verify L vk m (lib_sign L sk m) = Inr ())"

text \<open>A bounded channel refuses a message once its buffer is full.\<close>

definition channel_laws :: "('sk, 'vk) libs \<Rightarrow> bool" where
  "channel_laws L \<longleftrightarrow> (\<forall>cap q. lib_accepts L cap q \<longrightarrow> length q < cap)"

lemma codec_okD:
  assumes "codec_ok P c" and "P x"
  shows "c_read c (c_write c x @ r) = Inr (x, r)" and "c_size c x = length (c_write c x)"
  using assms by (simp_all add: codec_ok_def)

lemma fixed_sizeD:
  assumes "fixed_size n c"
  shows "c_read c (c_write c x @ r) = Inr (x, r)" and "c_size c x = n"
    and "length (c_write c x) = n" and "codec_ok P c"
  using assms by (simp_all add: fixed_size_def codec_ok_def)

lemma codec_lawsD:
  assumes "codec_laws L"
  shows "fixed_size 8 (lib_u64 L)" and "fixed_size 32 (lib_arr32 L)"
    and "fixed_size 64 (lib_arr64 L)" and "fixed_size 32 (lib_digest L)"
    and "codec_ok (\<lambda>_. True) (lib_opt_sig L)" and "vec_laws L"
    and "lib_encode L (length bs) bs = bs"
    and "lib_decode_block L rd bs = Inr b \<longleftrightarrow> rd bs = Inr (b, [])"
  using assms unfolding codec_laws_def by blast+

text \<open>The library's own codecs, as rewrite rules under the laws.\<close>

lemmas lib_codec_simps =
  fixed_sizeD(1,2,3) [OF codec_lawsD(1)] fixed_sizeD(1,2,3) [OF codec_lawsD(2)]
  fixed_sizeD(1,2,3) [OF codec_lawsD(3)] fixed_sizeD(1,2,3) [OF codec_lawsD(4)]
  codec_okD [OF codec_lawsD(5) TrueI]

lemma vec_lawsD:
  assumes "codec_laws L"
  shows "n < 2 ^ 32 \<Longrightarrow> codec_ok P c \<Longrightarrow>
      codec_ok (\<lambda>ts. length ts \<le> n \<and> (\<forall>t \<in> set ts. P t)) (lib_vec_tx L n c)"
    and "c_read (lib_vec_tx L n c) bs = Inr (ts, r) \<Longrightarrow> length ts \<le> n"
  using codec_lawsD(6) [OF assms] unfolding vec_laws_def by blast+


section \<open>Wire formats\<close>

text \<open>
  The contract that every \<open>Write\<close>/\<open>Read\<close>/\<open>EncodeSize\<close> implementation of the repository
  meets, on the values satisfying \<open>ok\<close>. The clients (hashing, signing, the block relay)
  use only what follows from it.
\<close>

locale wire_format =
  fixes ok :: "'a \<Rightarrow> bool"
    and wr :: "'a \<Rightarrow> u8 list"
    and rd :: "u8 list \<Rightarrow> string + ('a \<times> u8 list)"
    and sz :: "'a \<Rightarrow> nat"
  assumes roundtrip: "ok x \<Longrightarrow> rd (wr x @ r) = Inr (x, r)"
    and size_written: "ok x \<Longrightarrow> sz x = length (wr x)"
begin

lemma read_exact: "ok x \<Longrightarrow> rd (wr x) = Inr (x, [])"
  using roundtrip [of x "[]"] by simp

lemma write_prefix_free:
  assumes "ok x" and "ok y" and "wr x @ r = wr y @ s"
  shows "x = y \<and> r = s"
proof -
  have "Inr (x, r) = rd (wr y @ s)"
    using roundtrip [OF assms(1), of r] unfolding assms(3) by (rule sym)
  then show ?thesis unfolding roundtrip [OF assms(2)] by simp
qed

lemma write_inject: "ok x \<Longrightarrow> ok y \<Longrightarrow> wr x = wr y \<longleftrightarrow> x = y"
  using write_prefix_free [of x y "[]" "[]"] by auto

lemma codec_ok_wire: "codec_ok ok \<lparr>c_write = wr, c_read = rd, c_size = sz\<rparr>"
  by (simp add: codec_ok_def roundtrip size_written)

end

end
