(* ===== verification/Sample_Libs.thy ===== *)
theory Sample_Libs
  imports Data_Types
begin

text \<open>
  A concrete instance of the library interface, small enough to evaluate, on which the laws
  of \<open>Data_Types\<close> are proved. It is not a model of the real libraries: it shows that the
  hypotheses of the theorems can be met, and the witnesses evaluate the code on it. Its hash
  mixes the bytes into 20 bits, its signatures are tags of the message under the key.
\<close>

fun from_le_bytes :: "u8 list \<Rightarrow> u64" where
  "from_le_bytes [] = 0"
| "from_le_bytes (b # bs) = or (ucast b) (push_bit 8 (from_le_bytes bs))"

lemma bit_from_le_bytes:
  "bit (from_le_bytes bs) n \<longleftrightarrow> n < 64 \<and> n div 8 < length bs \<and> bit (bs ! (n div 8)) (n mod 8)"
proof (induction bs arbitrary: n)
  case (Cons b bs)
  show ?case
  proof (cases "n < 8")
    case True
    then show ?thesis by (simp add: bit_simps)
  next
    case False
    then obtain m where n: "n = m + 8" by (metis add.commute le_Suc_ex not_less)
    have "\<not> bit b (m + 8)" by (simp add: bit_word.rep_eq impossible_bit)
    then show ?thesis using Cons.IH [of m] by (auto simp: n bit_simps)
  qed
qed simp

lemma from_to_le_bytes [simp]: "from_le_bytes (to_le_bytes w) = w"
  by (rule bit_word_eqI) (simp add: bit_from_le_bytes bit_to_le_bytes less_mult_imp_div_less)

definition sample_u64 :: "u64 codec" where
  "sample_u64 = \<lparr>c_write = to_le_bytes,
     c_read = (\<lambda>bs. if length bs < 8 then Inl ''end of buffer''
                    else Inr (from_le_bytes (take 8 bs), drop 8 bs)),
     c_size = (\<lambda>_. 8)\<rparr>"

definition sample_arr :: "'n :: len bytes codec" where
  "sample_arr = \<lparr>c_write = as_slice,
     c_read = (\<lambda>bs. case copy_from_slice (take LENGTH('n) bs) of
                      None \<Rightarrow> Inl ''end of buffer'' | Some a \<Rightarrow> Inr (a, drop LENGTH('n) bs)),
     c_size = (\<lambda>_. LENGTH('n))\<rparr>"

definition sample_digest :: "digest codec" where
  "sample_digest = \<lparr>c_write = (\<lambda>d. as_slice (digest_bytes d)),
     c_read = (\<lambda>bs. case c_read sample_arr bs of
                      Inl e \<Rightarrow> Inl e | Inr (a, r) \<Rightarrow> Inr (Digest a, r)),
     c_size = (\<lambda>_. 32)\<rparr>"

fun read_opt_sig :: "signature option reader" where
  "read_opt_sig [] = Inl ''end of buffer''"
| "read_opt_sig (b # bs) =
     (if b = 0 then Inr (None, bs)
      else case c_read sample_arr bs of Inl e \<Rightarrow> Inl e | Inr (a, r) \<Rightarrow> Inr (Some a, r))"

definition sample_opt_sig :: "signature option codec" where
  "sample_opt_sig = \<lparr>c_write = (\<lambda>so. case so of None \<Rightarrow> [0] | Some s \<Rightarrow> 1 # as_slice s),
     c_read = read_opt_sig,
     c_size = (\<lambda>so. case so of None \<Rightarrow> 1 | Some _ \<Rightarrow> 65)\<rparr>"

fun read_many :: "nat \<Rightarrow> 'a reader \<Rightarrow> 'a list reader" where
  "read_many 0 rd bs = Inr ([], bs)"
| "read_many (Suc n) rd bs =
     read_then (rd bs) (\<lambda>x bs. read_then (read_many n rd bs) (\<lambda>xs bs. Inr (x # xs, bs)))"

definition sample_vec :: "nat \<Rightarrow> 'a codec \<Rightarrow> 'a list codec" where
  "sample_vec n c = \<lparr>
     c_write = (\<lambda>xs. to_le_bytes (of_nat (length xs)) @ concat (map (c_write c) xs)),
     c_read = (\<lambda>bs. read_then (c_read sample_u64 bs) (\<lambda>k bs.
                      if n < unat k then Inl ''invalid length'' else read_many (unat k) (c_read c) bs)),
     c_size = (\<lambda>xs. 8 + sum_list (map (c_size c) xs))\<rparr>"

definition sample_mix :: "u8 list \<Rightarrow> u64" where
  "sample_mix bs = word_of_int (foldl (\<lambda>h b. (h * 131 + uint b + 1) mod 1048573) 0 bs)"

definition sample_sha256 :: "u8 list \<Rightarrow> digest" where
  "sample_sha256 bs = Digest (pad_bytes (to_le_bytes (sample_mix bs)))"

lemma sample_sha256_eq_iff [simp]: "sample_sha256 a = sample_sha256 b \<longleftrightarrow> sample_mix a = sample_mix b"
proof -
  have "sample_sha256 a = sample_sha256 b \<longleftrightarrow>
      take 32 (to_le_bytes (sample_mix a) @ replicate 32 0) =
      take 32 (to_le_bytes (sample_mix b) @ replicate 32 (0 :: u8))"
    unfolding sample_sha256_def digest.inject as_slice_eq_iff [symmetric] as_slice_pad_bytes by simp
  then show ?thesis by (simp add: take_append)
qed

definition sample_sign :: "address \<Rightarrow> u8 list \<Rightarrow> signature" where
  "sample_sign sk m = pad_bytes (as_slice sk @ to_le_bytes (sample_mix m))"

definition sample_libs :: "(address, address) libs" where
  "sample_libs = \<lparr>
     lib_sha256 = sample_sha256,
     lib_encode = (\<lambda>_ bs. bs),
     lib_decode_block = (\<lambda>rd bs. case rd bs of Inl e \<Rightarrow> Inl e
        | Inr (b, r) \<Rightarrow> (if r = [] then Inr b else Inl ''extra data'')),
     lib_u64 = sample_u64, lib_arr32 = sample_arr, lib_arr64 = sample_arr,
     lib_digest = sample_digest, lib_opt_sig = sample_opt_sig, lib_vec_tx = sample_vec,
     lib_public = (\<lambda>sk. sk), lib_sign = sample_sign, lib_verifying_key = Inr,
     lib_verify = (\<lambda>vk m s. if s = sample_sign vk m then Inr () else Inl ''signature error''),
     lib_accepts = (\<lambda>cap q. length q < cap)\<rparr>"

lemma sample_libs_simps [simp]:
  "lib_sha256 sample_libs = sample_sha256" "lib_encode sample_libs n bs = bs"
  "lib_u64 sample_libs = sample_u64" "lib_arr32 sample_libs = sample_arr"
  "lib_arr64 sample_libs = sample_arr" "lib_digest sample_libs = sample_digest"
  "lib_opt_sig sample_libs = sample_opt_sig" "lib_vec_tx sample_libs = sample_vec"
  "lib_public sample_libs sk = sk" "lib_sign sample_libs = sample_sign"
  "lib_verifying_key sample_libs = Inr"
  "lib_verify sample_libs vk m s =
     (if s = sample_sign vk m then Inr () else Inl ''signature error'')"
  "lib_accepts sample_libs cap q \<longleftrightarrow> length q < cap"
  by (simp_all add: sample_libs_def)

lemmas sample_codec_defs =
  sample_u64_def sample_arr_def sample_digest_def sample_opt_sig_def


section \<open>The laws\<close>

lemma fixed_size_sample_u64: "fixed_size 8 sample_u64"
  by (simp add: fixed_size_def codec_ok_def sample_u64_def)

lemma read_sample_arr [simp]: "c_read sample_arr (as_slice a @ r) = Inr (a, r)"
  by (simp add: sample_arr_def)

lemma fixed_size_sample_arr: "fixed_size LENGTH('n) (sample_arr :: 'n :: len bytes codec)"
  by (simp add: fixed_size_def codec_ok_def) (simp add: sample_arr_def)

lemma fixed_size_sample_digest: "fixed_size 32 sample_digest"
  by (simp add: fixed_size_def codec_ok_def sample_digest_def)

lemma codec_ok_sample_opt_sig: "codec_ok (\<lambda>_. True) sample_opt_sig"
  by (simp add: codec_ok_def sample_opt_sig_def split: option.splits)

lemma read_many_write:
  assumes "codec_ok P c" and "\<forall>x \<in> set xs. P x"
  shows "read_many (length xs) (c_read c) (concat (map (c_write c) xs) @ r) = Inr (xs, r)"
  using assms(2) by (induction xs arbitrary: r) (simp_all add: codec_okD [OF assms(1)])

lemma read_many_length: "read_many n rd bs = Inr (xs, r) \<Longrightarrow> length xs = n"
proof (induction n arbitrary: bs xs r)
  case (Suc n)
  then show ?case by (fastforce simp: read_then_Inr)
qed simp

lemma sample_vec_size:
  assumes "codec_ok P c" and "\<forall>x \<in> set xs. P x"
  shows "c_size (sample_vec n c) xs = length (c_write (sample_vec n c) xs)"
  using assms(2)
  by (simp add: sample_vec_def) (induction xs, simp_all add: codec_okD [OF assms(1)])

lemma sample_vec_read:
  assumes "codec_ok P c" and "\<forall>x \<in> set xs. P x" and "length xs \<le> n" and "n < 2 ^ 32"
  shows "c_read (sample_vec n c) (c_write (sample_vec n c) xs @ r) = Inr (xs, r)"
proof -
  have "unat (of_nat (length xs) :: u64) = length xs"
    using assms(3,4) by (simp add: unsigned_of_nat take_bit_nat_eq_self)
  with assms(3) read_many_write [OF assms(1,2)] show ?thesis
    by (simp add: sample_vec_def sample_u64_def)
qed

lemma sample_vec_laws: "vec_laws sample_libs"
proof -
  have "codec_ok (\<lambda>ts. length ts \<le> n \<and> (\<forall>t \<in> set ts. P t)) (sample_vec n c)"
    if "n < 2 ^ 32" and "codec_ok P c" for n P and c :: "transaction codec"
    unfolding codec_ok_def
    using sample_vec_read [OF that(2) _ _ that(1)] sample_vec_size [OF that(2)] by blast
  moreover have "length ts \<le> n"
    if "c_read (sample_vec n c) bs = Inr (ts, r)" for n bs ts r and c :: "transaction codec"
    using that
    by (auto simp: sample_vec_def read_then_Inr dest: read_many_length split: if_splits)
  ultimately show ?thesis unfolding vec_laws_def sample_libs_def by simp
qed

lemma sample_codec_laws: "codec_laws sample_libs"
  unfolding codec_laws_def
  using fixed_size_sample_u64 fixed_size_sample_digest codec_ok_sample_opt_sig sample_vec_laws
    fixed_size_sample_arr [where 'n = 32] fixed_size_sample_arr [where 'n = 64]
  by (auto simp: sample_libs_def split: sum.splits)

lemma sample_ed25519_laws: "ed25519_laws sample_libs"
  by (simp add: ed25519_laws_def sample_libs_def)

lemma sample_channel_laws: "channel_laws sample_libs"
  by (simp add: channel_laws_def sample_libs_def)

end
