(* ===== verification/Hashes.thy ===== *)
theory Hashes
  imports Sample_Libs
begin

text \<open>
  \<open>crates/types/src/hash.rs\<close>: the hash function, the zero digest and the serde bridge for
  digests. \<open>D::Error\<close> is represented by its rendering; \<open>Vec::deserialize\<close> belongs to the
  serde format and its result is the argument of the deserializers.
\<close>

definition sha256 :: "('sk, 'vk) libs \<Rightarrow> u8 list \<Rightarrow> digest" where
  "sha256 L bs = lib_sha256 L bs"

definition zero_hash :: digest where
  "zero_hash = Digest (repeat_byte 0)"

definition hash_serialize :: "digest \<Rightarrow> u8 list" where
  "hash_serialize h = as_slice (digest_bytes h)"

definition hash_deserialize :: "string + u8 list \<Rightarrow> (string, digest) res" where
  "hash_deserialize d =
     (case d of
        Inl e \<Rightarrow> Err e
      | Inr v \<Rightarrow>
          if length v \<noteq> 32 then Err (''Hash must be 32 bytes, got '' @ show_nat (length v))
          else (case copy_from_slice v of None \<Rightarrow> Panic | Some arr \<Rightarrow> Ok (Digest arr)))"

text \<open>Collision-freeness on the inputs that matter: satisfiable, unlike injectivity.\<close>

definition no_collision :: "('sk, 'vk) libs \<Rightarrow> u8 list set \<Rightarrow> bool" where
  "no_collision L A \<longleftrightarrow> inj_on (sha256 L) A"

lemma no_collisionD: "no_collision L A \<Longrightarrow> a \<in> A \<Longrightarrow> b \<in> A \<Longrightarrow> sha256 L a = sha256 L b \<Longrightarrow> a = b"
  by (simp add: no_collision_def inj_on_def)

lemma no_collision_mono: "no_collision L A \<Longrightarrow> B \<subseteq> A \<Longrightarrow> no_collision L B"
  unfolding no_collision_def by (rule inj_on_subset)

lemma no_collision_pair: "sha256 L a \<noteq> sha256 L b \<Longrightarrow> no_collision L {a, b}"
  by (auto simp: no_collision_def inj_on_def)

lemma no_collision_list: "distinct (map (sha256 L) xs) \<Longrightarrow> no_collision L (set xs)"
  by (simp add: no_collision_def distinct_map)

lemma sha256_sample [simp]: "sha256 sample_libs = sample_sha256"
  by (simp add: fun_eq_iff sha256_def)

text \<open>
  Serialising a digest and deserialising the resulting bytes gives the digest back; a
  byte string of any other length than 32 is refused with a message naming its length; and
  the copy into the array never panics.
\<close>

theorem hash_serde_correct:
  "hash_deserialize (Inr (hash_serialize h)) = Ok h \<and>
   (hash_deserialize (Inr v) = Ok g \<longleftrightarrow> v = hash_serialize g) \<and>
   (hash_deserialize (Inr v) = Err (''Hash must be 32 bytes, got '' @ show_nat (length v))
      \<longleftrightarrow> length v \<noteq> 32) \<and>
   hash_deserialize d \<noteq> Panic"
  by (cases h; cases g)
    (auto simp: hash_deserialize_def hash_serialize_def copy_from_slice_Some copy_from_slice_None
      split: sum.splits option.splits)

end
