(* ===== verification/Transactions.thy ===== *)
theory Transactions
  imports Hashes
begin

text \<open>
  \<open>crates/types/src/transaction.rs\<close>: the signed payload, the hash, signing and signature
  verification, the wire format and the serde bridge of the signature.
\<close>

section \<open>Operations\<close>

definition SIGNATURE_LEN :: nat where
  "SIGNATURE_LEN = 64"

definition option_sig_serialize :: "signature option \<Rightarrow> u8 list option" where
  "option_sig_serialize sig = map_option as_slice sig"

definition option_sig_deserialize ::
  "string + u8 list option \<Rightarrow> (string, signature option) res" where
  "option_sig_deserialize d =
     (case d of
        Inl e \<Rightarrow> Err e
      | Inr None \<Rightarrow> Ok None
      | Inr (Some v) \<Rightarrow>
          if length v \<noteq> SIGNATURE_LEN
          then Err (''signature must be exactly '' @ show_nat SIGNATURE_LEN @ '' bytes, got ''
                 @ show_nat (length v))
          else (case copy_from_slice v of None \<Rightarrow> Panic | Some arr \<Rightarrow> Ok (Some arr)))"

text \<open>The bytes that are signed: everything but the signature.\<close>

definition pure_payload :: "transaction \<Rightarrow> u8 list" where
  "pure_payload t =
     as_slice (tx_from t) @ as_slice (tx_to t) @
     to_le_bytes (tx_amount t) @ to_le_bytes (tx_nonce t)"

definition write_tx :: "('sk, 'vk) libs \<Rightarrow> transaction \<Rightarrow> u8 list" where
  "write_tx L t =
     c_write (lib_arr32 L) (tx_from t) @
     c_write (lib_arr32 L) (tx_to t) @
     c_write (lib_u64 L) (tx_amount t) @
     c_write (lib_u64 L) (tx_nonce t) @
     c_write (lib_opt_sig L) (tx_signature t)"

definition read_tx :: "('sk, 'vk) libs \<Rightarrow> transaction reader" where
  "read_tx L buf =
     read_then (c_read (lib_arr32 L) buf) (\<lambda>f buf.
     read_then (c_read (lib_arr32 L) buf) (\<lambda>t buf.
     read_then (c_read (lib_u64 L) buf) (\<lambda>a buf.
     read_then (c_read (lib_u64 L) buf) (\<lambda>n buf.
     read_then (c_read (lib_opt_sig L) buf) (\<lambda>s buf.
       Inr (\<lparr>tx_from = f, tx_to = t, tx_amount = a, tx_nonce = n, tx_signature = s\<rparr>, buf))))))"

definition tx_encode_size :: "('sk, 'vk) libs \<Rightarrow> transaction \<Rightarrow> nat" where
  "tx_encode_size L t =
     c_size (lib_arr32 L) (tx_from t) + c_size (lib_arr32 L) (tx_to t) +
     c_size (lib_u64 L) (tx_amount t) + c_size (lib_u64 L) (tx_nonce t) +
     c_size (lib_opt_sig L) (tx_signature t)"

definition tx_codec :: "('sk, 'vk) libs \<Rightarrow> transaction codec" where
  "tx_codec L = \<lparr>c_write = write_tx L, c_read = read_tx L, c_size = tx_encode_size L\<rparr>"

text \<open>\<open>Encode::encode(self)\<close>: a buffer of the announced size, filled by \<open>write\<close>.\<close>

definition tx_encode :: "('sk, 'vk) libs \<Rightarrow> transaction \<Rightarrow> u8 list" where
  "tx_encode L t = lib_encode L (tx_encode_size L t) (write_tx L t)"

definition tx_hash :: "('sk, 'vk) libs \<Rightarrow> transaction \<Rightarrow> digest" where
  "tx_hash L t = sha256 L (tx_encode L t)"

definition tx_signed :: "('sk, 'vk) libs \<Rightarrow> 'sk \<Rightarrow> address \<Rightarrow> u64 \<Rightarrow> u64 \<Rightarrow> transaction" where
  "tx_signed L signer to amount nonce =
     (let tx = \<lparr>tx_from = lib_public L signer, tx_to = to, tx_amount = amount, tx_nonce = nonce,
                tx_signature = None\<rparr>;
          sig = lib_sign L signer (pure_payload tx)
      in tx\<lparr>tx_signature := Some sig\<rparr>)"

definition verify_signature :: "('sk, 'vk) libs \<Rightarrow> transaction \<Rightarrow> types_error + unit" where
  "verify_signature L t =
     (case tx_signature t of
        None \<Rightarrow> Inl (InvalidSignature ''transaction is unsigned'')
      | Some sig \<Rightarrow>
          (case lib_verifying_key L (tx_from t) of
             Inl e \<Rightarrow> Inl (InvalidSignature (''bad public key: '' @ e))
           | Inr pubkey \<Rightarrow>
               (case lib_verify L pubkey (pure_payload t) sig of
                  Inl e \<Rightarrow> Inl (InvalidSignature (''verification failed: '' @ e))
                | Inr _ \<Rightarrow> Inr ())))"

lemmas tx_wire_defs [wire_defs] = write_tx_def read_tx_def tx_encode_size_def


section \<open>The wire format\<close>

interpretation tx_wire: wire_format "\<lambda>_. codec_laws L" "write_tx L" "read_tx L" "tx_encode_size L"
  for L :: "('sk, 'vk) libs"
  by unfold_locales (simp_all add: wire_defs lib_codec_simps fixed_sizeD(2,3) [OF codec_lawsD(1)])

lemma tx_codec_ok: "codec_laws L \<Longrightarrow> codec_ok (\<lambda>_. True) (tx_codec L)"
  using tx_wire.codec_ok_wire [of L] by (simp add: tx_codec_def codec_ok_def)

lemma tx_encode_written: "codec_laws L \<Longrightarrow> tx_encode L t = write_tx L t"
  by (simp add: tx_encode_def tx_wire.size_written codec_lawsD(7))

lemma tx_encode_inject: "codec_laws L \<Longrightarrow> tx_encode L t = tx_encode L u \<longleftrightarrow> t = u"
  by (simp add: tx_encode_written tx_wire.write_inject)

lemma tx_hash_eqD:
  assumes "codec_laws L" and "no_collision L A" and "tx_encode L t \<in> A" and "tx_encode L u \<in> A"
    and "tx_hash L t = tx_hash L u"
  shows "t = u"
  using no_collisionD [OF assms(2-4)] assms(5) tx_encode_inject [OF assms(1)]
  by (simp add: tx_hash_def)

lemma map_tx_hash_eqD:
  assumes "codec_laws L" and "no_collision L A"
    and "tx_encode L ` set ts \<subseteq> A" and "tx_encode L ` set us \<subseteq> A"
    and "map (tx_hash L) ts = map (tx_hash L) us"
  shows "ts = us"
proof (rule nth_equalityI)
  show len: "length ts = length us" using map_eq_imp_length_eq [OF assms(5)] .
  fix i assume i: "i < length ts"
  have "tx_hash L (ts ! i) = tx_hash L (us ! i)"
    using assms(5) i len by (metis nth_map)
  with i len assms(3,4) show "ts ! i = us ! i"
    by (intro tx_hash_eqD [OF assms(1,2)]) (auto simp: image_subset_iff)
qed

lemma verify_signature_ok_iff:
  "verify_signature L t = Inr () \<longleftrightarrow>
     (\<exists>sig vk. tx_signature t = Some sig \<and> lib_verifying_key L (tx_from t) = Inr vk \<and>
        lib_verify L vk (pure_payload t) sig = Inr ())"
  by (auto simp: verify_signature_def split: option.splits sum.splits)

lemma tx_signed_facts:
  assumes "ed25519_laws L"
  shows "verify_signature L (tx_signed L sk to amount nonce) = Inr () \<and>
         tx_from (tx_signed L sk to amount nonce) = lib_public L sk \<and>
         tx_to (tx_signed L sk to amount nonce) = to \<and>
         tx_amount (tx_signed L sk to amount nonce) = amount \<and>
         tx_nonce (tx_signed L sk to amount nonce) = nonce"
  using assms
  by (auto simp: tx_signed_def verify_signature_ok_iff ed25519_laws_def Let_def pure_payload_def)


section \<open>Properties\<close>

text \<open>
  A transaction survives the wire: reading the bytes written for it, whatever follows
  them in the buffer, gives the transaction and leaves what follows; the size announced for
  it is the number of bytes written.
\<close>

theorem tx_codec_roundtrip:
  assumes "codec_laws L"
  shows "read_tx L (write_tx L t @ rest) = Inr (t, rest) \<and>
         tx_encode_size L t = length (write_tx L t)"
  using tx_wire.roundtrip [OF assms] tx_wire.size_written [OF assms] by blast

definition sample_tx :: transaction where
  "sample_tx = tx_signed sample_libs (repeat_byte 7) (repeat_byte 9) 100 0"

theorem tx_codec_roundtrip_witness:
  "read_tx sample_libs (write_tx sample_libs sample_tx @ [1, 2]) = Inr (sample_tx, [1, 2]) \<and>
   tx_encode_size sample_libs sample_tx = length (write_tx sample_libs sample_tx)"
  using tx_codec_roundtrip [OF sample_codec_laws, of sample_tx "[1, 2]"] .

text \<open>
  The signed payload determines every field of a transaction except its signature, and
  does not depend on the signature.
\<close>

theorem pure_payload_binds:
  "pure_payload t = pure_payload u \<longleftrightarrow> t\<lparr>tx_signature := None\<rparr> = u\<lparr>tx_signature := None\<rparr>"
  by (cases t; cases u) (simp add: pure_payload_def append_eq_append_conv)

text \<open>
  A transaction made with a signing key carries the public key of that key as its sender
  and the other arguments as given, and its signature verifies.
\<close>

theorem signed_tx_verifies:
  assumes "ed25519_laws L"
  shows "verify_signature L (tx_signed L sk to amount nonce) = Inr () \<and>
         tx_from (tx_signed L sk to amount nonce) = lib_public L sk \<and>
         tx_to (tx_signed L sk to amount nonce) = to \<and>
         tx_amount (tx_signed L sk to amount nonce) = amount \<and>
         tx_nonce (tx_signed L sk to amount nonce) = nonce"
  by (rule tx_signed_facts [OF assms])

theorem signed_tx_verifies_witness:
  "verify_signature sample_libs sample_tx = Inr () \<and> tx_from sample_tx = repeat_byte 7"
  using signed_tx_verifies [OF sample_ed25519_laws, of "repeat_byte 7" "repeat_byte 9" 100 0]
  by (simp add: sample_tx_def)

text \<open>
  On encodings where the hash function does not collide, two transactions have the same
  hash exactly when they are the same transaction, signature included.
\<close>

theorem tx_hash_binds:
  assumes "codec_laws L" and "no_collision L {tx_encode L t, tx_encode L u}"
  shows "tx_hash L t = tx_hash L u \<longleftrightarrow> t = u"
  using tx_hash_eqD [OF assms] by auto

definition sample_tx2 :: transaction where
  "sample_tx2 = tx_signed sample_libs (repeat_byte 7) (repeat_byte 9) 200 0"

text \<open>The bytes of a transaction made by the sample libraries.\<close>

definition sample_payload :: "u8 \<Rightarrow> u8 \<Rightarrow> u64 \<Rightarrow> u64 \<Rightarrow> u8 list" where
  "sample_payload f t a n = replicate 32 f @ replicate 32 t @ to_le_bytes a @ to_le_bytes n"

definition sample_tx_bytes :: "u8 \<Rightarrow> u8 \<Rightarrow> u64 \<Rightarrow> u64 \<Rightarrow> u8 list" where
  "sample_tx_bytes f t a n =
     sample_payload f t a n @
     1 # replicate 32 f @ to_le_bytes (sample_mix (sample_payload f t a n)) @ replicate 24 0"

lemma tx_encode_sample:
  "tx_encode sample_libs (tx_signed sample_libs (repeat_byte f) (repeat_byte t) a n) =
     sample_tx_bytes f t a n"
  by (simp add: tx_encode_written [OF sample_codec_laws] write_tx_def tx_signed_def
      pure_payload_def sample_codec_defs sample_sign_def sample_tx_bytes_def sample_payload_def)

lemma sample_tx_mix_differs:
  "sample_mix (sample_tx_bytes 7 9 100 0) \<noteq> sample_mix (sample_tx_bytes 7 9 200 0)"
  by code_simp

theorem tx_hash_binds_witness: "tx_hash sample_libs sample_tx \<noteq> tx_hash sample_libs sample_tx2"
proof -
  have "no_collision sample_libs {tx_encode sample_libs sample_tx, tx_encode sample_libs sample_tx2}"
    using sample_tx_mix_differs
    by (simp add: no_collision_pair sample_tx_def sample_tx2_def tx_encode_sample)
  moreover have "sample_tx \<noteq> sample_tx2"
    by (simp add: sample_tx2_def sample_tx_def tx_signed_def Let_def)
  ultimately show ?thesis using tx_hash_binds [OF sample_codec_laws] by blast
qed

end
