(* ===== verification/Blocks.thy ===== *)
theory Blocks
  imports Transactions
begin

text \<open>
  \<open>crates/types/src/block.rs\<close>: the Merkle root over a block's transactions, the block hash,
  the constructors, and the wire formats of headers and blocks.
\<close>

section \<open>The Merkle root\<close>

text \<open>\<open>sha256\<close> of the 64-byte buffer that holds the two digests one after the other.\<close>

definition node_input :: "digest \<Rightarrow> digest \<Rightarrow> u8 list" where
  "node_input a b = as_slice (digest_bytes a) @ as_slice (digest_bytes b)"

definition node_hash :: "('sk, 'vk) libs \<Rightarrow> digest \<Rightarrow> digest \<Rightarrow> digest" where
  "node_hash L a b = sha256 L (node_input a b)"

text \<open>
  \<open>layer.chunks(2).map(..).collect()\<close>; indexing \<open>pair[1]\<close> in a chunk of one element panics
  (\<open>None\<close>).
\<close>

fun hash_chunks :: "('sk, 'vk) libs \<Rightarrow> digest list \<Rightarrow> digest list option" where
  "hash_chunks L [] = Some []"
| "hash_chunks L [d] = None"
| "hash_chunks L (a # b # ds) = map_option ((#) (node_hash L a b)) (hash_chunks L ds)"

text \<open>\<open>if layer.len() % 2 == 1 { layer.push(*layer.last().unwrap()) }\<close> on a non-empty layer.\<close>

definition pad_odd :: "digest list \<Rightarrow> digest list" where
  "pad_odd layer = (if odd (length layer) then layer @ [last layer] else layer)"

lemma hash_chunks_length: "hash_chunks L ds = Some es \<Longrightarrow> length ds = 2 * length es"
  by (induction L ds arbitrary: es rule: hash_chunks.induct) auto

lemma length_pad_odd: "length (pad_odd ds) = 2 * ((length ds + 1) div 2)"
  by (auto simp: pad_odd_def)

text \<open>The \<open>while layer.len() > 1\<close> loop and the final \<open>layer.into_iter().next().unwrap()\<close>.\<close>

function tx_root_loop :: "('sk, 'vk) libs \<Rightarrow> digest list \<Rightarrow> digest option" where
  "tx_root_loop L layer =
     (if length layer > 1
      then (case hash_chunks L (pad_odd layer) of
              None \<Rightarrow> None
            | Some layer' \<Rightarrow> tx_root_loop L layer')
      else (case layer of [] \<Rightarrow> None | d # _ \<Rightarrow> Some d))"
  by pat_completeness auto
termination
proof (relation "measure (\<lambda>(L, layer). length layer)")
  fix L :: "('sk, 'vk) libs" and layer layer' :: "digest list"
  assume "1 < length layer" and "hash_chunks L (pad_odd layer) = Some layer'"
  then show "((L, layer'), (L, layer)) \<in> measure (\<lambda>(L, layer). length layer)"
    using hash_chunks_length [of L "pad_odd layer" layer'] length_pad_odd [of layer] by simp
qed simp

declare tx_root_loop.simps [simp del]

definition compute_tx_root :: "('sk, 'vk) libs \<Rightarrow> transaction list \<Rightarrow> digest option" where
  "compute_tx_root L txs =
     (if txs = [] then Some zero_hash else tx_root_loop L (map (tx_hash L) txs))"


section \<open>Blocks and their hash\<close>

definition HEADER_SIZE :: nat where
  "HEADER_SIZE = 8 + 32 + 32 + 8 + 32"

definition MAX_TXS_PER_BLOCK :: nat where
  "MAX_TXS_PER_BLOCK = 16384"

definition write_header :: "('sk, 'vk) libs \<Rightarrow> block_header \<Rightarrow> u8 list" where
  "write_header L h =
     c_write (lib_u64 L) (hd_height h) @
     c_write (lib_digest L) (hd_parent_hash h) @
     c_write (lib_digest L) (hd_tx_root h) @
     c_write (lib_u64 L) (hd_timestamp h) @
     c_write (lib_arr32 L) (hd_proposer h)"

definition read_header :: "('sk, 'vk) libs \<Rightarrow> block_header reader" where
  "read_header L buf =
     read_then (c_read (lib_u64 L) buf) (\<lambda>height buf.
     read_then (c_read (lib_digest L) buf) (\<lambda>parent buf.
     read_then (c_read (lib_digest L) buf) (\<lambda>root buf.
     read_then (c_read (lib_u64 L) buf) (\<lambda>time buf.
     read_then (c_read (lib_arr32 L) buf) (\<lambda>proposer buf.
       Inr (\<lparr>hd_height = height, hd_parent_hash = parent, hd_tx_root = root,
             hd_timestamp = time, hd_proposer = proposer\<rparr>, buf))))))"

definition header_encode :: "('sk, 'vk) libs \<Rightarrow> block_header \<Rightarrow> u8 list" where
  "header_encode L h = lib_encode L HEADER_SIZE (write_header L h)"

definition block_hash :: "('sk, 'vk) libs \<Rightarrow> block \<Rightarrow> digest" where
  "block_hash L b = sha256 L (header_encode L (blk_header b))"

definition genesis :: block where
  "genesis =
     \<lparr>blk_header = \<lparr>hd_height = 0, hd_parent_hash = zero_hash, hd_tx_root = zero_hash,
                    hd_timestamp = 0, hd_proposer = repeat_byte 0\<rparr>,
      blk_transactions = []\<rparr>"

text \<open>\<open>Block::new\<close>; \<open>None\<close> if computing the root panics.\<close>

definition block_new ::
  "('sk, 'vk) libs \<Rightarrow> u64 \<Rightarrow> digest \<Rightarrow> u64 \<Rightarrow> address \<Rightarrow> transaction list \<Rightarrow> block option" where
  "block_new L height parent time proposer txs =
     (case compute_tx_root L txs of
        None \<Rightarrow> None
      | Some root \<Rightarrow> Some
          \<lparr>blk_header = \<lparr>hd_height = height, hd_parent_hash = parent, hd_tx_root = root,
                         hd_timestamp = time, hd_proposer = proposer\<rparr>,
           blk_transactions = txs\<rparr>)"

definition vec_codec :: "('sk, 'vk) libs \<Rightarrow> transaction list codec" where
  "vec_codec L = lib_vec_tx L MAX_TXS_PER_BLOCK (tx_codec L)"

definition write_block :: "('sk, 'vk) libs \<Rightarrow> block \<Rightarrow> u8 list" where
  "write_block L b = write_header L (blk_header b) @ c_write (vec_codec L) (blk_transactions b)"

definition read_block :: "('sk, 'vk) libs \<Rightarrow> block reader" where
  "read_block L buf =
     read_then (read_header L buf) (\<lambda>header buf.
     read_then (c_read (vec_codec L) buf) (\<lambda>txs buf.
       Inr (\<lparr>blk_header = header, blk_transactions = txs\<rparr>, buf)))"

definition block_encode_size :: "('sk, 'vk) libs \<Rightarrow> block \<Rightarrow> nat" where
  "block_encode_size L b = HEADER_SIZE + c_size (vec_codec L) (blk_transactions b)"

definition block_encode :: "('sk, 'vk) libs \<Rightarrow> block \<Rightarrow> u8 list" where
  "block_encode L b = lib_encode L (block_encode_size L b) (write_block L b)"

definition block_decode :: "('sk, 'vk) libs \<Rightarrow> u8 list \<Rightarrow> string + block" where
  "block_decode L bytes = lib_decode_block L (read_block L) bytes"

text \<open>What the consensus library asks of a block: its digest, height and parent.\<close>

definition block_digest :: "('sk, 'vk) libs \<Rightarrow> block \<Rightarrow> digest" where
  "block_digest L b = block_hash L b"

definition block_height :: "block \<Rightarrow> u64" where
  "block_height b = hd_height (blk_header b)"

definition block_parent :: "block \<Rightarrow> digest" where
  "block_parent b = hd_parent_hash (blk_header b)"

lemmas header_wire_defs [wire_defs] = write_header_def read_header_def
lemmas block_wire_defs [wire_defs] = write_block_def read_block_def block_encode_size_def


section \<open>The Merkle root, recursively\<close>

text \<open>
  The reference definition: the subtree of depth \<open>k\<close> over a list of leaves splits it at
  \<open>2 ^ k\<close>, and where the right half is missing it is a copy of the left one. The root of a
  list is the subtree of the least sufficient depth.
\<close>

fun subtree :: "('sk, 'vk) libs \<Rightarrow> nat \<Rightarrow> digest list \<Rightarrow> digest" where
  "subtree L 0 ds = hd ds"
| "subtree L (Suc k) ds =
     (let l = subtree L k (take (2 ^ k) ds);
          r = (if length ds \<le> 2 ^ k then l else subtree L k (drop (2 ^ k) ds))
      in node_hash L l r)"

fun tree_depth :: "nat \<Rightarrow> nat" where
  "tree_depth n = (if n \<le> 1 then 0 else Suc (tree_depth ((n + 1) div 2)))"

declare tree_depth.simps [simp del]

definition merkle_root :: "('sk, 'vk) libs \<Rightarrow> digest list \<Rightarrow> digest" where
  "merkle_root L ds = subtree L (tree_depth (length ds)) ds"

definition tx_root :: "('sk, 'vk) libs \<Rightarrow> transaction list \<Rightarrow> digest" where
  "tx_root L txs = (if txs = [] then zero_hash else merkle_root L (map (tx_hash L) txs))"

text \<open>One pass of the loop.\<close>

fun level :: "('sk, 'vk) libs \<Rightarrow> digest list \<Rightarrow> digest list" where
  "level L [] = []"
| "level L [d] = [node_hash L d d]"
| "level L (a # b # ds) = node_hash L a b # level L ds"

lemma pad_odd_Cons2: "pad_odd (a # b # ds) = a # b # pad_odd ds"
  by (cases ds) (simp_all add: pad_odd_def)

lemma hash_chunks_pad_odd: "hash_chunks L (pad_odd ds) = Some (level L ds)"
  by (induction L ds rule: level.induct) (simp_all add: pad_odd_Cons2, simp_all add: pad_odd_def)

lemma length_level: "length (level L ds) = (length ds + 1) div 2"
  by (induction L ds rule: level.induct) simp_all

lemma level_Nil_iff [simp]: "level L ds = [] \<longleftrightarrow> ds = []"
  by (cases "(L, ds)" rule: level.cases) simp_all

lemma level_take: "level L (take (2 * n) ds) = take n (level L ds)"
proof (induction L ds arbitrary: n rule: level.induct)
  case (2 L d)
  then show ?case by (cases n) simp_all
next
  case (3 L a b ds)
  then show ?case by (cases n) simp_all
qed simp

lemma level_drop: "level L (drop (2 * n) ds) = drop n (level L ds)"
proof (induction L ds arbitrary: n rule: level.induct)
  case (2 L d)
  then show ?case by (cases n) simp_all
next
  case (3 L a b ds)
  then show ?case by (cases n) simp_all
qed simp

lemma tx_root_loop_step: "1 < length ds \<Longrightarrow> tx_root_loop L ds = tx_root_loop L (level L ds)"
  by (subst tx_root_loop.simps) (simp add: hash_chunks_pad_odd)

lemma tx_root_loop_single [simp]: "tx_root_loop L [d] = Some d"
  by (subst tx_root_loop.simps) simp

lemma subtree_level:
  "ds \<noteq> [] \<Longrightarrow> length ds \<le> 2 ^ Suc k \<Longrightarrow> subtree L (Suc k) ds = subtree L k (level L ds)"
proof (induction k arbitrary: ds)
  case 0
  then show ?case by (cases "(L, ds)" rule: level.cases) (auto simp: Let_def)
next
  case (Suc k)
  have left: "subtree L (Suc k) (take (2 ^ Suc k) ds) = subtree L k (take (2 ^ k) (level L ds))"
    using Suc.IH [of "take (2 ^ Suc k) ds"] Suc.prems(1) level_take [of L "2 ^ k" ds] by simp
  show ?case
  proof (cases "length ds \<le> 2 ^ Suc k")
    case True
    then have "length (level L ds) \<le> 2 ^ k" by (simp add: length_level)
    with True left show ?thesis
      by (simp only: subtree.simps(2) [of L "Suc k"] subtree.simps(2) [of L k "level L ds"] Let_def
          simp_thms if_True)
  next
    case False
    then have "\<not> length (level L ds) \<le> 2 ^ k" by (simp add: length_level)
    moreover have "subtree L (Suc k) (drop (2 ^ Suc k) ds) = subtree L k (drop (2 ^ k) (level L ds))"
      using Suc.IH [of "drop (2 ^ Suc k) ds"] Suc.prems False level_drop [of L "2 ^ k" ds] by simp
    ultimately show ?thesis using False left
      by (simp only: subtree.simps(2) [of L "Suc k"] subtree.simps(2) [of L k "level L ds"] Let_def
          simp_thms if_False)
  qed
qed

lemma tree_depth_small [simp]: "n \<le> 1 \<Longrightarrow> tree_depth n = 0"
  by (subst tree_depth.simps) simp

lemma tree_depth_step: "1 < n \<Longrightarrow> tree_depth n = Suc (tree_depth ((n + 1) div 2))"
  by (subst tree_depth.simps) simp

lemma le_pow2_tree_depth: "n \<le> 2 ^ tree_depth n"
proof (induction n rule: tree_depth.induct)
  case (1 n)
  then show ?case by (cases "n \<le> 1") (simp_all add: tree_depth_step)
qed

lemma tree_depth_minimal: "1 < n \<Longrightarrow> 2 ^ (tree_depth n - 1) < n"
proof (induction n rule: tree_depth.induct)
  case (1 n)
  let ?m = "(n + 1) div 2"
  show ?case
  proof (cases "1 < ?m")
    case True
    obtain e where e: "tree_depth ?m = Suc e" using True by (simp add: tree_depth_step)
    have "2 ^ e < ?m" using 1 True e by simp
    then have "2 ^ Suc e < n" by simp
    then show ?thesis using "1.prems" e by (simp add: tree_depth_step)
  next
    case False
    with 1 show ?thesis by (simp add: tree_depth_step)
  qed
qed

lemma tx_root_loop_merkle: "ds \<noteq> [] \<Longrightarrow> tx_root_loop L ds = Some (merkle_root L ds)"
proof (induction "length ds" arbitrary: ds rule: less_induct)
  case less
  show ?case
  proof (cases "1 < length ds")
    case True
    let ?n = "(length ds + 1) div 2"
    have "tx_root_loop L ds = Some (merkle_root L (level L ds))"
      using True less by (simp add: tx_root_loop_step length_level)
    moreover have "length ds \<le> 2 ^ Suc (tree_depth ?n)"
      using le_pow2_tree_depth [of ?n] by simp
    then have "merkle_root L ds = merkle_root L (level L ds)"
      unfolding merkle_root_def tree_depth_step [OF True] length_level
      by (rule subtree_level [OF less.prems])
    ultimately show ?thesis by simp
  next
    case False
    with less.prems obtain d where "ds = [d]" by (cases ds) auto
    then show ?thesis by (simp add: merkle_root_def)
  qed
qed

lemma compute_tx_root_eq: "compute_tx_root L txs = Some (tx_root L txs)"
  by (simp add: compute_tx_root_def tx_root_def tx_root_loop_merkle)

lemma block_new_eq:
  "block_new L height parent time proposer txs = Some
     \<lparr>blk_header = \<lparr>hd_height = height, hd_parent_hash = parent, hd_tx_root = tx_root L txs,
                    hd_timestamp = time, hd_proposer = proposer\<rparr>,
      blk_transactions = txs\<rparr>"
  by (simp add: block_new_def compute_tx_root_eq)


section \<open>What the root commits to\<close>

text \<open>The byte strings hashed for one pass, and for the whole loop.\<close>

fun level_inputs :: "digest list \<Rightarrow> u8 list set" where
  "level_inputs [] = {}"
| "level_inputs [d] = {node_input d d}"
| "level_inputs (a # b # ds) = insert (node_input a b) (level_inputs ds)"

function merkle_inputs :: "('sk, 'vk) libs \<Rightarrow> digest list \<Rightarrow> u8 list set" where
  "merkle_inputs L ds =
     (if length ds \<le> 1 then {} else level_inputs ds \<union> merkle_inputs L (level L ds))"
  by pat_completeness auto
termination
  by (relation "measure (\<lambda>(L, ds). length ds)") (auto simp: length_level)

declare merkle_inputs.simps [simp del]

definition root_inputs :: "('sk, 'vk) libs \<Rightarrow> transaction list \<Rightarrow> u8 list set" where
  "root_inputs L txs = tx_encode L ` set txs \<union> merkle_inputs L (map (tx_hash L) txs)"

lemma node_input_inject [simp]: "node_input a b = node_input c d \<longleftrightarrow> a = c \<and> b = d"
  by (simp add: node_input_def digest.expand append_eq_append_conv) (metis digest.expand)

lemma node_hash_eqD:
  "no_collision L A \<Longrightarrow> node_input a b \<in> A \<Longrightarrow> node_input c d \<in> A \<Longrightarrow>
   node_hash L a b = node_hash L c d \<Longrightarrow> a = c \<and> b = d"
  unfolding node_hash_def by (drule (3) no_collisionD) simp

lemma level_inject:
  assumes "no_collision L A" and "length ds = length es"
    and "level_inputs ds \<subseteq> A" and "level_inputs es \<subseteq> A" and "level L ds = level L es"
  shows "ds = es"
  using assms(2-5)
proof (induction ds arbitrary: es rule: level_inputs.induct)
  case (2 d)
  then obtain e where "es = [e]" by (cases es) auto
  with 2 show ?case using node_hash_eqD [OF assms(1), of d d e e] by simp
next
  case (3 a b ds)
  from "3.prems"(1) obtain c d es' where es: "es = c # d # es'" and len: "length ds = length es'"
    by (metis length_Cons Suc_length_conv)
  from "3.prems" es have "a = c \<and> b = d"
    by (intro node_hash_eqD [OF assms(1)]) auto
  moreover have "ds = es'" using "3.IH" [OF len] "3.prems" es by simp
  ultimately show ?case using es by simp
qed simp

lemma tx_root_loop_inject:
  assumes "no_collision L A" and "length ds = length es"
    and "merkle_inputs L ds \<subseteq> A" and "merkle_inputs L es \<subseteq> A"
    and "ds \<noteq> []" and "tx_root_loop L ds = tx_root_loop L es"
  shows "ds = es"
  using assms(2-6)
proof (induction "length ds" arbitrary: ds es rule: less_induct)
  case less
  show ?case
  proof (cases "1 < length ds")
    case True
    have sub: "level_inputs ds \<subseteq> A" "merkle_inputs L (level L ds) \<subseteq> A"
      "level_inputs es \<subseteq> A" "merkle_inputs L (level L es) \<subseteq> A"
      using True less.prems(1-3) merkle_inputs.simps [of L ds] merkle_inputs.simps [of L es] by auto
    have "tx_root_loop L (level L ds) = tx_root_loop L (level L es)"
      using True less.prems(1,5) by (simp add: tx_root_loop_step)
    then have "level L ds = level L es"
      using True sub less.prems(1,4) by (intro less.hyps) (simp_all add: length_level)
    then show ?thesis
      by (intro level_inject [OF assms(1) less.prems(1)] sub)
  next
    case False
    with less.prems(4) obtain d where "ds = [d]" by (cases ds) auto
    moreover from this less.prems(1) obtain e where "es = [e]" by (cases es) auto
    ultimately show ?thesis using less.prems(5) by simp
  qed
qed

lemma level_append_last: "odd (length ds) \<Longrightarrow> level L (ds @ [last ds]) = level L ds"
  using hash_chunks_pad_odd [of L ds] hash_chunks_pad_odd [of L "ds @ [last ds]"]
  by (simp add: pad_odd_def)


section \<open>Wire formats\<close>

interpretation header_wire: wire_format "\<lambda>_. codec_laws L" "write_header L" "read_header L"
    "\<lambda>_. HEADER_SIZE"
  for L :: "('sk, 'vk) libs"
  by unfold_locales (simp_all add: wire_defs lib_codec_simps HEADER_SIZE_def)

lemma vec_codec_ok:
  assumes "codec_laws L"
  shows "codec_ok (\<lambda>txs. length txs \<le> MAX_TXS_PER_BLOCK) (vec_codec L)"
  using vec_lawsD(1) [OF assms _ tx_codec_ok [OF assms], of MAX_TXS_PER_BLOCK]
  by (simp add: vec_codec_def MAX_TXS_PER_BLOCK_def)

interpretation block_wire: wire_format
    "\<lambda>b. codec_laws L \<and> length (blk_transactions b) \<le> MAX_TXS_PER_BLOCK"
    "write_block L" "read_block L" "block_encode_size L"
  for L :: "('sk, 'vk) libs"
  by unfold_locales
    (auto simp: block_wire_defs header_wire.roundtrip header_wire.size_written [symmetric]
      codec_okD [OF vec_codec_ok])

lemma header_encode_written: "codec_laws L \<Longrightarrow> header_encode L h = write_header L h"
  by (simp only: header_encode_def header_wire.size_written [of L h] codec_lawsD(7))

lemma header_encode_inject:
  "codec_laws L \<Longrightarrow> header_encode L h = header_encode L g \<longleftrightarrow> h = g"
  by (simp add: header_encode_written header_wire.write_inject)

lemma block_encode_written:
  "codec_laws L \<Longrightarrow> length (blk_transactions b) \<le> MAX_TXS_PER_BLOCK \<Longrightarrow>
   block_encode L b = write_block L b"
  by (simp add: block_encode_def block_wire.size_written codec_lawsD(7))

lemma block_decode_encode:
  assumes "codec_laws L" and "length (blk_transactions b) \<le> MAX_TXS_PER_BLOCK"
  shows "block_decode L (block_encode L b) = Inr b"
  using assms block_wire.read_exact [of L b]
  by (simp add: block_decode_def block_encode_written codec_lawsD(8))

lemma block_decode_length:
  assumes "codec_laws L" and "block_decode L bs = Inr b"
  shows "length (blk_transactions b) \<le> MAX_TXS_PER_BLOCK"
  using assms(2) vec_lawsD(2) [OF assms(1)] unfolding block_decode_def codec_lawsD(8) [OF assms(1)]
  by (auto simp: read_block_def read_then_Inr vec_codec_def)

lemma block_hash_eqD:
  assumes "codec_laws L" and "no_collision L A"
    and "header_encode L (blk_header b) \<in> A" and "header_encode L (blk_header c) \<in> A"
    and "block_hash L b = block_hash L c"
  shows "blk_header b = blk_header c"
  using no_collisionD [OF assms(2-4)] assms(5) header_encode_inject [OF assms(1)]
  by (simp add: block_hash_def)


section \<open>Properties\<close>

text \<open>
  C21: the transaction root never panics and is the root of the balanced tree of depth
  \<open>tree_depth n\<close>, the least depth with room for the \<open>n\<close> transactions, in which missing right
  halves copy the left ones; it is the zero digest for an empty block.
\<close>

theorem compute_tx_root_is_tree_root:
  "compute_tx_root L txs =
     Some (if txs = [] then zero_hash
           else subtree L (tree_depth (length txs)) (map (tx_hash L) txs)) \<and>
   tree_depth (length txs) = (LEAST k. length txs \<le> 2 ^ k)"
proof -
  have "tree_depth n \<le> k" if "n \<le> 2 ^ k" for n k
  proof (cases "1 < n")
    case True
    have "2 ^ (tree_depth n - 1) < (2 ^ k :: nat)"
      using less_le_trans [OF tree_depth_minimal [OF True] that] .
    then show ?thesis by simp
  qed simp
  then have "tree_depth (length txs) = (LEAST k. length txs \<le> 2 ^ k)"
    by (intro Least_equality [symmetric] le_pow2_tree_depth)
  then show ?thesis by (simp add: compute_tx_root_eq tx_root_def merkle_root_def)
qed

text \<open>
  On inputs where the hash function does not collide, the root determines the
  transactions of a block, their order and signatures included, among lists of the same
  length.
\<close>

theorem tx_root_binds:
  assumes "codec_laws L" and "no_collision L (root_inputs L txs \<union> root_inputs L us)"
    and "length txs = length us" and "compute_tx_root L txs = compute_tx_root L us"
  shows "txs = us"
proof (cases "txs = []")
  case True
  with assms(3) show ?thesis by simp
next
  case False
  let ?A = "root_inputs L txs \<union> root_inputs L us"
  have "tx_root_loop L (map (tx_hash L) txs) = tx_root_loop L (map (tx_hash L) us)"
    using assms(3,4) False by (auto simp: compute_tx_root_def split: if_splits)
  then have "map (tx_hash L) txs = map (tx_hash L) us"
    using False assms(3)
    by (intro tx_root_loop_inject [OF assms(2)]) (auto simp: root_inputs_def)
  then show ?thesis
    by (intro map_tx_hash_eqD [OF assms(1,2)]) (auto simp: root_inputs_def)
qed

definition stx :: "u64 \<Rightarrow> u64 \<Rightarrow> transaction" where
  "stx amount nonce = tx_signed sample_libs (repeat_byte 1) (repeat_byte 2) amount nonce"

lemma verify_stx [simp]: "verify_signature sample_libs (stx a n) = Inr ()"
  by (simp add: stx_def verify_signature_def tx_signed_def Let_def pure_payload_def)

lemma stx_simps [simp]:
  "tx_from (stx a n) = repeat_byte 1" "tx_to (stx a n) = repeat_byte 2"
  "tx_amount (stx a n) = a" "tx_nonce (stx a n) = n"
  by (simp_all add: stx_def tx_signed_def Let_def)

lemma stx_eq_iff [simp]: "stx a n = stx b k \<longleftrightarrow> a = b \<and> n = k"
  by (metis stx_simps(3,4))

lemma tx_hash_stx: "tx_hash sample_libs (stx a n) = sample_sha256 (sample_tx_bytes 1 2 a n)"
  by (simp add: tx_hash_def stx_def tx_encode_sample)

lemma tx_encode_stx: "tx_encode sample_libs (stx a n) = sample_tx_bytes 1 2 a n"
  by (simp add: stx_def tx_encode_sample)

lemma node_hash_sample: "node_hash sample_libs a b = sample_sha256 (node_input a b)"
  by (simp add: node_hash_def)

definition sample_root_inputs :: "u8 list list" where
  "sample_root_inputs =
     (let e1 = sample_tx_bytes 1 2 10 0; e2 = sample_tx_bytes 1 2 20 1;
          e3 = sample_tx_bytes 1 2 30 2; e2' = sample_tx_bytes 1 2 99 1;
          h1 = sample_sha256 e1; h2 = sample_sha256 e2; h3 = sample_sha256 e3;
          h2' = sample_sha256 e2'; n12 = node_input h1 h2; n12' = node_input h1 h2';
          n33 = node_input h3 h3
      in [e1, e2, e3, e2', n12, n12', n33,
          node_input (sample_sha256 n12) (sample_sha256 n33),
          node_input (sample_sha256 n12') (sample_sha256 n33)])"

lemma sample_root_inputs_distinct: "distinct (map sample_mix sample_root_inputs)"
  by code_simp

lemma sample_root_inputs_cover:
  "root_inputs sample_libs [stx 10 0, stx 20 1, stx 30 2] \<union>
   root_inputs sample_libs [stx 10 0, stx 99 1, stx 30 2] \<subseteq> set sample_root_inputs"
  by (simp add: root_inputs_def merkle_inputs.simps tx_hash_stx node_hash_sample
      sample_root_inputs_def Let_def tx_encode_stx)

theorem tx_root_binds_witness:
  "compute_tx_root sample_libs [stx 10 0, stx 20 1, stx 30 2] \<noteq>
   compute_tx_root sample_libs [stx 10 0, stx 99 1, stx 30 2]"
proof
  assume eq: "compute_tx_root sample_libs [stx 10 0, stx 20 1, stx 30 2] =
    compute_tx_root sample_libs [stx 10 0, stx 99 1, stx 30 2]"
  have "distinct (map (sha256 sample_libs) sample_root_inputs)"
    using sample_root_inputs_distinct by (simp add: distinct_map inj_on_def)
  then have "no_collision sample_libs (set sample_root_inputs)" by (rule no_collision_list)
  from tx_root_binds [OF sample_codec_laws no_collision_mono [OF this sample_root_inputs_cover] _ eq]
  show False by (simp add: stx_def tx_signed_def Let_def)
qed

text \<open>
  The root does not determine the number of transactions: appending a copy of the last
  transaction to an odd number of them, at least three, leaves the root unchanged, and with
  it the hash of a block built from them.
\<close>

theorem tx_root_ignores_duplicated_last:
  assumes "odd (length txs)" and "1 < length txs"
  shows "compute_tx_root L (txs @ [last txs]) = compute_tx_root L txs \<and>
         map_option (block_hash L) (block_new L h p t pr (txs @ [last txs])) =
         map_option (block_hash L) (block_new L h p t pr txs)"
proof -
  let ?ds = "map (tx_hash L) txs"
  have "level L (?ds @ [last ?ds]) = level L ?ds"
    using assms by (intro level_append_last) simp
  then have "tx_root_loop L (?ds @ [last ?ds]) = tx_root_loop L ?ds"
    using assms tx_root_loop_step [of ?ds L] tx_root_loop_step [of "?ds @ [last ?ds]" L]
    by (cases txs) simp_all
  moreover have "last ?ds = tx_hash L (last txs)" using assms by (intro last_map) auto
  ultimately have "compute_tx_root L (txs @ [last txs]) = compute_tx_root L txs"
    using assms by (auto simp: compute_tx_root_def)
  then show ?thesis by (simp add: block_new_def block_hash_def split: option.split)
qed

theorem tx_root_ignores_duplicated_last_witness:
  "compute_tx_root sample_libs [stx 10 0, stx 20 1, stx 30 2, stx 30 2] =
   compute_tx_root sample_libs [stx 10 0, stx 20 1, stx 30 2]"
  using tx_root_ignores_duplicated_last [of "[stx 10 0, stx 20 1, stx 30 2]" sample_libs] by simp

text \<open>
  C33: a header is 112 bytes on the wire and a block survives it; decoding the encoding of a
  block within the limit on transactions gives the block back, nothing decodes to a block
  beyond that limit, and the announced size is the number of bytes.
\<close>

theorem block_codec_roundtrip:
  assumes "codec_laws L"
  shows "length (write_header L h) = 112 \<and>
         read_header L (write_header L h @ rest) = Inr (h, rest) \<and>
         (length (blk_transactions b) \<le> 16384 \<longrightarrow>
            block_decode L (block_encode L b) = Inr b \<and>
            length (block_encode L b) = block_encode_size L b) \<and>
         (block_decode L bs = Inr c \<longrightarrow> length (blk_transactions c) \<le> 16384)"
  using header_wire.size_written [of L h] header_wire.roundtrip [of L h rest]
    block_wire.size_written [of L b] block_encode_written [of L b]
    block_decode_encode [OF assms, of b] block_decode_length [OF assms, of bs c] assms
  by (simp add: HEADER_SIZE_def MAX_TXS_PER_BLOCK_def)

theorem block_codec_roundtrip_witness:
  "block_decode sample_libs (block_encode sample_libs
     \<lparr>blk_header = blk_header genesis, blk_transactions = [stx 10 0, stx 20 1]\<rparr>) =
   Inr \<lparr>blk_header = blk_header genesis, blk_transactions = [stx 10 0, stx 20 1]\<rparr>"
  using block_codec_roundtrip [OF sample_codec_laws, where
      b = "\<lparr>blk_header = blk_header genesis, blk_transactions = [stx 10 0, stx 20 1]\<rparr>"]
  by simp

text \<open>
  On inputs where the hash function does not collide, two blocks made by \<open>Block::new\<close>
  with the same number of transactions have the same hash only if they are the same block:
  height, parent, time, proposer and every transaction.
\<close>

theorem block_hash_binds:
  assumes "codec_laws L"
    and "block_new L h p t pr txs = Some b" and "block_new L h' p' t' pr' us = Some c"
    and "no_collision L ({header_encode L (blk_header b), header_encode L (blk_header c)} \<union>
           root_inputs L txs \<union> root_inputs L us)" (is "no_collision L ?A")
    and "length txs = length us"
  shows "block_hash L b = block_hash L c \<longleftrightarrow> b = c"
proof
  assume eq: "block_hash L b = block_hash L c"
  have header: "blk_header b = blk_header c"
    by (rule block_hash_eqD [OF assms(1,4) _ _ eq]) simp_all
  then have "compute_tx_root L txs = compute_tx_root L us"
    using assms(2,3) by (auto simp: block_new_eq compute_tx_root_eq)
  moreover have "no_collision L (root_inputs L txs \<union> root_inputs L us)"
    using assms(4) by (rule no_collision_mono) auto
  ultimately have "txs = us" using assms(1,5) by (intro tx_root_binds)
  with header assms(2,3) show "b = c" by (auto simp: block_new_eq)
qed simp

lemma tx_root_single: "tx_root L [t] = tx_hash L t"
  by (simp add: tx_root_def merkle_root_def)

lemma root_inputs_single: "root_inputs L [t] = {tx_encode L t}"
  by (simp add: root_inputs_def merkle_inputs.simps)

definition sample_header_bytes :: "digest \<Rightarrow> u8 list" where
  "sample_header_bytes root =
     to_le_bytes 1 @ replicate 32 0 @ as_slice (digest_bytes root) @ to_le_bytes 0 @ replicate 32 0"

lemma sample_block_inputs_distinct:
  "distinct (map sample_mix
     (let e = sample_tx_bytes 1 2 10 0; e' = sample_tx_bytes 1 2 99 0
      in [sample_header_bytes (sample_sha256 e), sample_header_bytes (sample_sha256 e'), e, e']))"
  by code_simp

theorem block_hash_binds_witness:
  "map_option (block_hash sample_libs) (block_new sample_libs 1 zero_hash 0 (repeat_byte 0) [stx 10 0])
   \<noteq> map_option (block_hash sample_libs) (block_new sample_libs 1 zero_hash 0 (repeat_byte 0) [stx 99 0])"
proof -
  let ?new = "\<lambda>txs. block_new sample_libs 1 zero_hash 0 (repeat_byte 0) txs"
  let ?e = "sample_tx_bytes 1 2 10 0" and ?e' = "sample_tx_bytes 1 2 99 0"
  obtain b c where bc: "?new [stx 10 0] = Some b" "?new [stx 99 0] = Some c"
    by (simp add: block_new_eq)
  have "header_encode sample_libs (blk_header b) = sample_header_bytes (sample_sha256 ?e)"
    "header_encode sample_libs (blk_header c) = sample_header_bytes (sample_sha256 ?e')"
    using bc by (auto simp: block_new_eq tx_root_single tx_hash_stx header_encode_written
        sample_codec_laws write_header_def sample_codec_defs sample_header_bytes_def zero_hash_def)
  moreover have "no_collision sample_libs (set [sample_header_bytes (sample_sha256 ?e),
      sample_header_bytes (sample_sha256 ?e'), ?e, ?e'])"
    using sample_block_inputs_distinct
    by (intro no_collision_list) (simp add: Let_def)
  ultimately have "no_collision sample_libs
      ({header_encode sample_libs (blk_header b), header_encode sample_libs (blk_header c)} \<union>
        root_inputs sample_libs [stx 10 0] \<union> root_inputs sample_libs [stx 99 0])"
    by (simp add: root_inputs_single tx_encode_stx insert_commute)
  from block_hash_binds [OF sample_codec_laws bc this] bc show ?thesis
    by (auto simp: block_new_eq stx_def tx_signed_def Let_def)
qed

end
