(* ===== verification/Signed_Blocks.thy ===== *)
theory Signed_Blocks
  imports Blocks
begin

text \<open>
  \<open>crates/types/src/signed_block.rs\<close>: signing a block by its proposer, verifying the
  signature, the wire format and the serde bridge of the signature.
\<close>

section \<open>Operations\<close>

text \<open>The bytes under the signature: the digest of the block.\<close>

definition signing_bytes :: "('sk, 'vk) libs \<Rightarrow> block \<Rightarrow> u8 list" where
  "signing_bytes L b = as_slice (digest_bytes (block_hash L b))"

definition sign_block :: "('sk, 'vk) libs \<Rightarrow> block \<Rightarrow> 'sk \<Rightarrow> types_error + signed_block" where
  "sign_block L b signer =
     (if hd_proposer (blk_header b) \<noteq> lib_public L signer
      then Inl (InvalidBlock ''proposer field does not match signer's public key'')
      else Inr \<lparr>sb_block = b, sb_signature = lib_sign L signer (signing_bytes L b)\<rparr>)"

definition verify_block :: "('sk, 'vk) libs \<Rightarrow> signed_block \<Rightarrow> types_error + unit" where
  "verify_block L sb =
     (case lib_verifying_key L (hd_proposer (blk_header (sb_block sb))) of
        Inl e \<Rightarrow> Inl (InvalidBlock (''bad proposer key: '' @ e))
      | Inr pubkey \<Rightarrow>
          (case lib_verify L pubkey (signing_bytes L (sb_block sb)) (sb_signature sb) of
             Inl e \<Rightarrow> Inl (InvalidBlock (''block signature: '' @ e))
           | Inr _ \<Rightarrow> Inr ()))"

definition sb_proposer :: "signed_block \<Rightarrow> address" where
  "sb_proposer sb = hd_proposer (blk_header (sb_block sb))"

definition write_signed_block :: "('sk, 'vk) libs \<Rightarrow> signed_block \<Rightarrow> u8 list" where
  "write_signed_block L sb =
     write_block L (sb_block sb) @ c_write (lib_arr64 L) (sb_signature sb)"

definition read_signed_block :: "('sk, 'vk) libs \<Rightarrow> signed_block reader" where
  "read_signed_block L buf =
     read_then (read_block L buf) (\<lambda>b buf.
     read_then (c_read (lib_arr64 L) buf) (\<lambda>s buf.
       Inr (\<lparr>sb_block = b, sb_signature = s\<rparr>, buf)))"

definition signed_block_encode_size :: "('sk, 'vk) libs \<Rightarrow> signed_block \<Rightarrow> nat" where
  "signed_block_encode_size L sb =
     block_encode_size L (sb_block sb) + c_size (lib_arr64 L) (sb_signature sb)"

definition sig_serialize :: "signature \<Rightarrow> u8 list" where
  "sig_serialize sig = as_slice sig"

definition sig_deserialize :: "string + u8 list \<Rightarrow> (string, signature) res" where
  "sig_deserialize d =
     (case d of
        Inl e \<Rightarrow> Err e
      | Inr v \<Rightarrow>
          if length v \<noteq> 64 then Err (''expected 64 bytes, got '' @ show_nat (length v))
          else (case copy_from_slice v of None \<Rightarrow> Panic | Some arr \<Rightarrow> Ok arr))"

lemmas signed_block_wire_defs [wire_defs] =
  write_signed_block_def read_signed_block_def signed_block_encode_size_def


section \<open>Lemmas\<close>

interpretation signed_block_wire: wire_format
    "\<lambda>sb. codec_laws L \<and> length (blk_transactions (sb_block sb)) \<le> MAX_TXS_PER_BLOCK"
    "write_signed_block L" "read_signed_block L" "signed_block_encode_size L"
  for L :: "('sk, 'vk) libs"
  by unfold_locales
    (auto simp: signed_block_wire_defs block_wire.roundtrip block_wire.size_written lib_codec_simps)

lemma verify_block_ok_iff:
  "verify_block L sb = Inr () \<longleftrightarrow>
     (\<exists>vk. lib_verifying_key L (sb_proposer sb) = Inr vk \<and>
        lib_verify L vk (signing_bytes L (sb_block sb)) (sb_signature sb) = Inr ())"
  by (auto simp: verify_block_def sb_proposer_def split: sum.splits)

lemma sign_block_Inr:
  "sign_block L b sk = Inr sb \<longleftrightarrow>
     hd_proposer (blk_header b) = lib_public L sk \<and>
     sb = \<lparr>sb_block = b, sb_signature = lib_sign L sk (signing_bytes L b)\<rparr>"
  by (auto simp: sign_block_def)

lemma sign_block_verifies:
  "ed25519_laws L \<Longrightarrow> sign_block L b sk = Inr sb \<Longrightarrow> verify_block L sb = Inr ()"
  by (auto simp: sign_block_Inr verify_block_ok_iff sb_proposer_def ed25519_laws_def)


section \<open>Properties\<close>

text \<open>
  A block is signed exactly when its proposer field is the signer's public key, and then
  the signed block holds the block unchanged and verifies; otherwise signing reports
  \<open>InvalidBlock\<close>.
\<close>

theorem sign_then_verify:
  assumes "ed25519_laws L"
  shows "(case sign_block L b sk of
            Inr sb \<Rightarrow> sb_proposer sb = lib_public L sk \<and> sb_block sb = b \<and> verify_block L sb = Inr ()
          | Inl e \<Rightarrow> hd_proposer (blk_header b) \<noteq> lib_public L sk \<and>
              e = InvalidBlock ''proposer field does not match signer's public key'')"
  using sign_block_verifies [OF assms, of b sk]
  by (auto simp: sign_block_Inr sb_proposer_def sign_block_def split: sum.split)

definition sample_block :: "address \<Rightarrow> block" where
  "sample_block proposer =
     \<lparr>blk_header = (blk_header genesis)\<lparr>hd_proposer := proposer\<rparr>, blk_transactions = []\<rparr>"

theorem sign_then_verify_witness:
  "(case sign_block sample_libs (sample_block (repeat_byte 3)) (repeat_byte 3) of
      Inr sb \<Rightarrow> verify_block sample_libs sb = Inr () | Inl _ \<Rightarrow> False) \<and>
   (case sign_block sample_libs (sample_block (repeat_byte 4)) (repeat_byte 3) of
      Inr _ \<Rightarrow> False | Inl _ \<Rightarrow> True)"
  using sign_then_verify [OF sample_ed25519_laws, of "sample_block (repeat_byte 3)" "repeat_byte 3"]
    sign_then_verify [OF sample_ed25519_laws, of "sample_block (repeat_byte 4)" "repeat_byte 3"]
  by (simp add: sample_block_def sb_proposer_def split: sum.splits) auto

text \<open>
  A signed block whose transactions are within the decoding limit survives the wire,
  whatever follows it, and its announced size is the number of bytes written.
\<close>

theorem signed_block_codec_roundtrip:
  assumes "codec_laws L" and "length (blk_transactions (sb_block sb)) \<le> 16384"
  shows "read_signed_block L (write_signed_block L sb @ rest) = Inr (sb, rest) \<and>
         signed_block_encode_size L sb = length (write_signed_block L sb)"
  using assms by (simp add: signed_block_wire.roundtrip signed_block_wire.size_written
      MAX_TXS_PER_BLOCK_def)

theorem signed_block_codec_roundtrip_witness:
  "read_signed_block sample_libs (write_signed_block sample_libs
      \<lparr>sb_block = sample_block (repeat_byte 3), sb_signature = repeat_byte 5\<rparr> @ [1]) =
   Inr (\<lparr>sb_block = sample_block (repeat_byte 3), sb_signature = repeat_byte 5\<rparr>, [1])"
  using signed_block_codec_roundtrip [OF sample_codec_laws, where rest = "[1]" and
      sb = "\<lparr>sb_block = sample_block (repeat_byte 3), sb_signature = repeat_byte 5\<rparr>"]
  by (simp add: sample_block_def)

text \<open>
  The serde bridges of signatures are mutually inverse on 64-byte strings, refuse every
  other length with a message naming it, keep an absent signature absent and never panic.
\<close>

theorem signature_serde_correct:
  "sig_deserialize (Inr (sig_serialize s)) = Ok s \<and>
   (sig_deserialize (Inr v) = Ok s \<longleftrightarrow> v = sig_serialize s) \<and>
   (sig_deserialize (Inr v) = Err (''expected 64 bytes, got '' @ show_nat (length v))
      \<longleftrightarrow> length v \<noteq> 64) \<and>
   sig_deserialize d \<noteq> Panic \<and>
   option_sig_deserialize (Inr (option_sig_serialize os)) = Ok os \<and>
   (option_sig_deserialize (Inr ov) = Ok os \<longleftrightarrow> ov = option_sig_serialize os) \<and>
   option_sig_deserialize od \<noteq> Panic"
  by (cases os; cases ov)
    (auto simp: sig_deserialize_def sig_serialize_def option_sig_deserialize_def
      option_sig_serialize_def SIGNATURE_LEN_def copy_from_slice_Some copy_from_slice_None
      split: sum.splits option.splits)

end
