(* ===== verification/State_Store.thy ===== *)
theory State_Store
  imports Signed_Blocks
begin

text \<open>
  \<open>crates/storage/src/state.rs\<close>: accounts, transaction and block application.
\<close>

section \<open>Operations\<close>

datatype storage_error =
    BlockNotFound
  | Io string
  | InvalidNonce (expected: u64) (got: u64)
  | InsufficientBalance (have_amount: u64) (need_amount: u64)
  | BalanceOverflow
  | StateInvalidSignature types_error

record account =
  acct_balance :: u64
  acct_nonce :: u64

definition default_account :: account where
  "default_account = \<lparr>acct_balance = 0, acct_nonce = 0\<rparr>"

record state_store =
  accounts :: "(address, account) hash_map"

definition state_new :: state_store where
  "state_new = \<lparr>accounts = fmempty\<rparr>"

definition get_balance :: "state_store \<Rightarrow> address \<Rightarrow> u64" where
  "get_balance s a = (case fmlookup (accounts s) a of None \<Rightarrow> 0 | Some acc \<Rightarrow> acct_balance acc)"

definition get_nonce :: "state_store \<Rightarrow> address \<Rightarrow> u64" where
  "get_nonce s a = (case fmlookup (accounts s) a of None \<Rightarrow> 0 | Some acc \<Rightarrow> acct_nonce acc)"

definition get_account :: "state_store \<Rightarrow> address \<Rightarrow> account" where
  "get_account s a =
     (case fmlookup (accounts s) a of None \<Rightarrow> default_account | Some acc \<Rightarrow> acc)"

text \<open>\<open>self.accounts.entry(a).or_default()\<close>, then a change of the entry.\<close>

definition entry_update ::
  "address \<Rightarrow> (account \<Rightarrow> account) \<Rightarrow> state_store \<Rightarrow> state_store" where
  "entry_update a f s = s\<lparr>accounts := fmupd a (f (get_account s a)) (accounts s)\<rparr>"

text \<open>\<open>entry(a).or_default().balance += amount\<close>.\<close>

definition add_balance ::
  "profile \<Rightarrow> address \<Rightarrow> u64 \<Rightarrow> state_store \<Rightarrow> (storage_error, unit) res \<times> state_store" where
  "add_balance pr a amount s =
     (case add_u64 pr (get_balance s a) amount of
        None \<Rightarrow> (Panic, entry_update a (\<lambda>acc. acc) s)
      | Some b \<Rightarrow> (Ok (), entry_update a (\<lambda>acc. acc\<lparr>acct_balance := b\<rparr>) s))"

definition credit ::
  "profile \<Rightarrow> address \<Rightarrow> u64 \<Rightarrow> state_store \<Rightarrow> (storage_error, unit) res \<times> state_store" where
  "credit pr a amount s = add_balance pr a amount s"

text \<open>\<open>from.balance -= tx.amount; from.nonce += 1;\<close> on the sender's entry.\<close>

definition debit ::
  "profile \<Rightarrow> transaction \<Rightarrow> state_store \<Rightarrow> (storage_error, unit) res \<times> state_store" where
  "debit pr tx s =
     (case sub_u64 pr (get_balance s (tx_from tx)) (tx_amount tx) of
        None \<Rightarrow> (Panic, entry_update (tx_from tx) (\<lambda>acc. acc) s)
      | Some b \<Rightarrow>
          (let s1 = entry_update (tx_from tx) (\<lambda>acc. acc\<lparr>acct_balance := b\<rparr>) s
           in case add_u64 pr (get_nonce s1 (tx_from tx)) 1 of
                None \<Rightarrow> (Panic, s1)
              | Some n \<Rightarrow> (Ok (), entry_update (tx_from tx) (\<lambda>acc. acc\<lparr>acct_nonce := n\<rparr>) s1)))"

definition apply_transaction ::
  "profile \<Rightarrow> ('sk, 'vk) libs \<Rightarrow> transaction \<Rightarrow> state_store \<Rightarrow>
     (storage_error, unit) res \<times> state_store" where
  "apply_transaction pr L tx s =
     (case verify_signature L tx of
        Inl e \<Rightarrow> (Err (StateInvalidSignature e), s)
      | Inr _ \<Rightarrow>
          (let exp_nonce = get_nonce s (tx_from tx); from_balance = get_balance s (tx_from tx)
           in if exp_nonce \<noteq> tx_nonce tx then (Err (InvalidNonce exp_nonce (tx_nonce tx)), s)
              else if from_balance < tx_amount tx
              then (Err (InsufficientBalance from_balance (tx_amount tx)), s)
              else if tx_from tx \<noteq> tx_to tx \<and>
                      checked_add (get_balance s (tx_to tx)) (tx_amount tx) = None
              then (Err BalanceOverflow, s)
              else (case debit pr tx s of
                      (Ok _, s1) \<Rightarrow>
                        if tx_from tx \<noteq> tx_to tx then add_balance pr (tx_to tx) (tx_amount tx) s1
                        else add_balance pr (tx_from tx) (tx_amount tx) s1
                    | (r, s1) \<Rightarrow> (r, s1))))"

text \<open>The loop of \<open>apply_block\<close>: it stops at the first transaction that is not applied.\<close>

fun apply_txs ::
  "profile \<Rightarrow> ('sk, 'vk) libs \<Rightarrow> transaction list \<Rightarrow> state_store \<Rightarrow>
     (storage_error, unit) res \<times> state_store" where
  "apply_txs pr L [] s = (Ok (), s)"
| "apply_txs pr L (tx # txs) s =
     (case apply_transaction pr L tx s of
        (Ok _, s') \<Rightarrow> apply_txs pr L txs s'
      | (r, s') \<Rightarrow> (r, s'))"

definition apply_block ::
  "profile \<Rightarrow> ('sk, 'vk) libs \<Rightarrow> block \<Rightarrow> state_store \<Rightarrow>
     (storage_error, unit) res \<times> state_store" where
  "apply_block pr L b s =
     (let snapshot = accounts s
      in case apply_txs pr L (blk_transactions b) s of
           (Err e, s') \<Rightarrow> (Err e, s'\<lparr>accounts := snapshot\<rparr>)
         | (r, s') \<Rightarrow> (r, s'))"


section \<open>Accounts\<close>

lemma get_balance_account: "get_balance s a = acct_balance (get_account s a)"
  by (simp add: get_balance_def get_account_def default_account_def split: option.split)

lemma get_nonce_account: "get_nonce s a = acct_nonce (get_account s a)"
  by (simp add: get_nonce_def get_account_def default_account_def split: option.split)

lemma get_account_entry_update [simp]:
  "get_account (entry_update a f s) b = (if a = b then f (get_account s a) else get_account s b)"
  by (simp add: get_account_def entry_update_def)

lemma get_balance_entry_update [simp]:
  "get_balance (entry_update a f s) b =
     (if a = b then acct_balance (f (get_account s a)) else get_balance s b)"
  by (simp add: get_balance_account)

lemma get_nonce_entry_update [simp]:
  "get_nonce (entry_update a f s) b =
     (if a = b then acct_nonce (f (get_account s a)) else get_nonce s b)"
  by (simp add: get_nonce_account)

lemma entry_update_twice [simp]:
  "entry_update a g (entry_update a f s) = entry_update a (\<lambda>acc. g (f acc)) s"
  by (simp add: entry_update_def get_account_def)

lemma default_account_update [simp]:
  "default_account\<lparr>acct_balance := b\<rparr> = \<lparr>acct_balance = b, acct_nonce = 0\<rparr>"
  by (simp add: default_account_def)


section \<open>One transaction\<close>

text \<open>
  What the checks of \<open>apply_transaction\<close> amount to, the first reason they give for a refusal,
  and the state after an accepted transaction.
\<close>

definition tx_admissible :: "('sk, 'vk) libs \<Rightarrow> transaction \<Rightarrow> state_store \<Rightarrow> bool" where
  "tx_admissible L tx s \<longleftrightarrow>
     verify_signature L tx = Inr () \<and>
     tx_nonce tx = get_nonce s (tx_from tx) \<and>
     tx_amount tx \<le> get_balance s (tx_from tx) \<and>
     (tx_from tx = tx_to tx \<or> unat (get_balance s (tx_to tx)) + unat (tx_amount tx) < 2 ^ 64)"

definition reject_reason ::
  "('sk, 'vk) libs \<Rightarrow> transaction \<Rightarrow> state_store \<Rightarrow> storage_error" where
  "reject_reason L tx s =
     (if verify_signature L tx \<noteq> Inr () then StateInvalidSignature (projl (verify_signature L tx))
      else if tx_nonce tx \<noteq> get_nonce s (tx_from tx)
      then InvalidNonce (get_nonce s (tx_from tx)) (tx_nonce tx)
      else if get_balance s (tx_from tx) < tx_amount tx
      then InsufficientBalance (get_balance s (tx_from tx)) (tx_amount tx)
      else BalanceOverflow)"

definition transfer :: "transaction \<Rightarrow> state_store \<Rightarrow> state_store" where
  "transfer tx s =
     (let s1 = entry_update (tx_from tx)
        (\<lambda>acc. acc\<lparr>acct_balance := acct_balance acc - tx_amount tx,
                  acct_nonce := acct_nonce acc + 1\<rparr>) s
      in entry_update (tx_to tx) (\<lambda>acc. acc\<lparr>acct_balance := acct_balance acc + tx_amount tx\<rparr>) s1)"

lemma debit_ok:
  assumes "tx_amount tx \<le> get_balance s (tx_from tx)"
    and "\<not> (pr = Debug \<and> get_nonce s (tx_from tx) = u64_max)"
  shows "debit pr tx s = (Ok (), entry_update (tx_from tx)
    (\<lambda>acc. acc\<lparr>acct_balance := acct_balance acc - tx_amount tx, acct_nonce := acct_nonce acc + 1\<rparr>) s)"
  using assms
  by (simp add: debit_def sub_u64_no_underflow add_u64_one Let_def get_nonce_account
      get_balance_account entry_update_def get_account_def)

lemma debit_nonce_overflow:
  assumes "tx_amount tx \<le> get_balance s (tx_from tx)" and "get_nonce s (tx_from tx) = u64_max"
  shows "fst (debit Debug tx s) = Panic"
  using assms by (simp add: debit_def sub_u64_no_underflow add_u64_one Let_def get_nonce_account)

lemma add_balance_ok:
  "unat (get_balance s a) + unat n < 2 ^ 64 \<Longrightarrow>
   add_balance pr a n s = (Ok (), entry_update a (\<lambda>acc. acc\<lparr>acct_balance := acct_balance acc + n\<rparr>) s)"
  by (simp add: add_balance_def add_u64_no_overflow entry_update_def get_balance_account)

lemma unat_refund: "n \<le> (b :: u64) \<Longrightarrow> unat (b - n) + unat n < 2 ^ 64"
  using unat_u64_bound [of b] by (simp add: unat_sub_u64 word_le_nat_alt)

lemma apply_transaction_admissible:
  assumes "tx_admissible L tx s" and "\<not> (pr = Debug \<and> tx_nonce tx = u64_max)"
  shows "apply_transaction pr L tx s = (Ok (), transfer tx s)"
proof -
  let ?s1 = "entry_update (tx_from tx)
    (\<lambda>acc. acc\<lparr>acct_balance := acct_balance acc - tx_amount tx, acct_nonce := acct_nonce acc + 1\<rparr>) s"
  have "debit pr tx s = (Ok (), ?s1)"
    using assms by (intro debit_ok) (auto simp: tx_admissible_def)
  moreover have "add_balance pr (tx_to tx) (tx_amount tx) ?s1 = (Ok (), transfer tx s)"
    unfolding transfer_def Let_def using assms(1)
    by (intro add_balance_ok) (auto simp: tx_admissible_def get_balance_account
        intro: unat_refund [simplified])
  ultimately show ?thesis using assms(1)
    by (cases "tx_from tx = tx_to tx")
      (auto simp: apply_transaction_def tx_admissible_def checked_add_def not_less Let_def)
qed

lemma apply_transaction_panic:
  assumes "tx_admissible L tx s" and "tx_nonce tx = u64_max"
  shows "fst (apply_transaction Debug L tx s) = Panic"
proof -
  have "fst (debit Debug tx s) = Panic"
    using assms by (intro debit_nonce_overflow) (auto simp: tx_admissible_def)
  then show ?thesis using assms(1)
    by (cases "debit Debug tx s")
      (auto simp: apply_transaction_def tx_admissible_def checked_add_def not_less Let_def)
qed

lemma apply_transaction_reject:
  "\<not> tx_admissible L tx s \<Longrightarrow> apply_transaction pr L tx s = (Err (reject_reason L tx s), s)"
  by (auto simp: apply_transaction_def tx_admissible_def reject_reason_def Let_def checked_add_None
      not_le split: sum.split)

lemma apply_transaction_Ok_iff:
  "apply_transaction pr L tx s = (Ok u, s') \<longleftrightarrow>
     tx_admissible L tx s \<and> \<not> (pr = Debug \<and> tx_nonce tx = u64_max) \<and> s' = transfer tx s"
  using apply_transaction_admissible [of L tx s pr] apply_transaction_panic [of L tx s]
    apply_transaction_reject [of L tx s pr]
  by (cases "tx_admissible L tx s"; cases pr; cases "tx_nonce tx = u64_max"; auto)

lemma apply_transaction_Err_iff:
  "apply_transaction pr L tx s = (Err e, s') \<longleftrightarrow>
     \<not> tx_admissible L tx s \<and> e = reject_reason L tx s \<and> s' = s"
  using apply_transaction_admissible [of L tx s pr] apply_transaction_panic [of L tx s]
    apply_transaction_reject [of L tx s pr]
  by (cases "tx_admissible L tx s"; cases pr; cases "tx_nonce tx = u64_max"; auto)

lemma apply_transaction_Panic_iff:
  "fst (apply_transaction pr L tx s) = Panic \<longleftrightarrow> pr = Debug \<and> tx_admissible L tx s \<and> tx_nonce tx = u64_max"
  using apply_transaction_admissible [of L tx s pr] apply_transaction_panic [of L tx s]
    apply_transaction_reject [of L tx s pr]
  by (cases "tx_admissible L tx s"; cases pr; cases "tx_nonce tx = u64_max"; auto)

lemma apply_transaction_correct_result:
  "(\<exists>e. fst (apply_transaction pr L tx s) = Err e) \<longleftrightarrow> \<not> tx_admissible L tx s"
  using apply_transaction_admissible [of L tx s pr] apply_transaction_panic [of L tx s]
    apply_transaction_reject [of L tx s pr]
  by (cases "tx_admissible L tx s"; cases pr; cases "tx_nonce tx = u64_max"; auto)

lemma get_nonce_transfer [simp]:
  "get_nonce (transfer tx s) a = (if a = tx_from tx then get_nonce s a + 1 else get_nonce s a)"
  by (simp add: transfer_def Let_def get_nonce_account)

lemma get_balance_transfer:
  assumes "tx_admissible L tx s"
  shows "unat (get_balance (transfer tx s) a) =
     (if tx_from tx = tx_to tx then unat (get_balance s a)
      else if a = tx_from tx then unat (get_balance s a) - unat (tx_amount tx)
      else if a = tx_to tx then unat (get_balance s a) + unat (tx_amount tx)
      else unat (get_balance s a))"
  using assms
  by (auto simp: transfer_def Let_def tx_admissible_def get_balance_account unat_sub_u64 unat_add_u64)


section \<open>Sequences of transactions\<close>

text \<open>
  The contract between a state that applies one transaction at a time and its clients: block
  application here, block building and the node's replay of finalized blocks elsewhere. An
  error leaves the state alone and stops the sequence.
\<close>

locale tx_ledger =
  fixes step :: "'t \<Rightarrow> 's \<Rightarrow> ('e, unit) res \<times> 's"
    and run :: "'t list \<Rightarrow> 's \<Rightarrow> ('e, unit) res \<times> 's"
  assumes step_err: "step t s = (Err e, s') \<Longrightarrow> s' = s"
    and run_Nil: "run [] s = (Ok (), s)"
    and run_ok: "step t s = (Ok u, s') \<Longrightarrow> run (t # ts) s = run ts s'"
    and run_err: "step t s = (Err e, s') \<Longrightarrow> run (t # ts) s = (Err e, s')"
    and run_panic: "step t s = (Panic, s') \<Longrightarrow> run (t # ts) s = (Panic, s')"
begin

lemma run_Cons_Ok:
  "run (t # ts) s = (Ok u, s') \<longleftrightarrow> (\<exists>s1. step t s = (Ok (), s1) \<and> run ts s1 = (Ok (), s'))"
proof (cases "step t s")
  case (Pair r s1)
  then show ?thesis using run_ok [of t s _ s1] run_err [of t s _ s1] run_panic [of t s s1]
    by (cases r) auto
qed

lemma run_append_Ok:
  "run (xs @ ys) s = (Ok u, s') \<longleftrightarrow> (\<exists>s1. run xs s = (Ok (), s1) \<and> run ys s1 = (Ok (), s'))"
  by (induction xs arbitrary: s) (auto simp: run_Nil run_Cons_Ok)

lemma run_snoc: "run xs s = (Ok u, s1) \<Longrightarrow> step t s1 = (Ok v, s') \<Longrightarrow> run (xs @ [t]) s = (Ok (), s')"
  by (simp add: run_append_Ok run_Cons_Ok run_Nil)

lemma run_invariant:
  assumes "\<And>t s s'. step t s = (Ok (), s') \<Longrightarrow> P s \<Longrightarrow> P s'"
    and "run ts s = (Ok u, s')" and "P s"
  shows "P s'"
  using assms(2,3)
  by (induction ts arbitrary: s) (auto simp: run_Nil run_Cons_Ok dest: assms(1))

text \<open>A run that does not succeed has stopped at one step, after steps that succeeded.\<close>

lemma run_stops:
  "run ts s = (r, s') \<Longrightarrow> r \<noteq> Ok () \<Longrightarrow>
   \<exists>pre t post s1. ts = pre @ t # post \<and> run pre s = (Ok (), s1) \<and> step t s1 = (r, s')"
proof (induction ts arbitrary: s)
  case (Cons t ts)
  obtain q s1 where st: "step t s = (q, s1)" by (cases "step t s")
  show ?case
  proof (cases "q = Ok ()")
    case True
    with st Cons.prems obtain pre t' post s2 where "ts = pre @ t' # post"
      "run pre s1 = (Ok (), s2)" "step t' s2 = (r, s')"
      using Cons.IH [of s1] run_ok by fastforce
    then have "t # ts = (t # pre) @ t' # post \<and> run (t # pre) s = (Ok (), s2) \<and> step t' s2 = (r, s')"
      using st True by (simp add: run_Cons_Ok)
    then show ?thesis by blast
  next
    case False
    then have "step t s = (r, s')"
      using st Cons.prems(1) run_err [of t s _ s1 ts] run_panic [of t s s1 ts] by (cases q) auto
    then have "t # ts = [] @ t # ts \<and> run [] s = (Ok (), s) \<and> step t s = (r, s')"
      by (simp add: run_Nil)
    then show ?thesis by blast
  qed
qed (simp add: run_Nil)

text \<open>An error names the transaction that caused it.\<close>

lemma run_Err:
  assumes "run ts s = (Err e, s')"
  shows "\<exists>pre t post. ts = pre @ t # post \<and> run pre s = (Ok (), s') \<and> step t s' = (Err e, s')"
proof -
  obtain pre t post s1 where "ts = pre @ t # post" "run pre s = (Ok (), s1)" "step t s1 = (Err e, s')"
    using run_stops [OF assms] by blast
  moreover from this(3) have "s' = s1" by (rule step_err)
  ultimately show ?thesis by blast
qed

end

interpretation state_ledger: tx_ledger "apply_transaction pr L" "apply_txs pr L"
  for pr and L :: "('sk, 'vk) libs"
  by unfold_locales (auto simp: apply_transaction_Err_iff apply_transaction_reject)

lemma apply_block_Ok_iff:
  "apply_block pr L b s = (Ok u, s') \<longleftrightarrow> apply_txs pr L (blk_transactions b) s = (Ok (), s')"
  by (cases "apply_txs pr L (blk_transactions b) s"; cases "fst (apply_txs pr L (blk_transactions b) s)")
    (auto simp: apply_block_def Let_def)

lemma apply_block_Err_iff:
  "apply_block pr L b s = (Err e, s') \<longleftrightarrow>
     s' = s \<and> (\<exists>s1. apply_txs pr L (blk_transactions b) s = (Err e, s1))"
  by (cases "apply_txs pr L (blk_transactions b) s"; cases "fst (apply_txs pr L (blk_transactions b) s)")
    (auto simp: apply_block_def Let_def)

lemma apply_block_Panic_iff:
  "apply_block pr L b s = (Panic, s') \<longleftrightarrow> apply_txs pr L (blk_transactions b) s = (Panic, s')"
  by (cases "apply_txs pr L (blk_transactions b) s"; cases "fst (apply_txs pr L (blk_transactions b) s)")
    (auto simp: apply_block_def Let_def)

lemma apply_transaction_Release: "fst (apply_transaction Release L tx s) \<noteq> Panic"
  using apply_transaction_admissible [of L tx s Release] apply_transaction_reject [of L tx s Release]
  by (cases "tx_admissible L tx s") auto

lemma apply_txs_Release: "fst (apply_txs Release L txs s) \<noteq> Panic"
proof (induction txs arbitrary: s)
  case (Cons tx txs)
  then show ?case using apply_transaction_Release [of L tx s]
    by (auto split: prod.split res.split)
qed simp

declare apply_txs.simps [simp del]

text \<open>
  A sequence of transactions of which each is admissible in the state that the transfers before it
  leave.
\<close>

fun all_admissible :: "('sk, 'vk) libs \<Rightarrow> transaction list \<Rightarrow> state_store \<Rightarrow> bool" where
  "all_admissible L [] s \<longleftrightarrow> True"
| "all_admissible L (t # ts) s \<longleftrightarrow> tx_admissible L t s \<and> all_admissible L ts (transfer t s)"

definition nonces_overflow :: "profile \<Rightarrow> transaction list \<Rightarrow> bool" where
  "nonces_overflow pr txs \<longleftrightarrow> pr = Debug \<and> u64_max \<in> tx_nonce ` set txs"

lemma apply_txs_Ok_iff:
  "apply_txs pr L txs s = (Ok u, s') \<longleftrightarrow>
     all_admissible L txs s \<and> \<not> nonces_overflow pr txs \<and> s' = fold transfer txs s"
  by (induction txs arbitrary: s)
    (auto simp: state_ledger.run_Nil state_ledger.run_Cons_Ok apply_transaction_Ok_iff nonces_overflow_def)

lemmas apply_txs_Ok_simps [simp] = state_ledger.run_Nil state_ledger.run_Cons_Ok


section \<open>Supply\<close>

definition total_supply :: "state_store \<Rightarrow> nat" where
  "total_supply s = (\<Sum>a \<in> fset (fmdom (accounts s)). unat (get_balance s a))"

lemma total_supply_superset:
  assumes "finite A" and "fset (fmdom (accounts s)) \<subseteq> A"
  shows "total_supply s = (\<Sum>a \<in> A. unat (get_balance s a))"
  unfolding total_supply_def
proof (rule sum.mono_neutral_left [OF assms])
  show "\<forall>a \<in> A - fset (fmdom (accounts s)). unat (get_balance s a) = 0"
    by (auto simp: get_balance_def split: option.split dest: fmdomI)
qed

lemma sum_move:
  fixes f :: "'a \<Rightarrow> nat"
  assumes "finite A" and "x \<in> A" and "y \<in> A" and "x \<noteq> y" and "m \<le> f x"
  shows "(\<Sum>a \<in> A. if a = x then f a - m else if a = y then f a + m else f a) = sum f A"
proof -
  let ?g = "\<lambda>a. if a = x then f a - m else if a = y then f a + m else f a"
  have split: "sum h A = h x + (h y + sum h (A - {x} - {y}))" for h :: "'a \<Rightarrow> nat"
    using assms by (simp add: sum.remove [of A x] sum.remove [of "A - {x}" y])
  have "sum ?g (A - {x} - {y}) = sum f (A - {x} - {y})" by (rule sum.cong) auto
  then show ?thesis using assms(4,5) by (simp add: split [of ?g] split [of f])
qed

lemma fmdom_entry_update [simp]: "fmdom (accounts (entry_update a f s)) = finsert a (fmdom (accounts s))"
  by (simp add: entry_update_def)

lemma total_supply_transfer:
  assumes "tx_admissible L tx s"
  shows "total_supply (transfer tx s) = total_supply s"
proof -
  let ?A = "insert (tx_from tx) (insert (tx_to tx) (fset (fmdom (accounts s))))"
  have "total_supply (transfer tx s) = (\<Sum>a \<in> ?A. unat (get_balance (transfer tx s) a))"
    by (rule total_supply_superset) (auto simp: transfer_def Let_def)
  also have "\<dots> = (\<Sum>a \<in> ?A. unat (get_balance s a))"
  proof (cases "tx_from tx = tx_to tx")
    case True
    then show ?thesis by (simp add: get_balance_transfer [OF assms])
  next
    case False
    then have "(\<Sum>a \<in> ?A. unat (get_balance (transfer tx s) a)) =
        (\<Sum>a \<in> ?A. if a = tx_from tx then unat (get_balance s a) - unat (tx_amount tx)
           else if a = tx_to tx then unat (get_balance s a) + unat (tx_amount tx)
           else unat (get_balance s a))"
      by (simp only: get_balance_transfer [OF assms] if_False)
    also have "\<dots> = (\<Sum>a \<in> ?A. unat (get_balance s a))"
      using False assms by (intro sum_move) (auto simp: tx_admissible_def word_le_nat_alt)
    finally show ?thesis .
  qed
  also have "\<dots> = total_supply s" by (rule total_supply_superset [symmetric]) auto
  finally show ?thesis .
qed

lemma total_supply_apply_txs:
  "apply_txs pr L txs s = (Ok (), s') \<Longrightarrow> total_supply s' = total_supply s"
  by (erule state_ledger.run_invariant [where P = "\<lambda>t. total_supply t = total_supply s", rotated])
    (auto simp: apply_transaction_Ok_iff total_supply_transfer)


section \<open>Nonces\<close>

definition txs_from :: "address \<Rightarrow> transaction list \<Rightarrow> transaction list" where
  "txs_from a txs = filter (\<lambda>t. tx_from t = a) txs"

lemma txs_from_simps [simp]:
  "txs_from a [] = []"
  "txs_from a (t # ts) = (if tx_from t = a then t # txs_from a ts else txs_from a ts)"
  "txs_from a (xs @ ys) = txs_from a xs @ txs_from a ys"
  by (simp_all add: txs_from_def)

lemma map_upt_shift: "map (\<lambda>i. (n + 1) + of_nat i :: u64) [0..<k] = map (\<lambda>i. n + of_nat i) [1..<Suc k]"
  by (simp add: map_Suc_upt [symmetric] comp_def ac_simps del: upt_Suc)

lemma apply_txs_nonces:
  "apply_txs pr L txs s = (Ok (), s') \<Longrightarrow>
   map tx_nonce (txs_from a txs) = map (\<lambda>i. get_nonce s a + of_nat i) [0..<length (txs_from a txs)] \<and>
   get_nonce s' a = get_nonce s a + of_nat (length (txs_from a txs))"
proof (induction txs arbitrary: s)
  case (Cons t ts)
  then obtain s1 where t: "tx_admissible L t s" "s1 = transfer t s"
    and ts: "apply_txs pr L ts s1 = (Ok (), s')"
    by (auto simp: apply_transaction_Ok_iff)
  note IH = Cons.IH [OF ts]
  show ?case
  proof (cases "tx_from t = a")
    case True
    have "map tx_nonce (txs_from a (t # ts)) =
        get_nonce s a # map (\<lambda>i. get_nonce s a + of_nat i) [1..<Suc (length (txs_from a ts))]"
      using t True IH by (simp add: tx_admissible_def map_upt_shift del: upt_Suc)
    then show ?thesis using t True IH by (simp add: upt_conv_Cons del: upt_Suc)
  next
    case False
    with t IH show ?thesis by simp
  qed
qed simp

lemma of_nat_u64_less:
  assumes "i < j" and "j < 2 ^ 64"
  shows "(of_nat i :: u64) \<noteq> of_nat j"
proof -
  have "unat (of_nat i :: u64) = i" "unat (of_nat j :: u64) = j"
    using assms by (simp_all add: unsigned_of_nat take_bit_nat_eq_self)
  with assms(1) show ?thesis by force
qed

lemma applied_txs_from_distinct:
  assumes "apply_txs pr L txs s = (Ok (), s')" and "length (txs_from a txs) \<le> 2 ^ 64"
  shows "distinct (txs_from a txs)"
proof -
  have "inj_on (\<lambda>i. get_nonce s a + of_nat i :: u64) {0..<length (txs_from a txs)}"
  proof (rule inj_onI)
    fix i j
    assume ij: "i \<in> {0..<length (txs_from a txs)}" "j \<in> {0..<length (txs_from a txs)}"
      and "get_nonce s a + of_nat i = get_nonce s a + (of_nat j :: u64)"
    then have same: "(of_nat i :: u64) = of_nat j" by simp
    have "i < 2 ^ 64" "j < 2 ^ 64" using assms(2) ij by auto
    then show "i = j"
      using same of_nat_u64_less [of i j] of_nat_u64_less [of j i] by (cases i j rule: linorder_cases) auto
  qed
  then have "distinct (map tx_nonce (txs_from a txs))"
    using apply_txs_nonces [OF assms(1), of a] by (simp add: distinct_map)
  then show ?thesis using distinct_map by blast
qed

lemma distinct_by_sender: "(\<And>a. distinct (txs_from a txs)) \<Longrightarrow> distinct txs"
proof (induction txs)
  case (Cons t ts)
  have "t \<notin> set ts" using Cons.prems [of "tx_from t"] by (auto simp: txs_from_def)
  moreover have "distinct (txs_from a ts)" for a
    using Cons.prems [of a] by (auto simp: txs_from_def split: if_splits)
  ultimately show ?case using Cons.IH by simp
qed simp

text \<open>What is applied in one go has no duplicates.\<close>

lemma applied_txs_distinct:
  assumes "apply_txs pr L txs s = (Ok (), s')" and "length txs \<le> 2 ^ 64"
  shows "distinct txs"
proof (rule distinct_by_sender)
  fix a
  have "length (txs_from a txs) \<le> length txs" by (simp add: txs_from_def)
  with assms(2) show "distinct (txs_from a txs)" by (intro applied_txs_from_distinct [OF assms(1)]) simp
qed

lemma applied_nonce_passed:
  assumes "apply_txs pr L txs s = (Ok (), s')" and "t \<in> set txs"
    and "length (txs_from (tx_from t) txs) < 2 ^ 64"
  shows "tx_nonce t \<noteq> get_nonce s' (tx_from t)"
proof -
  let ?k = "length (txs_from (tx_from t) txs)"
  have "tx_nonce t \<in> set (map tx_nonce (txs_from (tx_from t) txs))"
    using assms(2) by (auto simp: txs_from_def)
  then obtain i where "i < ?k" and "tx_nonce t = get_nonce s (tx_from t) + of_nat i"
    using apply_txs_nonces [OF assms(1), of "tx_from t"] by auto
  then show ?thesis
    using of_nat_u64_less [OF _ assms(3)] apply_txs_nonces [OF assms(1), of "tx_from t"] by simp
qed


section \<open>The abstract ledger\<close>

text \<open>
  What a state promises, without machine integers and without storage: a balance and a
  sequence number per address, both unbounded. A transfer needs the sender's next sequence
  number and enough balance.
\<close>

type_synonym ledger = "address \<Rightarrow> nat \<times> nat"

definition ledger_of :: "state_store \<Rightarrow> ledger" where
  "ledger_of s a = (unat (get_balance s a), unat (get_nonce s a))"

definition ledger_transfer :: "transaction \<Rightarrow> ledger \<Rightarrow> ledger option" where
  "ledger_transfer tx l =
     (let amount = unat (tx_amount tx); (b, n) = l (tx_from tx)
      in if unat (tx_nonce tx) \<noteq> n \<or> b < amount then None
         else let l' = l(tx_from tx := (b - amount, Suc n))
              in Some (l'(tx_to tx := (fst (l' (tx_to tx)) + amount, snd (l' (tx_to tx))))))"

fun ledger_run :: "transaction list \<Rightarrow> ledger \<Rightarrow> ledger option" where
  "ledger_run [] l = Some l"
| "ledger_run (t # ts) l = (case ledger_transfer t l of None \<Rightarrow> None | Some l' \<Rightarrow> ledger_run ts l')"

lemma ledger_of_transfer:
  assumes "tx_admissible L tx s" and "tx_nonce tx \<noteq> u64_max"
  shows "ledger_transfer tx (ledger_of s) = Some (ledger_of (transfer tx s))"
proof -
  have nonce: "unat (get_nonce s (tx_from tx) + 1) = Suc (unat (get_nonce s (tx_from tx)))"
    using assms by (intro unat_inc_u64) (simp add: tx_admissible_def)
  have le: "unat (tx_amount tx) \<le> unat (get_balance s (tx_from tx))"
    using assms(1) by (simp add: tx_admissible_def word_le_nat_alt)
  have "ledger_of (transfer tx s) a =
      (let l' = (ledger_of s)(tx_from tx := (unat (get_balance s (tx_from tx)) - unat (tx_amount tx),
                                             Suc (unat (get_nonce s (tx_from tx)))))
       in (l'(tx_to tx := (fst (l' (tx_to tx)) + unat (tx_amount tx), snd (l' (tx_to tx))))) a)" for a
    using le nonce by (auto simp: ledger_of_def get_balance_transfer [OF assms(1)] Let_def)
  moreover have "unat (tx_nonce tx) = unat (get_nonce s (tx_from tx))"
    using assms(1) by (simp add: tx_admissible_def)
  ultimately show ?thesis
    using le unfolding ledger_transfer_def by (simp add: Let_def ledger_of_def fun_eq_iff)
qed

lemma ledger_transfer_None:
  "ledger_transfer tx (ledger_of s) = None \<longleftrightarrow>
     tx_nonce tx \<noteq> get_nonce s (tx_from tx) \<or> get_balance s (tx_from tx) < tx_amount tx"
  by (auto simp: ledger_transfer_def ledger_of_def Let_def word_less_nat_alt word_unat_eq_iff)

lemma ledger_run_apply_txs:
  "apply_txs pr L txs s = (Ok (), s') \<Longrightarrow> \<forall>t \<in> set txs. tx_nonce t \<noteq> u64_max \<Longrightarrow>
   ledger_run txs (ledger_of s) = Some (ledger_of s')"
  by (induction txs arbitrary: s)
    (auto simp: apply_transaction_Ok_iff ledger_of_transfer)


section \<open>Properties\<close>

text \<open>
  C6: applying one transaction. It succeeds exactly when the signature verifies, the nonce is
  the sender's next, the sender can pay and the recipient's balance does not overflow; then
  the amount moves from sender to recipient (nothing moves in a transfer to oneself), the
  sender's nonce goes up by one and no other account changes. An error leaves the state
  untouched and reports the first check that failed. The only panic is the nonce overflow of
  a build with overflow checks.
\<close>

theorem apply_transaction_correct:
  "case apply_transaction pr L tx s of
     (Ok _, s') \<Rightarrow>
       tx_admissible L tx s \<and>
       (\<forall>a. unat (get_balance s' a) =
          (if tx_from tx = tx_to tx then unat (get_balance s a)
           else if a = tx_from tx then unat (get_balance s a) - unat (tx_amount tx)
           else if a = tx_to tx then unat (get_balance s a) + unat (tx_amount tx)
           else unat (get_balance s a))) \<and>
       (\<forall>a. get_nonce s' a = (if a = tx_from tx then get_nonce s a + 1 else get_nonce s a))
   | (Err e, s') \<Rightarrow> s' = s \<and> \<not> tx_admissible L tx s \<and> e = reject_reason L tx s
   | (Panic, _) \<Rightarrow> pr = Debug \<and> tx_admissible L tx s \<and> tx_nonce tx = u64_max"
proof (cases "tx_admissible L tx s")
  case True
  then show ?thesis
    using apply_transaction_admissible [of L tx s pr] apply_transaction_panic [of L tx s]
    by (cases "pr = Debug \<and> tx_nonce tx = u64_max"; cases "apply_transaction pr L tx s")
      (auto simp: get_balance_transfer)
next
  case False
  then show ?thesis by (simp add: apply_transaction_reject)
qed

lemma apply_txs_stops:
  assumes "apply_txs pr L txs s = (r, s')" and "r \<noteq> Ok ()"
  shows "\<exists>pre t post. txs = pre @ t # post \<and> all_admissible L pre s \<and> \<not> nonces_overflow pr pre \<and>
    apply_transaction pr L t (fold transfer pre s) = (r, s')"
  using state_ledger.run_stops [OF assms] unfolding apply_txs_Ok_iff by blast

lemma all_admissible_snoc:
  "all_admissible L (txs @ [t]) s \<longleftrightarrow> all_admissible L txs s \<and> tx_admissible L t (fold transfer txs s)"
  by (induction txs arbitrary: s) auto

text \<open>
  C7: applying a block. It succeeds exactly when every transaction is admissible in the state that the
  transfers before it leave and, in a build with overflow checks, none of them has the greatest
  nonce; then all of the transfers are made, in order. On an error the state is the one before the
  block, whatever was applied before the failure, and the error is that of the first transaction
  that is not admissible. A panic needs a build with overflow checks and is caused by the first
  transaction that has the greatest nonce, after admissible ones, being admissible itself.
\<close>

theorem apply_block_atomic:
  "(fst (apply_block pr L b s) = Ok () \<longleftrightarrow>
      all_admissible L (blk_transactions b) s \<and> \<not> nonces_overflow pr (blk_transactions b)) \<and>
   (case apply_block pr L b s of
      (Ok _, s') \<Rightarrow> s' = fold transfer (blk_transactions b) s
    | (Err e, s') \<Rightarrow>
        s' = s \<and>
        (\<exists>pre t post. blk_transactions b = pre @ t # post \<and>
           all_admissible L pre s \<and> \<not> nonces_overflow pr pre \<and>
           \<not> tx_admissible L t (fold transfer pre s) \<and> e = reject_reason L t (fold transfer pre s))
    | (Panic, _) \<Rightarrow>
        pr = Debug \<and>
        (\<exists>pre t post. blk_transactions b = pre @ t # post \<and>
           all_admissible L (pre @ [t]) s \<and> \<not> nonces_overflow pr pre \<and> tx_nonce t = u64_max))"
proof (cases "apply_block pr L b s")
  case (Pair r s')
  let ?txs = "blk_transactions b"
  have Ok_iff: "r = Ok () \<longleftrightarrow> all_admissible L ?txs s \<and> \<not> nonces_overflow pr ?txs"
    using apply_block_Ok_iff [of pr L b s "()"] Pair unfolding apply_txs_Ok_iff by auto
  show ?thesis
  proof (cases r)
    case (Ok u)
    with Pair have "s' = fold transfer ?txs s" by (simp add: apply_block_Ok_iff apply_txs_Ok_iff)
    with Pair Ok Ok_iff show ?thesis by simp
  next
    case (Err e)
    with Pair obtain s1 where "s' = s" "apply_txs pr L ?txs s = (Err e, s1)" by (auto simp: apply_block_Err_iff)
    moreover from apply_txs_stops [OF this(2)]
    have "\<exists>pre t post. ?txs = pre @ t # post \<and> all_admissible L pre s \<and> \<not> nonces_overflow pr pre \<and>
        \<not> tx_admissible L t (fold transfer pre s) \<and> e = reject_reason L t (fold transfer pre s)"
      unfolding apply_transaction_Err_iff by blast
    ultimately show ?thesis using Pair Err Ok_iff by simp
  next
    case Panic
    with Pair have "apply_txs pr L ?txs s = (Panic, s')" by (simp add: apply_block_Panic_iff)
    from apply_txs_stops [OF this] obtain pre t post where
      pre: "?txs = pre @ t # post" "all_admissible L pre s" "\<not> nonces_overflow pr pre"
      and "apply_transaction pr L t (fold transfer pre s) = (Panic, s')" by blast
    from this(4) have "pr = Debug \<and> tx_admissible L t (fold transfer pre s) \<and> tx_nonce t = u64_max"
      unfolding apply_transaction_Panic_iff [symmetric] by simp
    then have "pr = Debug \<and> (\<exists>pre t post. ?txs = pre @ t # post \<and> all_admissible L (pre @ [t]) s \<and>
        \<not> nonces_overflow pr pre \<and> tx_nonce t = u64_max)"
      using pre unfolding all_admissible_snoc by blast
    then show ?thesis using Pair Panic Ok_iff by auto
  qed
qed

text \<open>
  C26: no block creates or destroys money: whatever the outcome short of a panic, the sum of
  all balances, as an unbounded number, is the same after a block as before. In particular
  nothing is paid to the proposer.
\<close>

theorem apply_block_conserves_supply:
  "case apply_block pr L b s of
     (Ok _, s') \<Rightarrow> total_supply s' = total_supply s
   | (Err _, s') \<Rightarrow> total_supply s' = total_supply s
   | (Panic, _) \<Rightarrow> True"
proof -
  have "total_supply s' = total_supply s" if "apply_block pr L b s = (Ok u, s')" for u s'
    using that by (auto simp: apply_block_Ok_iff dest: total_supply_apply_txs)
  moreover have "s' = s" if "apply_block pr L b s = (Err e, s')" for e s'
    using that by (simp add: apply_block_Err_iff)
  ultimately show ?thesis by (auto split: prod.split res.split)
qed

text \<open>
  In a block that is applied, the transactions of each sender carry consecutive nonces
  from the sender's nonce before the block, in order, and the nonce after the block is the
  next one (modulo \<open>2 ^ 64\<close>).
\<close>

theorem applied_block_nonces_consecutive:
  assumes "apply_block pr L b s = (Ok (), s')"
  shows "map tx_nonce (txs_from a (blk_transactions b)) =
           map (\<lambda>i. get_nonce s a + of_nat i) [0..<length (txs_from a (blk_transactions b))] \<and>
         get_nonce s' a = get_nonce s a + of_nat (length (txs_from a (blk_transactions b)))"
  using assms apply_txs_nonces by (simp add: apply_block_Ok_iff)

text \<open>
  No replay: after any sequence of transactions has been applied, none of them is
  admissible again and applying it reports an error, as long as its sender has issued fewer
  than \<open>2 ^ 64\<close> of them.
\<close>

theorem no_replay:
  assumes "apply_txs pr L txs s = (Ok (), s')" and "t \<in> set txs"
    and "length (txs_from (tx_from t) txs) < 2 ^ 64"
  shows "apply_transaction pr' L t s' = (Err (reject_reason L t s'), s')"
  using applied_nonce_passed [OF assms]
  by (intro apply_transaction_reject) (simp add: tx_admissible_def)

text \<open>
  C27: the state implements the abstract ledger: a block that is applied does to balances and
  sequence numbers what the ledger does, on unbounded numbers, as long as it uses no nonce
  \<open>u64::MAX\<close>.
\<close>

theorem state_refines_ledger:
  assumes "apply_block pr L b s = (Ok (), s')"
    and "\<forall>t \<in> set (blk_transactions b). tx_nonce t \<noteq> u64_max"
  shows "ledger_run (blk_transactions b) (ledger_of s) = Some (ledger_of s')"
  using ledger_run_apply_txs assms by (simp add: apply_block_Ok_iff)

text \<open>
  The state refuses a transaction with a valid signature exactly where the ledger does,
  or where the balance of a recipient other than the sender would not fit 64 bits.
\<close>

theorem state_refuses_as_ledger:
  assumes "verify_signature L tx = Inr ()"
  shows "(\<exists>e. fst (apply_transaction pr L tx s) = Err e) \<longleftrightarrow>
           ledger_transfer tx (ledger_of s) = None \<or>
           tx_from tx \<noteq> tx_to tx \<and> 2 ^ 64 \<le> unat (get_balance s (tx_to tx)) + unat (tx_amount tx)"
proof -
  have "(\<exists>e. fst (apply_transaction pr L tx s) = Err e) \<longleftrightarrow> \<not> tx_admissible L tx s"
    using apply_transaction_correct_result [of pr L tx s] by simp
  with assms show ?thesis
    by (auto simp: ledger_transfer_None tx_admissible_def not_le not_less)
qed


subsection \<open>Witnesses\<close>

definition sample_state :: state_store where
  "sample_state = \<lparr>accounts = fmupd (repeat_byte 1) \<lparr>acct_balance = 1000, acct_nonce = 0\<rparr> fmempty\<rparr>"

definition sample_txs :: "transaction list" where
  "sample_txs = [stx 10 0, stx 20 1]"

lemma sample_state_simps [simp]:
  "get_account sample_state a =
     (if a = repeat_byte 1 then \<lparr>acct_balance = 1000, acct_nonce = 0\<rparr> else default_account)"
  by (simp add: get_account_def sample_state_def)

lemma get_account_transfer:
  "get_account (transfer tx s) a =
     (let acc = get_account s a;
          acc1 = (if a = tx_from tx
                  then acc\<lparr>acct_balance := acct_balance acc - tx_amount tx, acct_nonce := acct_nonce acc + 1\<rparr>
                  else acc)
      in if a = tx_to tx then acc1\<lparr>acct_balance := acct_balance acc1 + tx_amount tx\<rparr> else acc1)"
  by (simp add: transfer_def Let_def)

lemma apply_sample_txs:
  "apply_txs pr sample_libs sample_txs sample_state = (Ok (), transfer (stx 20 1) (transfer (stx 10 0) sample_state))"
  by (simp add: sample_txs_def apply_transaction_Ok_iff tx_admissible_def get_balance_account
      get_nonce_account get_account_transfer Let_def default_account_def)

definition sample_full_block :: block where
  "sample_full_block = \<lparr>blk_header = blk_header genesis, blk_transactions = sample_txs\<rparr>"

lemma apply_sample_block:
  "apply_block pr sample_libs sample_full_block sample_state =
     (Ok (), transfer (stx 20 1) (transfer (stx 10 0) sample_state))"
  by (simp only: apply_block_Ok_iff sample_full_block_def block.select_convs apply_sample_txs)

theorem applied_block_nonces_consecutive_witness:
  "map tx_nonce (txs_from (repeat_byte 1) sample_txs) = [0, 1]"
  using applied_block_nonces_consecutive [OF apply_sample_block [of Debug], of "repeat_byte 1"]
  by (simp add: sample_full_block_def sample_txs_def)

theorem no_replay_witness:
  "fst (apply_transaction Debug sample_libs (stx 10 0) (transfer (stx 20 1) (transfer (stx 10 0) sample_state)))
   = Err (InvalidNonce 2 0)"
  using no_replay [where t = "stx 10 0" and pr' = Debug, OF apply_sample_txs [of Debug]]
  by (simp add: sample_txs_def reject_reason_def get_nonce_account get_account_transfer Let_def)

theorem state_refines_ledger_witness:
  "ledger_run sample_txs (ledger_of sample_state) =
     Some (ledger_of (transfer (stx 20 1) (transfer (stx 10 0) sample_state))) \<and>
   ledger_of (transfer (stx 20 1) (transfer (stx 10 0) sample_state)) (repeat_byte 1) = (970, 2)"
  using state_refines_ledger [OF apply_sample_block [of Debug]]
  by (simp add: sample_full_block_def sample_txs_def ledger_of_def get_balance_account
      get_nonce_account get_account_transfer Let_def)

theorem state_refuses_as_ledger_witness:
  "(\<exists>e. fst (apply_transaction Release sample_libs (stx 1001 0) sample_state) = Err e) \<and>
   ledger_transfer (stx 1001 0) (ledger_of sample_state) = None"
proof -
  have "ledger_transfer (stx 1001 0) (ledger_of sample_state) = None"
    by (simp add: ledger_transfer_None get_balance_account)
  then show ?thesis 
    using state_refuses_as_ledger [where pr = Release and s = sample_state, OF verify_stx [of 1001 0]]
    by simp
qed

end
