(* ===== verification/Block_Store.thy ===== *)
theory Block_Store
  imports Signed_Blocks
begin

text \<open>
  \<open>crates/storage/src/block_store.rs\<close>: finalized blocks by digest, with an index from heights
  to digests.
\<close>

section \<open>Operations\<close>

record block_store =
  bs_blocks :: "(digest, block) hash_map"
  bs_height_index :: "(u64, digest) hash_map"

definition block_store_new :: block_store where
  "block_store_new = \<lparr>bs_blocks = fmempty, bs_height_index = fmempty\<rparr>"

definition block_store_insert :: "('sk, 'vk) libs \<Rightarrow> block \<Rightarrow> block_store \<Rightarrow> block_store" where
  "block_store_insert L b s =
     (let hash = block_hash L b;
          s1 = s\<lparr>bs_height_index := fmupd (hd_height (blk_header b)) hash (bs_height_index s)\<rparr>
      in s1\<lparr>bs_blocks := fmupd hash b (bs_blocks s1)\<rparr>)"

definition get_by_hash :: "block_store \<Rightarrow> digest \<Rightarrow> block option" where
  "get_by_hash s h = fmlookup (bs_blocks s) h"

definition get_by_height :: "block_store \<Rightarrow> u64 \<Rightarrow> block option" where
  "get_by_height s n =
     (case fmlookup (bs_height_index s) n of None \<Rightarrow> None | Some h \<Rightarrow> fmlookup (bs_blocks s) h)"

definition tip :: "block_store \<Rightarrow> block option" where
  "tip s =
     (if fmdom (bs_height_index s) = {||} then None
      else get_by_height s (fMax (fmdom (bs_height_index s))))"


section \<open>Stores keyed by a digest\<close>

text \<open>
  What a client of a store of values under their own keys relies on: an inserted value is
  found under its key, nothing else changes, and every value found has the key it was asked
  for.
\<close>

locale keyed_store =
  fixes key :: "'v \<Rightarrow> 'k"
    and ins :: "'v \<Rightarrow> 's \<Rightarrow> 's"
    and look :: "'s \<Rightarrow> 'k \<Rightarrow> 'v option"
    and invar :: "'s \<Rightarrow> bool"
  assumes look_ins: "look (ins v s) k = (if k = key v then Some v else look s k)"
    and invar_ins: "invar s \<Longrightarrow> invar (ins v s)"
    and look_key: "invar s \<Longrightarrow> look s k = Some v \<Longrightarrow> key v = k"
begin

lemma look_ins_same [simp]: "look (ins v s) (key v) = Some v"
  by (simp add: look_ins)

lemma invar_fold: "invar s \<Longrightarrow> invar (fold ins vs s)"
  by (induction vs arbitrary: s) (simp_all add: invar_ins)

text \<open>A key holds the last value inserted under it.\<close>

lemma look_fold:
  "look (fold ins vs s) k =
     (if filter (\<lambda>v. key v = k) vs = [] then look s k
      else Some (last (filter (\<lambda>v. key v = k) vs)))"
  by (induction vs rule: rev_induct) (auto simp: look_ins)

lemma look_fold_mem: "v \<in> set vs \<Longrightarrow> \<exists>w \<in> set vs. key w = key v \<and> look (fold ins vs s) (key v) = Some w"
proof -
  let ?f = "filter (\<lambda>w. key w = key v) vs"
  assume "v \<in> set vs"
  then have ne: "?f \<noteq> []" by (auto simp: filter_empty_conv)
  then have "last ?f \<in> set ?f" by (rule last_in_set)
  with ne show ?thesis by (auto simp: look_fold)
qed

end

text \<open>Every block is stored under its own digest, and every indexed digest is stored.\<close>

definition bs_keyed :: "('sk, 'vk) libs \<Rightarrow> block_store \<Rightarrow> bool" where
  "bs_keyed L s \<longleftrightarrow>
     (\<forall>h b. fmlookup (bs_blocks s) h = Some b \<longrightarrow> block_hash L b = h) \<and>
     (\<forall>n h. fmlookup (bs_height_index s) n = Some h \<longrightarrow> fmlookup (bs_blocks s) h \<noteq> None)"

lemma block_store_insert_simps [simp]:
  "bs_blocks (block_store_insert L b s) = fmupd (block_hash L b) b (bs_blocks s)"
  "bs_height_index (block_store_insert L b s) =
     fmupd (block_height b) (block_hash L b) (bs_height_index s)"
  by (simp_all add: block_store_insert_def Let_def block_height_def)

lemma bs_keyed_insert:
  assumes "bs_keyed L s"
  shows "bs_keyed L (block_store_insert L b s)"
  unfolding bs_keyed_def
proof (intro conjI allI impI)
  fix h c
  assume "fmlookup (bs_blocks (block_store_insert L b s)) h = Some c"
  then have "h = block_hash L b \<and> c = b \<or> fmlookup (bs_blocks s) h = Some c"
    by (simp split: if_splits)
  then show "block_hash L c = h" using assms unfolding bs_keyed_def by blast
next
  fix n h
  assume "fmlookup (bs_height_index (block_store_insert L b s)) n = Some h"
  then have "h = block_hash L b \<or> fmlookup (bs_height_index s) n = Some h"
    by (auto split: if_splits)
  then show "fmlookup (bs_blocks (block_store_insert L b s)) h \<noteq> None"
    using assms unfolding bs_keyed_def by auto
qed

interpretation store_by_hash: keyed_store "block_hash L" "block_store_insert L" get_by_hash "bs_keyed L"
  for L :: "('sk, 'vk) libs"
proof unfold_locales
  show "bs_keyed L s \<Longrightarrow> get_by_hash s k = Some v \<Longrightarrow> block_hash L v = k" for s k v
    unfolding bs_keyed_def get_by_hash_def by blast
qed (auto simp: get_by_hash_def bs_keyed_insert)

lemma bs_keyed_new [simp]: "bs_keyed L block_store_new"
  by (simp add: bs_keyed_def block_store_new_def)

lemma get_by_hash_new [simp]: "get_by_hash block_store_new h = None"
  by (simp add: get_by_hash_def block_store_new_def)

lemma get_by_height_new [simp]: "get_by_height block_store_new n = None"
  by (simp add: get_by_height_def block_store_new_def)


section \<open>Heights\<close>

text \<open>
  The index is right only if different headers have different digests: two blocks of
  different heights with the same digest would share one slot. \<open>hash_separates\<close> says so of a
  set of blocks; it follows from collision-freeness on their header encodings.
\<close>

definition hash_separates :: "('sk, 'vk) libs \<Rightarrow> block set \<Rightarrow> bool" where
  "hash_separates L B \<longleftrightarrow>
     (\<forall>b \<in> B. \<forall>c \<in> B. block_hash L b = block_hash L c \<longrightarrow> blk_header b = blk_header c)"

lemma hash_separates_no_collision:
  assumes "codec_laws L" and "no_collision L ((\<lambda>b. header_encode L (blk_header b)) ` B)"
  shows "hash_separates L B"
  unfolding hash_separates_def by (blast intro: block_hash_eqD [OF assms])

lemma hash_separatesD:
  "hash_separates L B \<Longrightarrow> b \<in> B \<Longrightarrow> c \<in> B \<Longrightarrow> block_hash L b = block_hash L c \<Longrightarrow>
   block_height b = block_height c"
  unfolding hash_separates_def block_height_def by metis

lemma hash_separates_mono: "hash_separates L B \<Longrightarrow> A \<subseteq> B \<Longrightarrow> hash_separates L A"
  unfolding hash_separates_def by blast

definition bs_indexed :: "block_store \<Rightarrow> bool" where
  "bs_indexed s \<longleftrightarrow>
     (\<forall>n h. fmlookup (bs_height_index s) n = Some h \<longrightarrow>
        (\<exists>b. fmlookup (bs_blocks s) h = Some b \<and> block_height b = n))"

definition stored_blocks :: "block_store \<Rightarrow> block set" where
  "stored_blocks s = fmran' (bs_blocks s)"

lemma bs_indexed_new [simp]: "bs_indexed block_store_new"
  by (simp add: bs_indexed_def block_store_new_def)

lemma stored_blocks_new [simp]: "stored_blocks block_store_new = {}"
  by (auto simp: stored_blocks_def block_store_new_def fmlookup_ran'_iff)

lemma stored_blocks_insert: "stored_blocks (block_store_insert L b s) \<subseteq> insert b (stored_blocks s)"
  by (auto simp: stored_blocks_def fmlookup_ran'_iff split: if_splits)

lemma get_by_height_insert_same [simp]:
  "get_by_height (block_store_insert L b s) (block_height b) = Some b"
  by (simp add: get_by_height_def)

lemma same_slot_same_height:
  assumes "bs_keyed L s" and "hash_separates L (insert b (stored_blocks s))"
    and "fmlookup (bs_blocks s) (block_hash L b) = Some c"
  shows "block_height c = block_height b"
proof -
  have "c \<in> stored_blocks s" using assms(3) by (simp add: stored_blocks_def fmran'I)
  moreover have "block_hash L c = block_hash L b" using assms(1,3) by (simp add: bs_keyed_def)
  ultimately show ?thesis using hash_separatesD [OF assms(2), of c b] by simp
qed

lemma get_by_height_insert:
  assumes "bs_keyed L s" and "bs_indexed s" and "hash_separates L (insert b (stored_blocks s))"
  shows "get_by_height (block_store_insert L b s) n =
     (if n = block_height b then Some b else get_by_height s n)"
  using assms(2) same_slot_same_height [OF assms(1,3)]
  by (auto simp: get_by_height_def bs_indexed_def split: option.splits)

lemma bs_indexed_insert:
  assumes "bs_keyed L s" and "bs_indexed s" and "hash_separates L (insert b (stored_blocks s))"
  shows "bs_indexed (block_store_insert L b s)"
  using assms(2) same_slot_same_height [OF assms(1,3)]
  unfolding bs_indexed_def by simp metis

text \<open>All of it for a store filled from scratch.\<close>

definition store_of :: "('sk, 'vk) libs \<Rightarrow> block list \<Rightarrow> block_store" where
  "store_of L bs = fold (block_store_insert L) bs block_store_new"

lemma store_of_snoc [simp]: "store_of L (bs @ [b]) = block_store_insert L b (store_of L bs)"
  by (simp add: store_of_def)

lemma bs_keyed_store_of: "bs_keyed L (store_of L bs)"
  unfolding store_of_def by (rule store_by_hash.invar_fold) simp

lemma stored_blocks_store_of: "stored_blocks (store_of L bs) \<subseteq> set bs"
proof (induction bs rule: rev_induct)
  case (snoc b bs)
  then show ?case using stored_blocks_insert [of L b "store_of L bs"] by auto
qed (simp add: store_of_def)

lemma store_of_heights:
  assumes "hash_separates L (set bs)"
  shows "bs_indexed (store_of L bs) \<and>
    fset (fmdom (bs_height_index (store_of L bs))) = block_height ` set bs \<and>
    get_by_height (store_of L bs) n =
      (let at_n = filter (\<lambda>b. block_height b = n) bs in if at_n = [] then None else Some (last at_n))"
  using assms
proof (induction bs rule: rev_induct)
  case Nil
  then show ?case by (simp add: store_of_def) (simp add: block_store_new_def)
next
  case (snoc b bs)
  have sep: "hash_separates L (insert b (stored_blocks (store_of L bs)))"
    using snoc.prems stored_blocks_store_of [of L bs] by (auto elim: hash_separates_mono)
  have IH: "bs_indexed (store_of L bs)"
    "fset (fmdom (bs_height_index (store_of L bs))) = block_height ` set bs"
    "get_by_height (store_of L bs) n =
      (let at_n = filter (\<lambda>b. block_height b = n) bs in if at_n = [] then None else Some (last at_n))"
    using snoc.IH hash_separates_mono [OF snoc.prems, of "set bs"] by auto
  show ?case
    using bs_indexed_insert [OF bs_keyed_store_of IH(1) sep]
      get_by_height_insert [OF bs_keyed_store_of IH(1) sep, of n] IH(2,3)
    by (auto simp: Let_def)
qed

lemma fMax_Max:
  assumes "S \<noteq> {||}"
  shows "fMax S = Max (fset (S :: u64 fset))"
  by (rule sym, rule Max_eqI) (use assms in simp_all)

lemma tip_Some:
  assumes "bs_indexed s" and "tip s = Some b"
  shows "block_height b = fMax (fmdom (bs_height_index s)) \<and>
    get_by_height s (block_height b) = Some b"
proof -
  have by_height: "get_by_height s (fMax (fmdom (bs_height_index s))) = Some b"
    using assms(2) by (simp add: tip_def split: if_splits)
  then obtain h where "fmlookup (bs_height_index s) (fMax (fmdom (bs_height_index s))) = Some h"
    and "fmlookup (bs_blocks s) h = Some b"
    by (auto simp: get_by_height_def split: option.splits)
  then have "block_height b = fMax (fmdom (bs_height_index s))"
    using assms(1) unfolding bs_indexed_def by fastforce
  with by_height show ?thesis by simp
qed


section \<open>Properties\<close>

text \<open>
  The store finds an inserted block by its digest and by its height; by digest nothing
  else changes; and the store it is inserted into keeps every block under its own digest.
\<close>

theorem block_store_insert_lookup:
  "get_by_hash (block_store_insert L b s) h = (if h = block_hash L b then Some b else get_by_hash s h) \<and>
   get_by_height (block_store_insert L b s) (block_height b) = Some b"
  by (simp add: store_by_hash.look_ins)

text \<open>
  C34: in a store filled with blocks whose digests separate their headers, a height holds the
  last block inserted at it, every digest the last block inserted under it, and the tip is
  the last block inserted at the greatest height; there is no tip only if nothing was
  inserted.
\<close>

theorem store_of_lookups:
  assumes "hash_separates L (set bs)"
  shows "get_by_height (store_of L bs) n =
           (let at_n = filter (\<lambda>b. block_height b = n) bs
            in if at_n = [] then None else Some (last at_n)) \<and>
         get_by_hash (store_of L bs) h =
           (let at_h = filter (\<lambda>b. block_hash L b = h) bs
            in if at_h = [] then None else Some (last at_h)) \<and>
         tip (store_of L bs) =
           (if bs = [] then None
            else Some (last (filter (\<lambda>b. block_height b = Max (block_height ` set bs)) bs)))"
proof -
  let ?s = "store_of L bs"
  note heights = store_of_heights [OF assms]
  have "get_by_hash ?s h = (let at_h = filter (\<lambda>b. block_hash L b = h) bs
      in if at_h = [] then None else Some (last at_h))"
    by (simp add: store_of_def store_by_hash.look_fold Let_def)
  moreover have "tip ?s = (if bs = [] then None
      else Some (last (filter (\<lambda>b. block_height b = Max (block_height ` set bs)) bs)))"
  proof (cases "bs = []")
    case True
    then show ?thesis by (simp add: store_of_def tip_def block_store_new_def)
  next
    case False
    have dom: "fset (fmdom (bs_height_index ?s)) = block_height ` set bs" using heights by blast
    with False have ne: "fmdom (bs_height_index ?s) \<noteq> {||}" by auto
    with dom have "fMax (fmdom (bs_height_index ?s)) = Max (block_height ` set bs)"
      by (simp add: fMax_Max)
    moreover have "filter (\<lambda>b. block_height b = Max (block_height ` set bs)) bs \<noteq> []"
    proof -
      have "Max (block_height ` set bs) \<in> block_height ` set bs"
        using False by (intro Max_in) auto
      then show ?thesis by (force simp: filter_empty_conv)
    qed
    ultimately show ?thesis using False ne heights by (simp add: tip_def Let_def)
  qed
  ultimately show ?thesis using heights by blast
qed


subsection \<open>Witnesses\<close>

definition sample_at :: "u64 \<Rightarrow> u64 \<Rightarrow> block" where
  "sample_at n t =
     \<lparr>blk_header = (blk_header genesis)\<lparr>hd_height := n, hd_timestamp := t\<rparr>, blk_transactions = []\<rparr>"

definition sample_at_bytes :: "u64 \<Rightarrow> u64 \<Rightarrow> u8 list" where
  "sample_at_bytes n t =
     to_le_bytes n @ replicate 32 0 @ replicate 32 0 @ to_le_bytes t @ replicate 32 0"

lemma header_encode_sample_at: "header_encode sample_libs (blk_header (sample_at n t)) = sample_at_bytes n t"
  by (simp add: header_encode_written sample_codec_laws write_header_def sample_codec_defs
      sample_at_def sample_at_bytes_def genesis_def zero_hash_def)

lemma block_height_sample_at [simp]: "block_height (sample_at n t) = n"
  by (simp add: sample_at_def block_height_def)

lemma block_hash_sample_at: "block_hash sample_libs (sample_at n t) = sample_sha256 (sample_at_bytes n t)"
  by (simp add: block_hash_def header_encode_sample_at)

lemma sample_at_distinct:
  "distinct (map sample_mix [sample_at_bytes 0 0, sample_at_bytes 1 7, sample_at_bytes 1 9])"
  by code_simp

lemma sample_at_differ:
  "sample_mix (sample_at_bytes 0 0) \<noteq> sample_mix (sample_at_bytes 1 7)"
  "sample_mix (sample_at_bytes 1 9) \<noteq> sample_mix (sample_at_bytes 1 7)"
  using sample_at_distinct by (simp_all add: eq_commute)

definition sample_chain :: "block list" where
  "sample_chain = [sample_at 0 0, sample_at 1 7, sample_at 1 9]"

lemma sample_chain_heights: "Max (block_height ` set sample_chain) = 1"
  by (rule Max_eqI) (auto simp: sample_chain_def)

lemma sample_chain_separates: "hash_separates sample_libs (set sample_chain)"
proof (rule hash_separates_no_collision [OF sample_codec_laws])
  have "no_collision sample_libs (set [sample_at_bytes 0 0, sample_at_bytes 1 7, sample_at_bytes 1 9])"
    using sample_at_distinct by (intro no_collision_list) (simp only: sha256_sample list.map
      distinct.simps list.set insert_iff sample_sha256_eq_iff empty_iff simp_thms)
  then show "no_collision sample_libs ((\<lambda>b. header_encode sample_libs (blk_header b)) ` set sample_chain)"
    by (simp add: sample_chain_def header_encode_sample_at)
qed

theorem store_of_lookups_witness:
  "get_by_height (store_of sample_libs sample_chain) 1 = Some (sample_at 1 9) \<and>
   get_by_hash (store_of sample_libs sample_chain) (block_hash sample_libs (sample_at 1 7)) = Some (sample_at 1 7) \<and>
   tip (store_of sample_libs sample_chain) = Some (sample_at 1 9)"
  using store_of_lookups [OF sample_chain_separates, of 1 "block_hash sample_libs (sample_at 1 7)"]
    sample_at_differ unfolding sample_chain_heights
  by (simp add: sample_chain_def block_hash_sample_at Let_def)

end
