(* ===== verification/Mempool.thy ===== *)
theory Mempool
  imports Signed_Blocks
begin

text \<open>
  \<open>crates/mempool/src/pool.rs\<close>: pending transactions by hash, with an index by sender and
  nonce that every mutator keeps in step.
\<close>

section \<open>Operations\<close>

text \<open>\<open>nanochain_mempool::Error\<close>.\<close>

datatype mempool_error =
    Duplicate
  | Full
  | ZeroAmount
  | NonceConflict (conflict_nonce: u64)
  | PoolInvalidSignature types_error

record mempool =
  mp_txs :: "(digest, transaction) hash_map"
  mp_by_sender :: "(address, (u64, digest) btree_map) hash_map"
  mp_capacity :: nat

definition DEFAULT_CAPACITY :: nat where
  "DEFAULT_CAPACITY = 1024"

definition mempool_with_capacity :: "nat \<Rightarrow> mempool" where
  "mempool_with_capacity capacity =
     \<lparr>mp_txs = fmempty, mp_by_sender = fmempty, mp_capacity = capacity\<rparr>"

definition mempool_new :: mempool where
  "mempool_new = mempool_with_capacity DEFAULT_CAPACITY"

text \<open>\<open>by_sender.entry(a).or_default().insert(n, h)\<close>.\<close>

definition index_insert ::
  "address \<Rightarrow> u64 \<Rightarrow> digest \<Rightarrow> (address, (u64, digest) btree_map) hash_map \<Rightarrow>
     (address, (u64, digest) btree_map) hash_map" where
  "index_insert a n h idx =
     fmupd a (fmupd n h (case fmlookup idx a of None \<Rightarrow> fmempty | Some by_nonce \<Rightarrow> by_nonce)) idx"

definition mempool_insert ::
  "('sk, 'vk) libs \<Rightarrow> transaction \<Rightarrow> mempool \<Rightarrow> (mempool_error, digest) res \<times> mempool" where
  "mempool_insert L tx m =
     (case verify_signature L tx of
        Inl e \<Rightarrow> (Err (PoolInvalidSignature e), m)
      | Inr _ \<Rightarrow>
          if tx_amount tx = 0 then (Err ZeroAmount, m)
          else let hash = tx_hash L tx
               in if hm_contains (mp_txs m) hash then (Err Duplicate, m)
                  else if (case fmlookup (mp_by_sender m) (tx_from tx) of
                             None \<Rightarrow> False
                           | Some by_nonce \<Rightarrow> hm_contains by_nonce (tx_nonce tx))
                  then (Err (NonceConflict (tx_nonce tx)), m)
                  else if mp_capacity m \<le> hm_len (mp_txs m) then (Err Full, m)
                  else let m1 = m\<lparr>mp_by_sender :=
                                  index_insert (tx_from tx) (tx_nonce tx) hash (mp_by_sender m)\<rparr>;
                           m2 = m1\<lparr>mp_txs := fmupd hash tx (mp_txs m1)\<rparr>
                       in (Ok hash, m2))"

definition mempool_remove :: "digest \<Rightarrow> mempool \<Rightarrow> transaction option \<times> mempool" where
  "mempool_remove hash m =
     (case fmlookup (mp_txs m) hash of
        None \<Rightarrow> (None, m)
      | Some tx \<Rightarrow>
          (let m1 = m\<lparr>mp_txs := fmdrop hash (mp_txs m)\<rparr>
           in case fmlookup (mp_by_sender m1) (tx_from tx) of
                None \<Rightarrow> (Some tx, m1)
              | Some by_nonce \<Rightarrow>
                  (let by_nonce' = fmdrop (tx_nonce tx) by_nonce
                   in if by_nonce' = fmempty
                      then (Some tx, m1\<lparr>mp_by_sender := fmdrop (tx_from tx) (mp_by_sender m1)\<rparr>)
                      else (Some tx, m1\<lparr>mp_by_sender :=
                                          fmupd (tx_from tx) by_nonce' (mp_by_sender m1)\<rparr>))))"

definition mempool_get :: "mempool \<Rightarrow> digest \<Rightarrow> transaction option" where
  "mempool_get m hash = fmlookup (mp_txs m) hash"

definition mempool_contains :: "mempool \<Rightarrow> digest \<Rightarrow> bool" where
  "mempool_contains m hash \<longleftrightarrow> hm_contains (mp_txs m) hash"

definition pending :: "digest iter_order \<Rightarrow> mempool \<Rightarrow> transaction list" where
  "pending it m = hm_values it (mp_txs m)"

definition pending_from :: "mempool \<Rightarrow> address \<Rightarrow> transaction list" where
  "pending_from m sender =
     (case fmlookup (mp_by_sender m) sender of
        None \<Rightarrow> []
      | Some by_nonce \<Rightarrow> List.map_filter (fmlookup (mp_txs m)) (bt_values by_nonce))"

definition lowest_nonce :: "mempool \<Rightarrow> address \<Rightarrow> u64 option" where
  "lowest_nonce m sender =
     (case fmlookup (mp_by_sender m) sender of
        None \<Rightarrow> None
      | Some by_nonce \<Rightarrow> (case bt_keys by_nonce of [] \<Rightarrow> None | n # _ \<Rightarrow> Some n))"

definition senders :: "address iter_order \<Rightarrow> mempool \<Rightarrow> address list" where
  "senders it m = it (fmdom (mp_by_sender m))"

definition mempool_len :: "mempool \<Rightarrow> nat" where
  "mempool_len m = hm_len (mp_txs m)"

definition mempool_is_empty :: "mempool \<Rightarrow> bool" where
  "mempool_is_empty m \<longleftrightarrow> mp_txs m = fmempty"

definition mempool_capacity :: "mempool \<Rightarrow> nat" where
  "mempool_capacity m = mp_capacity m"

definition mempool_default :: mempool where
  "mempool_default = mempool_new"


section \<open>The invariant\<close>

text \<open>The digest the index holds for a sender and a nonce.\<close>

definition slot :: "mempool \<Rightarrow> address \<Rightarrow> u64 \<Rightarrow> digest option" where
  "slot m a n = (case fmlookup (mp_by_sender m) a of None \<Rightarrow> None | Some bn \<Rightarrow> fmlookup bn n)"

text \<open>
  Both indexes hold the same transactions: each is stored under its own hash and indexed under
  its sender and nonce, the index holds nothing else, and no sender is indexed without a
  transaction. Everything pending has a valid signature and moves something, and the pool is
  within its capacity.
\<close>

definition mempool_ok :: "('sk, 'vk) libs \<Rightarrow> mempool \<Rightarrow> bool" where
  "mempool_ok L m \<longleftrightarrow>
     (\<forall>h t. mempool_get m h = Some t \<longrightarrow>
        tx_hash L t = h \<and> verify_signature L t = Inr () \<and> tx_amount t \<noteq> 0 \<and>
        slot m (tx_from t) (tx_nonce t) = Some h) \<and>
     (\<forall>a n h. slot m a n = Some h \<longrightarrow>
        (\<exists>t. mempool_get m h = Some t \<and> tx_from t = a \<and> tx_nonce t = n)) \<and>
     (\<forall>a. fmlookup (mp_by_sender m) a \<noteq> Some fmempty) \<and>
     mempool_len m \<le> mp_capacity m"

lemma mempool_ok_get:
  assumes "mempool_ok L m" and "mempool_get m h = Some t"
  shows "tx_hash L t = h" and "verify_signature L t = Inr ()" and "tx_amount t \<noteq> 0"
    and "slot m (tx_from t) (tx_nonce t) = Some h"
  using assms unfolding mempool_ok_def by blast+

lemma mempool_ok_slot:
  assumes "mempool_ok L m" and "slot m a n = Some h"
  shows "\<exists>t. mempool_get m h = Some t \<and> tx_from t = a \<and> tx_nonce t = n"
  using assms unfolding mempool_ok_def by blast

lemma mempool_ok_nonempty: "mempool_ok L m \<Longrightarrow> fmlookup (mp_by_sender m) a \<noteq> Some fmempty"
  unfolding mempool_ok_def by blast

lemma mempool_ok_len: "mempool_ok L m \<Longrightarrow> mempool_len m \<le> mp_capacity m"
  unfolding mempool_ok_def by blast

lemma mempool_with_capacity_simps [simp]:
  "mempool_get (mempool_with_capacity c) h = None" "slot (mempool_with_capacity c) a n = None"
  "mp_by_sender (mempool_with_capacity c) = fmempty" "mp_capacity (mempool_with_capacity c) = c"
  "mempool_len (mempool_with_capacity c) = 0"
  by (simp_all add: mempool_with_capacity_def mempool_get_def slot_def mempool_len_def)

lemma mempool_ok_with_capacity [simp]: "mempool_ok L (mempool_with_capacity c)"
  by (simp add: mempool_ok_def)


section \<open>Insertion\<close>

text \<open>The reasons for a refusal, in the order the code checks them.\<close>

definition insert_refused :: "('sk, 'vk) libs \<Rightarrow> transaction \<Rightarrow> mempool \<Rightarrow> mempool_error option" where
  "insert_refused L tx m =
     (if verify_signature L tx \<noteq> Inr () then Some (PoolInvalidSignature (projl (verify_signature L tx)))
      else if tx_amount tx = 0 then Some ZeroAmount
      else if mempool_get m (tx_hash L tx) \<noteq> None then Some Duplicate
      else if slot m (tx_from tx) (tx_nonce tx) \<noteq> None then Some (NonceConflict (tx_nonce tx))
      else if mp_capacity m \<le> mempool_len m then Some Full
      else None)"

definition pool_add :: "('sk, 'vk) libs \<Rightarrow> transaction \<Rightarrow> mempool \<Rightarrow> mempool" where
  "pool_add L tx m =
     m\<lparr>mp_txs := fmupd (tx_hash L tx) tx (mp_txs m),
       mp_by_sender := index_insert (tx_from tx) (tx_nonce tx) (tx_hash L tx) (mp_by_sender m)\<rparr>"

lemma mempool_insert_eq:
  "mempool_insert L tx m =
     (case insert_refused L tx m of
        Some e \<Rightarrow> (Err e, m)
      | None \<Rightarrow> (Ok (tx_hash L tx), pool_add L tx m))"
proof (cases "verify_signature L tx")
  case (Inr u)
  have "(case fmlookup (mp_by_sender m) (tx_from tx) of None \<Rightarrow> False
         | Some by_nonce \<Rightarrow> hm_contains by_nonce (tx_nonce tx)) \<longleftrightarrow>
      slot m (tx_from tx) (tx_nonce tx) \<noteq> None"
    by (simp add: slot_def hm_contains_def split: option.split)
  with Inr show ?thesis
    by (simp add: mempool_insert_def insert_refused_def pool_add_def Let_def mempool_get_def
        mempool_len_def hm_contains_def)
qed (simp add: mempool_insert_def insert_refused_def)

lemma mempool_insert_Ok_iff:
  "mempool_insert L tx m = (Ok h, m') \<longleftrightarrow>
     insert_refused L tx m = None \<and> h = tx_hash L tx \<and> m' = pool_add L tx m"
  by (auto simp: mempool_insert_eq split: option.splits)

lemma mempool_insert_Err_iff:
  "mempool_insert L tx m = (Err e, m') \<longleftrightarrow> insert_refused L tx m = Some e \<and> m' = m"
  by (auto simp: mempool_insert_eq split: option.splits)

lemma mempool_insert_no_panic [simp]: "mempool_insert L tx m \<noteq> (Panic, m')"
  by (auto simp: mempool_insert_eq split: option.splits)

lemma pool_add_simps [simp]:
  "mempool_get (pool_add L tx m) h = (if h = tx_hash L tx then Some tx else mempool_get m h)"
  "slot (pool_add L tx m) a n =
     (if a = tx_from tx \<and> n = tx_nonce tx then Some (tx_hash L tx) else slot m a n)"
  "mp_capacity (pool_add L tx m) = mp_capacity m"
  by (simp_all add: pool_add_def mempool_get_def slot_def index_insert_def split: option.split)

lemma pool_add_by_sender:
  "fmlookup (mp_by_sender (pool_add L tx m)) a =
     (if a = tx_from tx
      then Some (fmupd (tx_nonce tx) (tx_hash L tx)
        (case fmlookup (mp_by_sender m) a of None \<Rightarrow> fmempty | Some bn \<Rightarrow> bn))
      else fmlookup (mp_by_sender m) a)"
  by (simp add: pool_add_def index_insert_def)

lemma fmupd_not_empty [simp]: "fmupd k v m \<noteq> fmempty"
  by (metis fmempty_lookup fmupd_lookup option.distinct(1))

lemma pool_add_len:
  "mempool_get m (tx_hash L tx) = None \<Longrightarrow> mempool_len (pool_add L tx m) = Suc (mempool_len m)"
  by (simp add: mempool_len_def pool_add_def mempool_get_def hm_len_fresh)

lemma mempool_ok_add:
  assumes "mempool_ok L m" and "insert_refused L tx m = None"
  shows "mempool_ok L (pool_add L tx m)"
proof -
  note ok = assms(1)
  have new: "verify_signature L tx = Inr ()" "tx_amount tx \<noteq> 0"
    "mempool_get m (tx_hash L tx) = None" "slot m (tx_from tx) (tx_nonce tx) = None"
    "mempool_len m < mp_capacity m"
    using assms(2) by (auto simp: insert_refused_def split: if_splits)
  have "tx_hash L t = h \<and> verify_signature L t = Inr () \<and> tx_amount t \<noteq> 0 \<and>
      slot (pool_add L tx m) (tx_from t) (tx_nonce t) = Some h"
    if "mempool_get (pool_add L tx m) h = Some t" for h t
    using that new mempool_ok_get [OF ok, of h t] by (auto split: if_splits)
  moreover have "\<exists>t. mempool_get (pool_add L tx m) h = Some t \<and> tx_from t = a \<and> tx_nonce t = n"
    if "slot (pool_add L tx m) a n = Some h" for a n h
    using that new(3) mempool_ok_slot [OF ok, of a n h] by (auto split: if_splits)
  moreover have "fmlookup (mp_by_sender (pool_add L tx m)) a \<noteq> Some fmempty" for a
    using mempool_ok_nonempty [OF ok] by (simp add: pool_add_by_sender)
  moreover have "mempool_len (pool_add L tx m) \<le> mp_capacity (pool_add L tx m)"
    using new(3,5) by (simp add: pool_add_len)
  ultimately show ?thesis unfolding mempool_ok_def by blast
qed

lemma mempool_ok_insert: "mempool_ok L m \<Longrightarrow> mempool_ok L (snd (mempool_insert L tx m))"
  by (auto simp: mempool_insert_eq mempool_ok_add split: option.split)


section \<open>Removal\<close>

definition pool_drop :: "digest \<Rightarrow> transaction \<Rightarrow> mempool \<Rightarrow> mempool" where
  "pool_drop h t m = snd (mempool_remove h m)"

lemma mempool_remove_absent [simp]: "mempool_get m h = None \<Longrightarrow> mempool_remove h m = (None, m)"
  by (simp add: mempool_remove_def mempool_get_def)

lemma mempool_remove_result [simp]: "fst (mempool_remove h m) = mempool_get m h"
  by (simp add: mempool_remove_def mempool_get_def Let_def split: option.split)

lemma mempool_get_remove [simp]:
  "mempool_get (snd (mempool_remove h m)) h' = (if h' = h then None else mempool_get m h')"
  by (auto simp: mempool_remove_def mempool_get_def Let_def split: option.split)

lemma mempool_capacity_remove [simp]: "mp_capacity (snd (mempool_remove h m)) = mp_capacity m"
  by (simp add: mempool_remove_def Let_def split: option.split)

lemma mempool_len_remove:
  "mempool_get m h = Some t \<Longrightarrow> Suc (mempool_len (snd (mempool_remove h m))) = mempool_len m"
  by (simp add: mempool_remove_def mempool_len_def mempool_get_def Let_def hm_len_drop
      split: option.split)

lemma mempool_len_remove_le: "mempool_len (snd (mempool_remove h m)) \<le> mempool_len m"
  by (simp add: mempool_remove_def mempool_len_def Let_def hm_len_drop_le split: option.split)

lemma slot_remove:
  assumes "mempool_get m h = Some t"
  shows "slot (snd (mempool_remove h m)) a n =
     (if a = tx_from t \<and> n = tx_nonce t then None else slot m a n)"
proof (cases "fmlookup (mp_by_sender m) (tx_from t)")
  case None
  with assms show ?thesis by (auto simp: mempool_remove_def mempool_get_def slot_def)
next
  case (Some bn)
  have "fmdrop (tx_nonce t) bn = fmempty \<Longrightarrow> n \<noteq> tx_nonce t \<Longrightarrow> fmlookup bn n = None"
    by (metis fmempty_lookup fmlookup_drop)
  with Some assms show ?thesis
    by (auto simp: mempool_remove_def mempool_get_def slot_def Let_def)
qed

lemma mempool_remove_by_sender:
  assumes "mempool_get m h = Some t" and "\<And>b. fmlookup (mp_by_sender m) b \<noteq> Some fmempty"
  shows "fmlookup (mp_by_sender (snd (mempool_remove h m))) a \<noteq> Some fmempty"
  using assms by (auto simp: mempool_remove_def mempool_get_def Let_def split: option.split)

lemma mempool_ok_remove:
  assumes ok: "mempool_ok L m"
  shows "mempool_ok L (snd (mempool_remove h m))"
proof (cases "mempool_get m h")
  case (Some t)
  let ?m = "snd (mempool_remove h m)"
  note get = mempool_ok_get [OF ok]
  have "tx_hash L u = k \<and> verify_signature L u = Inr () \<and> tx_amount u \<noteq> 0 \<and>
      slot ?m (tx_from u) (tx_nonce u) = Some k"
    if "mempool_get ?m k = Some u" for k u
    using that get [of k u] get(4) [OF Some] by (auto simp: slot_remove [OF Some] split: if_splits)
  moreover have "\<exists>u. mempool_get ?m k = Some u \<and> tx_from u = a \<and> tx_nonce u = n"
    if "slot ?m a n = Some k" for a n k
    using that mempool_ok_slot [OF ok, of a n k] Some
    by (auto simp: slot_remove [OF Some] split: if_splits)
  moreover have "fmlookup (mp_by_sender ?m) a \<noteq> Some fmempty" for a
    by (rule mempool_remove_by_sender [OF Some mempool_ok_nonempty [OF ok]])
  moreover have "mempool_len ?m \<le> mp_capacity ?m"
    using mempool_len_remove_le [of h m] mempool_ok_len [OF ok] by simp
  ultimately show ?thesis unfolding mempool_ok_def by blast
qed (use ok in simp)


section \<open>Pools of transactions\<close>

text \<open>
  What the application relies on: a pool is a partial map from keys to transactions, insertion
  adds one entry or fails without effect, removal takes one away and returns it.
\<close>

locale tx_pool =
  fixes key :: "'t \<Rightarrow> 'k"
    and ins :: "'t \<Rightarrow> 's \<Rightarrow> ('e, 'k) res \<times> 's"
    and rem :: "'k \<Rightarrow> 's \<Rightarrow> 't option \<times> 's"
    and find :: "'s \<Rightarrow> 'k \<Rightarrow> 't option"
    and invar :: "'s \<Rightarrow> bool"
  assumes ins_Ok: "ins t s = (Ok k, s') \<Longrightarrow>
      k = key t \<and> find s k = None \<and> find s' = (find s)(k \<mapsto> t)"
    and ins_fails: "ins t s = (r, s') \<Longrightarrow> \<not> is_ok r \<Longrightarrow> s' = s"
    and rem_result: "fst (rem k s) = find s k"
    and find_rem: "find (snd (rem k s)) = (find s)(k := None)"
    and invar_ins: "invar s \<Longrightarrow> invar (snd (ins t s))"
    and invar_rem: "invar s \<Longrightarrow> invar (snd (rem k s))"
begin

definition rem_all :: "'k list \<Rightarrow> 's \<Rightarrow> 's" where
  "rem_all ks s = fold (\<lambda>k s. snd (rem k s)) ks s"

lemma rem_all_simps [simp]: "rem_all [] s = s" "rem_all (k # ks) s = rem_all ks (snd (rem k s))"
  by (simp_all add: rem_all_def)

lemma find_rem_all: "find (rem_all ks s) = (find s) |` (- set ks)"
  by (induction ks arbitrary: s) (auto simp: find_rem restrict_map_def fun_eq_iff)

lemma invar_rem_all: "invar s \<Longrightarrow> invar (rem_all ks s)"
  by (induction ks arbitrary: s) (simp_all add: invar_rem)

lemma invar_insert_all: "invar s \<Longrightarrow> invar (fold (\<lambda>t s. snd (ins t s)) ts s)"
  by (induction ts arbitrary: s) (simp_all add: invar_ins)

text \<open>An inserted transaction can be taken out again, which leaves the pool as it was.\<close>

lemma ins_rem:
  assumes "ins t s = (Ok k, s')"
  shows "fst (rem k s') = Some t \<and> find (snd (rem k s')) = find s"
  using ins_Ok [OF assms] by (auto simp: rem_result find_rem)

end

interpretation pool: tx_pool "tx_hash L" "mempool_insert L" mempool_remove mempool_get "mempool_ok L"
  for L :: "('sk, 'vk) libs"
proof unfold_locales
  show "mempool_insert L t s = (Ok k, s') \<Longrightarrow>
      k = tx_hash L t \<and> mempool_get s k = None \<and> mempool_get s' = (mempool_get s)(k \<mapsto> t)" for t s k s'
    by (auto simp: mempool_insert_Ok_iff insert_refused_def fun_eq_iff split: if_splits)
  show "mempool_insert L t s = (r, s') \<Longrightarrow> \<not> is_ok r \<Longrightarrow> s' = s" for t s r s'
    by (auto simp: mempool_insert_eq split: option.splits)
qed (auto simp: fun_eq_iff mempool_ok_insert mempool_ok_remove)


section \<open>The ordered views\<close>

lemma slot_sender: "fmlookup (mp_by_sender m) a = Some bn \<Longrightarrow> slot m a n = fmlookup bn n"
  by (simp add: slot_def)

lemma map_filter_all_Some:
  "(\<And>x. x \<in> set xs \<Longrightarrow> f x = Some (g x)) \<Longrightarrow> List.map_filter f xs = map g xs"
  by (induction xs) (simp_all add: List.map_filter_simps)

lemma bt_values_eq: "bt_values bn = map (\<lambda>n. the (fmlookup bn n)) (bt_keys bn)"
  unfolding bt_values_def by (rule map_filter_all_Some) (auto simp: fmlookup_dom_iff)

text \<open>The transactions of a sender, one for each nonce of its index, in the order of nonces.\<close>

lemma pending_from_eq:
  assumes ok: "mempool_ok L m" and bn: "fmlookup (mp_by_sender m) a = Some bn"
  shows "\<exists>f. pending_from m a = map f (bt_keys bn) \<and>
     (\<forall>n \<in> fset (fmdom bn). tx_from (f n) = a \<and> tx_nonce (f n) = n \<and>
        mempool_get m (tx_hash L (f n)) = Some (f n))"
proof -
  let ?f = "\<lambda>n. the (mempool_get m (the (fmlookup bn n)))"
  have at: "\<exists>h t. fmlookup bn n = Some h \<and> mempool_get m h = Some t \<and> tx_from t = a \<and>
      tx_nonce t = n \<and> tx_hash L t = h" if dom: "n \<in> fset (fmdom bn)" for n
  proof -
    obtain h where h: "fmlookup bn n = Some h" using dom by (auto simp: fmlookup_dom_iff)
    then have "slot m a n = Some h" using bn by (simp add: slot_sender)
    then show ?thesis using mempool_ok_slot [OF ok] mempool_ok_get(1) [OF ok] h by blast
  qed
  have "pending_from m a = List.map_filter (fmlookup (mp_txs m)) (map (\<lambda>n. the (fmlookup bn n)) (bt_keys bn))"
    using bn at bt_values_eq [of bn] by (simp add: pending_from_def)
  also have "\<dots> = map (\<lambda>h. the (mempool_get m h)) (map (\<lambda>n. the (fmlookup bn n)) (bt_keys bn))"
    using at by (intro map_filter_all_Some) (fastforce simp: mempool_get_def)
  finally have "pending_from m a = map ?f (bt_keys bn)" by simp
  then show ?thesis using at by (intro exI [of _ ?f]) fastforce
qed

lemma pending_from_mem:
  assumes ok: "mempool_ok L m"
  shows "t \<in> set (pending_from m a) \<longleftrightarrow> mempool_get m (tx_hash L t) = Some t \<and> tx_from t = a"
proof (cases "fmlookup (mp_by_sender m) a")
  case None
  then have "slot m a n = None" for n by (simp add: slot_def)
  moreover have "pending_from m a = []" using None by (simp add: pending_from_def)
  ultimately show ?thesis using mempool_ok_get(4) [OF ok, of "tx_hash L t" t] by auto
next
  case (Some bn)
  obtain f where f: "pending_from m a = map f (bt_keys bn)"
    "\<And>n. n \<in> fset (fmdom bn) \<Longrightarrow> tx_from (f n) = a \<and> tx_nonce (f n) = n \<and>
        mempool_get m (tx_hash L (f n)) = Some (f n)"
    using pending_from_eq [OF ok Some] by blast
  show ?thesis
  proof
    assume "mempool_get m (tx_hash L t) = Some t \<and> tx_from t = a"
    then have get: "mempool_get m (tx_hash L t) = Some t" and from_a: "tx_from t = a" by auto
    have at_t: "fmlookup bn (tx_nonce t) = Some (tx_hash L t)"
      using mempool_ok_get(4) [OF ok get] Some from_a by (simp add: slot_sender)
    then have dom: "tx_nonce t \<in> fset (fmdom bn)" by (simp add: fmdomI)
    have "slot m a (tx_nonce t) = Some (tx_hash L (f (tx_nonce t)))"
      using mempool_ok_get(4) [OF ok conjunct2 [OF conjunct2 [OF f(2) [OF dom]]]] f(2) [OF dom]
      by simp
    then have "mempool_get m (tx_hash L t) = Some (f (tx_nonce t))"
      using at_t f(2) [OF dom] Some by (simp add: slot_sender)
    then have "f (tx_nonce t) = t" using get by simp
    then show "t \<in> set (pending_from m a)" using dom f(1) by (metis bt_keys_set image_eqI set_map)
  qed (use f in auto)
qed

lemma pending_from_sorted_nonces:
  assumes ok: "mempool_ok L m"
  shows "sorted_wrt (<) (map tx_nonce (pending_from m a))"
proof (cases "fmlookup (mp_by_sender m) a")
  case (Some bn)
  obtain f where f: "pending_from m a = map f (bt_keys bn)"
    "\<And>n. n \<in> fset (fmdom bn) \<Longrightarrow> tx_nonce (f n) = n"
    using pending_from_eq [OF ok Some] by blast
  then have "map tx_nonce (pending_from m a) = bt_keys bn" by (auto intro: map_idI)
  then show ?thesis using bt_keys_sorted [of bn] by simp
qed (simp add: pending_from_def)

text \<open>The pending transactions, and the pool as a map from a sender and a nonce.\<close>

definition pool_txs :: "mempool \<Rightarrow> transaction set" where
  "pool_txs m = {t. \<exists>h. mempool_get m h = Some t}"

definition pool_view :: "mempool \<Rightarrow> address \<times> u64 \<Rightarrow> transaction option" where
  "pool_view m = (\<lambda>(a, n). case slot m a n of None \<Rightarrow> None | Some h \<Rightarrow> mempool_get m h)"

lemma pool_txs_iff: "mempool_ok L m \<Longrightarrow> t \<in> pool_txs m \<longleftrightarrow> mempool_get m (tx_hash L t) = Some t"
  using mempool_ok_get(1) by (fastforce simp: pool_txs_def)

lemma pool_txs_same_hash:
  "mempool_ok L m \<Longrightarrow> t \<in> pool_txs m \<Longrightarrow> u \<in> pool_txs m \<Longrightarrow> tx_hash L t = tx_hash L u \<Longrightarrow> t = u"
  by (simp add: pool_txs_iff)

lemma slot_Some_iff:
  assumes ok: "mempool_ok L m"
  shows "slot m a n = Some h \<longleftrightarrow>
    (\<exists>t \<in> pool_txs m. tx_from t = a \<and> tx_nonce t = n \<and> tx_hash L t = h)"
proof
  assume "slot m a n = Some h"
  then show "\<exists>t \<in> pool_txs m. tx_from t = a \<and> tx_nonce t = n \<and> tx_hash L t = h"
    using mempool_ok_slot [OF ok, of a n h] mempool_ok_get(1) [OF ok, of h]
    unfolding pool_txs_def by blast
next
  assume "\<exists>t \<in> pool_txs m. tx_from t = a \<and> tx_nonce t = n \<and> tx_hash L t = h"
  then obtain t where "mempool_get m (tx_hash L t) = Some t" "tx_from t = a" "tx_nonce t = n"
    "tx_hash L t = h"
    unfolding pool_txs_iff [OF ok] Bex_def by blast
  then show "slot m a n = Some h" using mempool_ok_get(4) [OF ok] by blast
qed

lemma slot_None_iff:
  assumes ok: "mempool_ok L m"
  shows "slot m a n = None \<longleftrightarrow> (\<forall>t \<in> pool_txs m. \<not> (tx_from t = a \<and> tx_nonce t = n))"
  using slot_Some_iff [OF ok, of a n] by (cases "slot m a n") auto

lemma pool_get_None_iff:
  assumes ok: "mempool_ok L m"
  shows "mempool_get m h = None \<longleftrightarrow> (\<forall>t \<in> pool_txs m. tx_hash L t \<noteq> h)"
  using mempool_ok_get(1) [OF ok] by (cases "mempool_get m h") (auto simp: pool_txs_def)

lemma pool_txs_add: 
  "mempool_get m (tx_hash L tx) = None \<Longrightarrow> pool_txs (pool_add L tx m) = insert tx (pool_txs m)"
  unfolding pool_txs_def by (auto split: if_splits) (metis option.distinct(1))

lemma pool_txs_remove:
  assumes ok: "mempool_ok L m"
  shows "pool_txs (snd (mempool_remove h m)) = {t \<in> pool_txs m. tx_hash L t \<noteq> h}"
  using mempool_ok_get(1) [OF ok] by (auto simp: pool_txs_def split: if_splits)

lemma pool_txs_verified: "mempool_ok L m \<Longrightarrow> t \<in> pool_txs m \<Longrightarrow> verify_signature L t = Inr ()"
  unfolding pool_txs_def using mempool_ok_get(2) by blast

lemma pending_from_set:
  "mempool_ok L m \<Longrightarrow> set (pending_from m a) = {t \<in> pool_txs m. tx_from t = a}"
  by (auto simp: pending_from_mem pool_txs_iff)

lemma set_senders:
  assumes ok: "mempool_ok L m" and "key_order it"
  shows "set (senders it m) = tx_from ` pool_txs m"
proof -
  have "fmlookup (mp_by_sender m) a \<noteq> None \<longleftrightarrow> (\<exists>n. slot m a n \<noteq> None)" for a
    using mempool_ok_nonempty [OF ok, of a]
    by (cases "fmlookup (mp_by_sender m) a") (auto simp: slot_def fmap_not_empty_iff)
  moreover have "(\<exists>n. slot m a n \<noteq> None) \<longleftrightarrow> a \<in> tx_from ` pool_txs m" for a
    by (auto simp: slot_None_iff [OF ok])
  ultimately show ?thesis
    using assms(2) by (auto simp: senders_def key_order_def fmlookup_dom_iff)
qed

lemma lowest_nonce_eq:
  assumes "mempool_ok L m"
  shows "lowest_nonce m a =
    (if {t \<in> pool_txs m. tx_from t = a} = {} then None
     else Some (Min (tx_nonce ` {t \<in> pool_txs m. tx_from t = a})))"
proof (cases "fmlookup (mp_by_sender m) a")
  case None
  have "lowest_nonce m a = None" using None by (simp add: lowest_nonce_def)
  moreover have "pending_from m a = []" using None by (simp add: pending_from_def)
  ultimately show ?thesis using pending_from_set [OF assms, of a] by auto
next
  case (Some bn)
  obtain f where f: "pending_from m a = map f (bt_keys bn)"
    "\<And>n. n \<in> fset (fmdom bn) \<Longrightarrow> tx_nonce (f n) = n"
    using pending_from_eq [OF assms Some] by blast
  have keys: "map tx_nonce (pending_from m a) = bt_keys bn" unfolding f(1) using f(2) by (auto intro: map_idI)
  have "bt_keys bn \<noteq> []"
    using mempool_ok_nonempty [OF assms, of a] Some fmap_not_empty_iff [of bn]
    by (metis bt_keys_set empty_iff fmlookup_dom_member list.set(1))
  then obtain n ns where n: "bt_keys bn = n # ns" by (cases "bt_keys bn") auto
  then have "Min (set (bt_keys bn)) = n"
    using bt_keys_sorted [of bn] by (intro Min_eqI) auto
  then have "Min (tx_nonce ` set (pending_from m a)) = n" unfolding keys [symmetric] by simp
  moreover have "pending_from m a \<noteq> []" using keys n by auto
  ultimately show ?thesis
    using Some n pending_from_sorted_nonces [OF assms, of a]
    by (auto simp: lowest_nonce_def pending_from_set [OF assms, symmetric])
qed

lemma mempool_is_empty_iff: "mempool_is_empty m \<longleftrightarrow> pool_txs m = {}"
  using fmap_not_empty_iff [of "mp_txs m"] by (auto simp: mempool_is_empty_def pool_txs_def mempool_get_def)


text \<open>
  What block building relies on: a queue for each sender that holds the sender's members of the
  pool in ascending order of nonces.
\<close>

locale sender_queues =
  fixes members :: "'s \<Rightarrow> 't set"
    and queue :: "'s \<Rightarrow> 'a \<Rightarrow> 't list"
    and sender :: "'t \<Rightarrow> 'a"
    and nonce :: "'t \<Rightarrow> 'n :: linorder"
    and invar :: "'s \<Rightarrow> bool"
  assumes set_queue: "invar s \<Longrightarrow> set (queue s a) = {t \<in> members s. sender t = a}"
    and queue_sorted: "invar s \<Longrightarrow> sorted_wrt (<) (map nonce (queue s a))"
begin

lemma queue_distinct: "invar s \<Longrightarrow> distinct (queue s a)"
  using queue_sorted [of s a] strict_sorted_iff distinct_map by blast

lemma takes_members: "invar s \<Longrightarrow> set (concat (map (\<lambda>a. take (k a) (queue s a)) as)) \<subseteq> members s"
  using set_queue by (fastforce dest: in_set_takeD)

lemma filter_take_queue:
  "invar s \<Longrightarrow> filter (\<lambda>t. sender t = a) (take n (queue s b)) = (if a = b then take n (queue s b) else [])"
  using set_queue [of s b] by (auto simp: filter_empty_conv filter_id_conv dest!: in_set_takeD)

text \<open>Prefixes of the queues of different senders, one after the other.\<close>

lemma takes_distinct:
  "invar s \<Longrightarrow> distinct as \<Longrightarrow> distinct (concat (map (\<lambda>a. take (k a) (queue s a)) as))"
proof (induction as)
  case (Cons a as)
  have "set (take (k a) (queue s a)) \<inter> set (concat (map (\<lambda>a. take (k a) (queue s a)) as)) = {}"
    using Cons.prems set_queue [OF Cons.prems(1)] by (fastforce dest!: in_set_takeD)
  then show ?case using Cons queue_distinct by simp
qed simp

lemma filter_takes:
  "invar s \<Longrightarrow> distinct as \<Longrightarrow>
   filter (\<lambda>t. sender t = a) (concat (map (\<lambda>b. take (k b) (queue s b)) as)) =
     (if a \<in> set as then take (k a) (queue s a) else [])"
  by (induction as) (auto simp: filter_take_queue)

lemma queue_head_least:
  assumes "invar s" and "queue s a = t # ts" and "u \<in> members s" and "sender u = a"
  shows "nonce t \<le> nonce u"
proof -
  have "u \<in> set (t # ts)" using set_queue [OF assms(1), of a] assms(2-4) by auto
  then show ?thesis using queue_sorted [OF assms(1), of a] assms(2) by auto
qed

end

interpretation pool_queues: sender_queues pool_txs pending_from tx_from tx_nonce "mempool_ok L"
  for L :: "('sk, 'vk) libs"
  by unfold_locales (simp_all add: pending_from_set pending_from_sorted_nonces)

text \<open>Everything a client can do to a pool.\<close>

datatype pool_op = PoolInsert transaction | PoolRemove digest

fun pool_op_run :: "('sk, 'vk) libs \<Rightarrow> pool_op \<Rightarrow> mempool \<Rightarrow> mempool" where
  "pool_op_run L (PoolInsert tx) m = snd (mempool_insert L tx m)"
| "pool_op_run L (PoolRemove h) m = snd (mempool_remove h m)"

lemma pool_op_capacity: "mp_capacity (pool_op_run L op m) = mp_capacity m"
  by (cases op) (auto simp: mempool_insert_eq split: option.split)

lemma mempool_ok_run: "mempool_ok L m \<Longrightarrow> mempool_ok L (fold (pool_op_run L) ops m)"
proof (induction ops arbitrary: m)
  case (Cons op ops)
  then show ?case by (cases op) (simp_all add: mempool_ok_insert mempool_ok_remove)
qed simp

lemma capacity_run: "mp_capacity (fold (pool_op_run L) ops m) = mp_capacity m"
  by (induction ops arbitrary: m) (simp_all add: pool_op_capacity)


section \<open>Properties\<close>

text \<open>
  C28: inserting into a pool whose indexes agree. On success exactly the new transaction is
  added, it can be found under its hash, it has a valid signature, it moves something and no
  pending transaction had its sender and nonce. A refusal leaves the pool as it was and its
  error is the truth: the signature is bad, the amount is zero, a transaction of the same
  hash is pending, another one of the same sender and nonce is pending, or the pool is full.
\<close>

theorem mempool_insert_correct:
  assumes "mempool_ok L m"
  shows "case mempool_insert L tx m of
     (Ok h, m') \<Rightarrow>
       h = tx_hash L tx \<and> mempool_get m' h = Some tx \<and> tx \<notin> pool_txs m \<and>
       pool_txs m' = insert tx (pool_txs m) \<and> mempool_len m' = Suc (mempool_len m) \<and>
       verify_signature L tx = Inr () \<and> tx_amount tx \<noteq> 0 \<and>
       \<not> (\<exists>t \<in> pool_txs m. tx_from t = tx_from tx \<and> tx_nonce t = tx_nonce tx)
   | (Err e, m') \<Rightarrow> m' = m \<and>
       (case e of
          PoolInvalidSignature e' \<Rightarrow> verify_signature L tx = Inl e'
        | ZeroAmount \<Rightarrow> tx_amount tx = 0
        | Duplicate \<Rightarrow> \<exists>t \<in> pool_txs m. tx_hash L t = tx_hash L tx
        | NonceConflict n \<Rightarrow> n = tx_nonce tx \<and>
            (\<exists>t \<in> pool_txs m. tx_from t = tx_from tx \<and> tx_nonce t = n \<and> tx_hash L t \<noteq> tx_hash L tx)
        | Full \<Rightarrow> mempool_len m = mp_capacity m)
   | (Panic, _) \<Rightarrow> False"
proof (cases "insert_refused L tx m")
  case None
  then show ?thesis
    by (auto simp: mempool_insert_eq insert_refused_def pool_txs_add pool_add_len
        slot_None_iff [OF assms] pool_get_None_iff [OF assms] split: if_splits)
next
  case (Some e)
  have "(\<exists>x. y = Some x) \<longleftrightarrow> y \<noteq> None" for y :: "digest option" by auto
  with Some show ?thesis
    using mempool_ok_len [OF assms] slot_None_iff [OF assms, of "tx_from tx" "tx_nonce tx"]
      pool_get_None_iff [OF assms, of "tx_hash L tx"]
    by (cases "verify_signature L tx")
      (auto simp: mempool_insert_eq insert_refused_def split: if_splits)
qed

text \<open>
  C29: removing. The transaction of that hash is returned and nothing else leaves the pool;
  an unknown hash changes nothing; afterwards the transaction would be admitted again.
\<close>

theorem mempool_remove_correct:
  assumes "mempool_ok L m"
  shows "case mempool_remove h m of
     (None, m') \<Rightarrow> m' = m \<and> (\<forall>t \<in> pool_txs m. tx_hash L t \<noteq> h)
   | (Some t, m') \<Rightarrow> t \<in> pool_txs m \<and> tx_hash L t = h \<and> pool_txs m' = pool_txs m - {t} \<and>
       Suc (mempool_len m') = mempool_len m \<and> fst (mempool_insert L t m') = Ok h"
proof (cases "mempool_get m h")
  case None
  then show ?thesis using pool_get_None_iff [OF assms] by simp
next
  case (Some t)
  let ?m = "snd (mempool_remove h m)"
  have t: "t \<in> pool_txs m" "tx_hash L t = h" "slot m (tx_from t) (tx_nonce t) = Some h"
    using Some mempool_ok_get [OF assms Some] by (auto simp: pool_txs_def)
  have "pool_txs ?m = pool_txs m - {t}"
    using t pool_txs_same_hash [OF assms] by (auto simp: pool_txs_remove [OF assms])
  moreover have "insert_refused L t ?m = None"
    using t mempool_ok_get(2,3) [OF assms Some] mempool_ok_len [OF assms] mempool_len_remove [OF Some]
    by (simp add: insert_refused_def slot_remove [OF Some])
  ultimately show ?thesis
    using t Some mempool_len_remove [OF Some] by (simp add: prod.case_eq_if mempool_insert_eq)
qed


text \<open>
  C20: whatever is inserted and removed, and whichever insertions are refused, a pool keeps
  its indexes in step, admits no two pending transactions with the same sender and nonce,
  holds only signed transactions that move something, and never exceeds its capacity.
\<close>

theorem mempool_always_ok:
  "let m = fold (pool_op_run L) ops (mempool_with_capacity c)
   in mempool_ok L m \<and> mempool_len m \<le> c \<and>
      inj_on (\<lambda>t. (tx_from t, tx_nonce t)) (pool_txs m) \<and>
      pool_txs m \<subseteq> {t. verify_signature L t = Inr () \<and> tx_amount t \<noteq> 0}"
proof -
  let ?m = "fold (pool_op_run L) ops (mempool_with_capacity c)"
  have ok: "mempool_ok L ?m" by (rule mempool_ok_run) simp
  then have "mempool_len ?m \<le> c" 
    using mempool_ok_len [OF ok] capacity_run [of L ops "mempool_with_capacity c"] by simp
  moreover have "inj_on (\<lambda>t. (tx_from t, tx_nonce t)) (pool_txs ?m)"
    using mempool_ok_get(4) [OF ok] pool_txs_iff [OF ok]
    by (intro inj_onI) (metis fst_conv snd_conv option.inject)
  moreover have "pool_txs ?m \<subseteq> {t. verify_signature L t = Inr () \<and> tx_amount t \<noteq> 0}"
    using mempool_ok_get(2,3) [OF ok] unfolding pool_txs_def by blast
  ultimately show ?thesis using ok by (simp add: Let_def)
qed

text \<open>
  C30: what a pool gives out for a sender: exactly the sender's pending transactions, in
  strictly ascending order of nonces, and the lowest of these nonces; none if there is no
  transaction.
\<close>

theorem pending_from_correct:
  assumes "mempool_ok L m"
  shows "set (pending_from m a) = {t \<in> pool_txs m. tx_from t = a} \<and>
    sorted_wrt (<) (map tx_nonce (pending_from m a)) \<and>
    lowest_nonce m a =
      (if {t \<in> pool_txs m. tx_from t = a} = {} then None
       else Some (Min (tx_nonce ` {t \<in> pool_txs m. tx_from t = a})))"
  using pending_from_set [OF assms] pending_from_sorted_nonces [OF assms] lowest_nonce_eq [OF assms] by blast

text \<open>
  The views over all senders: the senders are those with something pending, each once;
  the list of pending transactions holds each once, in whatever order the map yields them, and
  the pool counts as empty exactly when there is none.
\<close>

theorem pool_views_correct:
  assumes "mempool_ok L m" and "key_order ita" and "key_order ith"
  shows "set (senders ita m) = tx_from ` pool_txs m \<and> distinct (senders ita m) \<and>
    set (pending ith m) = pool_txs m \<and> distinct (pending ith m) \<and>
    length (pending ith m) = mempool_len m \<and> (mempool_is_empty m \<longleftrightarrow> pool_txs m = {})"
proof -
  let ?ks = "ith (fmdom (mp_txs m))"
  have "pending ith m = map (\<lambda>h. the (mempool_get m h)) ?ks"
    unfolding pending_def hm_values_def
    using assms(3) by (intro map_filter_all_Some) (auto simp: key_order_def mempool_get_def fmlookup_dom_iff)
  moreover have "inj_on (\<lambda>h. the (mempool_get m h)) (set ?ks)"
  proof (rule inj_onI)
    fix h k
    assume "h \<in> set ?ks" "k \<in> set ?ks" and eq: "the (mempool_get m h) = the (mempool_get m k)"
    then obtain t u where "mempool_get m h = Some t" "mempool_get m k = Some u"
      using assms(3) by (auto simp: key_order_def mempool_get_def fmlookup_dom_iff)
    then show "h = k" using eq mempool_ok_get(1) [OF assms(1)] by (metis option.sel)
  qed
  moreover have "(\<lambda>h. the (mempool_get m h)) ` set ?ks = pool_txs m"
    using assms(3) by (force simp: key_order_def pool_txs_def mempool_get_def fmlookup_dom_iff)
  moreover have "length ?ks = mempool_len m"
    using assms(3) distinct_card [of ?ks]
    by (simp add: key_order_def mempool_len_def hm_len_def fcard.rep_eq)
  ultimately show ?thesis
    using set_senders [OF assms(1,2)] assms(2,3)
    by (simp add: distinct_map key_order_def senders_def mempool_is_empty_iff)
qed

text \<open>
  The pool implements a map from sender and nonce to a transaction: an accepted insertion
  fills the free slot of its sender and nonce, a removal empties the slot of the removed
  transaction, a refusal or an unknown hash changes no slot.
\<close>

theorem pool_refines_slots:
  assumes "mempool_ok L m"
  shows "pool_view (snd (mempool_insert L tx m)) =
      (if is_ok (fst (mempool_insert L tx m)) then (pool_view m)((tx_from tx, tx_nonce tx) \<mapsto> tx)
       else pool_view m) \<and>
    pool_view (snd (mempool_remove h m)) =
      (case mempool_get m h of None \<Rightarrow> pool_view m
       | Some t \<Rightarrow> (pool_view m)((tx_from t, tx_nonce t) := None))"
proof
  show "pool_view (snd (mempool_insert L tx m)) =
      (if is_ok (fst (mempool_insert L tx m)) then (pool_view m)((tx_from tx, tx_nonce tx) \<mapsto> tx)
       else pool_view m)"
  proof (cases "insert_refused L tx m")
    case None
    then have fresh: "mempool_get m (tx_hash L tx) = None"
      by (auto simp: insert_refused_def split: if_splits)
    have "slot m a n \<noteq> Some (tx_hash L tx)" for a n
      using fresh mempool_ok_slot [OF assms, of a n "tx_hash L tx"] by auto
    with None show ?thesis
      by (auto simp: mempool_insert_eq pool_view_def fun_eq_iff split: option.split)
  qed (simp add: mempool_insert_eq)
next
  show "pool_view (snd (mempool_remove h m)) =
      (case mempool_get m h of None \<Rightarrow> pool_view m
       | Some t \<Rightarrow> (pool_view m)((tx_from t, tx_nonce t) := None))"
  proof (cases "mempool_get m h")
    case (Some t)
    have "slot m a n = Some h \<Longrightarrow> a = tx_from t \<and> n = tx_nonce t" for a n
      using Some mempool_ok_slot [OF assms, of a n h] by auto
    with Some show ?thesis
      by (auto simp: pool_view_def fun_eq_iff slot_remove [OF Some] split: option.split)
  qed simp
qed


subsection \<open>Witnesses\<close>

definition sample_pool :: mempool where
  "sample_pool = pool_add sample_libs (stx 20 1) (pool_add sample_libs (stx 10 0) (mempool_with_capacity 3))"

lemma sample_hashes_distinct:
  "distinct (map sample_mix [sample_tx_bytes 1 2 10 0, sample_tx_bytes 1 2 20 1, sample_tx_bytes 1 2 30 1,
     sample_tx_bytes 1 2 40 2])"
  by code_simp

lemma sample_hashes_differ [simp]:
  "sample_mix (sample_tx_bytes 1 2 10 0) \<noteq> sample_mix (sample_tx_bytes 1 2 20 1)"
  "sample_mix (sample_tx_bytes 1 2 10 0) \<noteq> sample_mix (sample_tx_bytes 1 2 30 1)"
  "sample_mix (sample_tx_bytes 1 2 10 0) \<noteq> sample_mix (sample_tx_bytes 1 2 40 2)"
  "sample_mix (sample_tx_bytes 1 2 20 1) \<noteq> sample_mix (sample_tx_bytes 1 2 30 1)"
  "sample_mix (sample_tx_bytes 1 2 20 1) \<noteq> sample_mix (sample_tx_bytes 1 2 40 2)"
  "sample_mix (sample_tx_bytes 1 2 30 1) \<noteq> sample_mix (sample_tx_bytes 1 2 40 2)"
  using sample_hashes_distinct by simp_all

lemmas sample_hashes_differ_sym [simp] = sample_hashes_differ [THEN not_sym]

lemma sample_pool_len [simp]: "mempool_len sample_pool = 2"
  by (simp add: sample_pool_def pool_add_len tx_hash_stx)

lemma sample_pool_ok: "mempool_ok sample_libs sample_pool"
proof -
  have "mempool_ok sample_libs (pool_add sample_libs (stx 10 0) (mempool_with_capacity 3))"
    by (rule mempool_ok_add) (simp_all add: insert_refused_def)
  then show ?thesis unfolding sample_pool_def
    by (rule mempool_ok_add) (simp add: insert_refused_def tx_hash_stx pool_add_len)
qed

lemma sample_pool_txs: "pool_txs sample_pool = {stx 10 0, stx 20 1}"
  by (auto simp: sample_pool_def pool_txs_add tx_hash_stx) (auto simp: pool_txs_def)

lemma sample_pool_capacity [simp]: "mp_capacity sample_pool = 3"
  by (simp add: sample_pool_def)

lemma sample_inserts:
  "mempool_insert sample_libs (stx 40 2) sample_pool =
     (Ok (tx_hash sample_libs (stx 40 2)), pool_add sample_libs (stx 40 2) sample_pool)"
  "mempool_insert sample_libs (stx 30 1) sample_pool = (Err (NonceConflict 1), sample_pool)"
  by (simp_all add: mempool_insert_eq insert_refused_def tx_hash_stx)
    (simp_all add: sample_pool_def tx_hash_stx)

lemma sample_gets:
  "mempool_get sample_pool (tx_hash sample_libs (stx 10 0)) = Some (stx 10 0)"
  "mempool_get sample_pool (tx_hash sample_libs (stx 40 2)) = None"
  by (simp_all add: sample_pool_def tx_hash_stx)

theorem mempool_insert_correct_witness:
  "fst (mempool_insert sample_libs (stx 40 2) sample_pool) = Ok (tx_hash sample_libs (stx 40 2)) \<and>
   pool_txs (snd (mempool_insert sample_libs (stx 40 2) sample_pool)) = {stx 10 0, stx 20 1, stx 40 2} \<and>
   fst (mempool_insert sample_libs (stx 30 1) sample_pool) = Err (NonceConflict 1)"
  using mempool_insert_correct [OF sample_pool_ok, of "stx 40 2"]
    mempool_insert_correct [OF sample_pool_ok, of "stx 30 1"]
  unfolding sample_inserts by (auto simp: sample_pool_txs)

theorem mempool_remove_correct_witness:
  "pool_txs (snd (mempool_remove (tx_hash sample_libs (stx 10 0)) sample_pool)) = {stx 20 1} \<and>
   fst (mempool_remove (tx_hash sample_libs (stx 40 2)) sample_pool) = None"
  using mempool_remove_correct [OF sample_pool_ok, of "tx_hash sample_libs (stx 10 0)"]
  by (simp add: prod.case_eq_if sample_gets) (auto simp: sample_pool_txs)

lemma sample_pool_sender:
  "{t \<in> pool_txs sample_pool. tx_from t = repeat_byte 1} = {stx 10 0, stx 20 1}"
  "{t \<in> pool_txs sample_pool. tx_from t = repeat_byte 2} = {}"
  by (auto simp: sample_pool_txs)

theorem pending_from_correct_witness:
  "set (pending_from sample_pool (repeat_byte 1)) = {stx 10 0, stx 20 1} \<and>
   lowest_nonce sample_pool (repeat_byte 1) = Some 0 \<and> lowest_nonce sample_pool (repeat_byte 2) = None"
  using pending_from_correct [OF sample_pool_ok, of "repeat_byte 1"]
    pending_from_correct [OF sample_pool_ok, of "repeat_byte 2"]
  by (simp add: sample_pool_sender)

theorem pool_views_correct_witness:
  "set (senders sorted_list_of_fset sample_pool) = {repeat_byte 1} \<and>
   length (pending sorted_list_of_fset sample_pool) = 2"
  using pool_views_correct [OF sample_pool_ok key_order_sorted key_order_sorted]
  by (simp add: sample_pool_txs)

theorem pool_refines_slots_witness:
  "pool_view (snd (mempool_insert sample_libs (stx 40 2) sample_pool)) (repeat_byte 1, 2) = Some (stx 40 2) \<and>
   pool_view (snd (mempool_remove (tx_hash sample_libs (stx 10 0)) sample_pool)) (repeat_byte 1, 0) = None"
  using pool_refines_slots [OF sample_pool_ok, of "stx 40 2" "tx_hash sample_libs (stx 10 0)"]
  by (simp add: sample_inserts sample_gets)

end
