(* ===== verification/Builder.thy ===== *)
theory Builder
  imports State_Store Mempool
begin

text \<open>
  \<open>crates/consensus/src/builder.rs\<close>: greedy selection of pending transactions and assembly of
  the next block.
\<close>

section \<open>Operations\<close>

text \<open>\<open>nanochain_consensus::Error\<close>.\<close>

datatype consensus_error =
    NotLeader
  | Timeout
  | Internal string
  | ConsensusTypes types_error
  | ConsensusStorage storage_error

record 'sk build_params =
  bp_parent :: block
  bp_timestamp :: u64
  bp_proposer :: 'sk
  bp_max_txs :: nat

text \<open>
  The inner loop over the pending transactions of one sender, from the shadow state and the
  transactions selected so far. The flag says that it left the outer loop as well
  (\<open>break 'senders\<close>); \<open>None\<close> is a panic.
\<close>

fun select_from ::
  "profile \<Rightarrow> ('sk, 'vk) libs \<Rightarrow> nat \<Rightarrow> transaction list \<Rightarrow> state_store \<Rightarrow> transaction list \<Rightarrow>
     (bool \<times> state_store \<times> transaction list) option" where
  "select_from pr L max_txs [] shadow selected = Some (False, shadow, selected)"
| "select_from pr L max_txs (tx # txs) shadow selected =
     (if max_txs \<le> length selected then Some (True, shadow, selected)
      else case apply_transaction pr L tx shadow of
             (Ok _, shadow') \<Rightarrow> select_from pr L max_txs txs shadow' (selected @ [tx])
           | (Err _, shadow') \<Rightarrow> Some (False, shadow', selected)
           | (Panic, _) \<Rightarrow> None)"

fun select_senders ::
  "profile \<Rightarrow> ('sk, 'vk) libs \<Rightarrow> nat \<Rightarrow> mempool \<Rightarrow> address list \<Rightarrow> state_store \<Rightarrow>
     transaction list \<Rightarrow> (state_store \<times> transaction list) option" where
  "select_senders pr L max_txs m [] shadow selected = Some (shadow, selected)"
| "select_senders pr L max_txs m (sender # rest) shadow selected =
     (case select_from pr L max_txs (pending_from m sender) shadow selected of
        None \<Rightarrow> None
      | Some (True, shadow', selected') \<Rightarrow> Some (shadow', selected')
      | Some (False, shadow', selected') \<Rightarrow> select_senders pr L max_txs m rest shadow' selected')"

definition build_block ::
  "profile \<Rightarrow> ('sk, 'vk) libs \<Rightarrow> address iter_order \<Rightarrow> 'sk build_params \<Rightarrow> mempool \<Rightarrow> state_store \<Rightarrow>
     (consensus_error, signed_block) res" where
  "build_block pr L it params m s =
     (case select_senders pr L (bp_max_txs params) m (senders it m) s [] of
        None \<Rightarrow> Panic
      | Some (_, selected) \<Rightarrow>
          (case add_u64 pr (hd_height (blk_header (bp_parent params))) 1 of
             None \<Rightarrow> Panic
           | Some height \<Rightarrow>
               (case block_new L height (block_hash L (bp_parent params)) (bp_timestamp params)
                       (lib_public L (bp_proposer params)) selected of
                  None \<Rightarrow> Panic
                | Some b \<Rightarrow>
                    (case sign_block L b (bp_proposer params) of
                       Inl e \<Rightarrow> Err (ConsensusTypes e)
                     | Inr sb \<Rightarrow> Ok sb))))"


section \<open>Selection\<close>

text \<open>
  One sender: a prefix of the queue is taken, it applies to the shadow state, and the loop
  stops before the end of the queue only at the cap or at a transaction that is refused.
\<close>

lemma select_from_prefix:
  "select_from pr L n txs sh sel = Some (stop, sh', sel') \<Longrightarrow>
   \<exists>k \<le> length txs. sel' = sel @ take k txs \<and> apply_txs pr L (take k txs) sh = (Ok (), sh') \<and>
     (length sel \<le> n \<longrightarrow> length sel' \<le> n) \<and> (stop \<longrightarrow> n \<le> length sel') \<and>
     (\<not> stop \<and> k < length txs \<longrightarrow> \<not> tx_admissible L (txs ! k) sh')"
proof (induction pr L n txs sh sel rule: select_from.induct)
  case (2 pr L n tx txs sh sel)
  consider (cap) "n \<le> length sel"
    | (go) sh1 where "length sel < n" "apply_transaction pr L tx sh = (Ok (), sh1)"
        "select_from pr L n txs sh1 (sel @ [tx]) = Some (stop, sh', sel')"
    | (refused) e where "length sel < n" "apply_transaction pr L tx sh = (Err e, sh')" "\<not> stop" "sel' = sel"
    using 2 by (fastforce split: if_splits prod.splits res.splits)
  then show ?case
  proof cases
    case cap
    with 2 show ?thesis by auto
  next
    case go
    then have "\<not> n \<le> length sel" by simp
    from "2.IH" [OF this go(2)[symmetric] refl go(3)]
    obtain k where "k \<le> length txs" "sel' = (sel @ [tx]) @ take k txs"
      "apply_txs pr L (take k txs) sh1 = (Ok (), sh')"
      "length (sel @ [tx]) \<le> n \<longrightarrow> length sel' \<le> n" "stop \<longrightarrow> n \<le> length sel'"
      "\<not> stop \<and> k < length txs \<longrightarrow> \<not> tx_admissible L (txs ! k) sh'"
      by blast
    then show ?thesis using go by (intro exI [of _ "Suc k"]) auto
  next
    case refused
    then show ?thesis by (auto simp: apply_transaction_Err_iff intro!: exI [of _ 0])
  qed
qed auto

lemma select_from_panic: 
  "select_from pr L n txs sh sel = None \<Longrightarrow> pr = Debug \<and> (\<exists>t \<in> set txs. tx_nonce t = u64_max)"
proof (induction pr L n txs sh sel rule: select_from.induct)
  case (2 pr L n tx txs sh sel)
  consider (go) sh1 where "apply_transaction pr L tx sh = (Ok (), sh1)" "\<not> n \<le> length sel"
        "select_from pr L n txs sh1 (sel @ [tx]) = None"
    | (panic) sh1 where "apply_transaction pr L tx sh = (Panic, sh1)"
    using 2 by (fastforce split: if_splits prod.splits res.splits)
  then show ?case
  proof cases
    case go
    then show ?thesis using "2.IH" [OF go(2) go(1)[symmetric] refl go(3)] by auto
  next
    case panic
    then show ?thesis
      using apply_transaction_admissible [of L tx sh pr] apply_transaction_reject [of L tx sh pr]
      by (cases "tx_admissible L tx sh"; cases "pr = Debug \<and> tx_nonce tx = u64_max") auto
  qed
qed simp

text \<open>
  All senders: how many transactions of each are taken. What is selected is the concatenation
  of these prefixes, it applies to the state, and each sender's loop ended at the end of its
  queue, at the cap, or at a transaction that the state reached by then refuses.
\<close>

definition taken :: "mempool \<Rightarrow> (address \<Rightarrow> nat) \<Rightarrow> address list \<Rightarrow> transaction list" where
  "taken m k as = concat (map (\<lambda>a. take (k a) (pending_from m a)) as)"

lemma taken_simps [simp]:
  "taken m k [] = []" "taken m k (a # as) = take (k a) (pending_from m a) @ taken m k as"
  "taken m k (as @ bs) = taken m k as @ taken m k bs"
  by (simp_all add: taken_def)

lemma taken_cong: "(\<And>a. a \<in> set as \<Longrightarrow> k a = k' a) \<Longrightarrow> taken m k as = taken m k' as"
  by (simp add: taken_def cong: map_cong)

definition selection_of ::
  "profile \<Rightarrow> ('sk, 'vk) libs \<Rightarrow> nat \<Rightarrow> mempool \<Rightarrow> address list \<Rightarrow> state_store \<Rightarrow> nat \<Rightarrow>
     (address \<Rightarrow> nat) \<Rightarrow> bool" where
  "selection_of pr L n m as s len k \<longleftrightarrow>
     n \<le> len + length (taken m k as) \<or>
     (\<forall>pre a post. as = pre @ a # post \<longrightarrow> k a < length (pending_from m a) \<longrightarrow>
        (\<exists>s1. apply_txs pr L (taken m k (pre @ [a])) s = (Ok (), s1) \<and>
           \<not> tx_admissible L (pending_from m a ! k a) s1))"

lemma selection_of_Cons:
  assumes "a \<notin> set as" and "apply_txs pr L (take j (pending_from m a)) s = (Ok (), s1)"
    and "j < length (pending_from m a) \<Longrightarrow> \<not> tx_admissible L (pending_from m a ! j) s1"
    and "selection_of pr L n m as s1 (len + length (take j (pending_from m a))) k"
  shows "selection_of pr L n m (a # as) s len (k(a := j))"
proof -
  have same: "taken m (k(a := j)) bs = taken m k bs" if "a \<notin> set bs" for bs
    using that by (intro taken_cong) auto
  show ?thesis
  proof (cases "n \<le> len + length (taken m (k(a := j)) (a # as))")
    case False
    then have "\<not> n \<le> len + length (take j (pending_from m a)) + length (taken m k as)"
      using same [OF assms(1)] by simp
    then have inner: "\<exists>s'. apply_txs pr L (taken m k (pre @ [b])) s1 = (Ok (), s') \<and>
        \<not> tx_admissible L (pending_from m b ! k b) s'"
      if "as = pre @ b # post" "k b < length (pending_from m b)" for pre b post
      using assms(4) that unfolding selection_of_def by blast
    have "\<exists>s'. apply_txs pr L (taken m (k(a := j)) (pre @ [b])) s = (Ok (), s') \<and>
        \<not> tx_admissible L (pending_from m b ! (k(a := j)) b) s'"
      if split: "a # as = pre @ b # post" and less: "(k(a := j)) b < length (pending_from m b)"
      for pre b post
    proof (cases pre)
      case Nil
      with split less assms(2,3) show ?thesis by auto
    next
      case (Cons c pre')
      with split have as: "as = pre' @ b # post" and "c = a" by auto
      moreover have "b \<noteq> a" "a \<notin> set (pre' @ [b])" using assms(1) as by auto
      ultimately show ?thesis
        using inner [OF as] less Cons same [of "pre' @ [b]"] assms(2)
        by (auto simp: state_ledger.run_append_Ok simp del: taken_simps(3))
    qed
    then show ?thesis unfolding selection_of_def by blast
  qed (simp add: selection_of_def)
qed

lemma select_senders_taken:
  "select_senders pr L n m as sh sel = Some (sh', sel') \<Longrightarrow> distinct as \<Longrightarrow> length sel \<le> n \<Longrightarrow>
   \<exists>k. sel' = sel @ taken m k as \<and> apply_txs pr L (taken m k as) sh = (Ok (), sh') \<and>
     length sel' \<le> n \<and> (\<forall>a. k a \<le> length (pending_from m a)) \<and>
     selection_of pr L n m as sh (length sel) k"
proof (induction pr L n m as sh sel rule: select_senders.induct)
  case (1 pr L n m sh sel)
  then show ?case by (auto simp: selection_of_def intro!: exI [of _ "\<lambda>_. 0"])
next
  case (2 pr L n m a as sh sel)
  obtain stop sh1 sel1 where one: "select_from pr L n (pending_from m a) sh sel = Some (stop, sh1, sel1)"
    using "2.prems"(1) by (auto split: option.splits)
  then obtain j where j: "j \<le> length (pending_from m a)" "sel1 = sel @ take j (pending_from m a)"
    "apply_txs pr L (take j (pending_from m a)) sh = (Ok (), sh1)" "length sel1 \<le> n"
    "stop \<longrightarrow> n \<le> length sel1"
    "\<not> stop \<and> j < length (pending_from m a) \<longrightarrow> \<not> tx_admissible L (pending_from m a ! j) sh1"
    using select_from_prefix "2.prems"(3) by blast
  show ?case
  proof (cases stop)
    case True
    let ?k = "\<lambda>b. if b = a then j else 0"
    have "taken m ?k as = []" using "2.prems"(2) by (auto simp: taken_def)
    moreover have "selection_of pr L n m (a # as) sh (length sel) ?k"
      using j True \<open>taken m ?k as = []\<close> by (simp add: selection_of_def)
    ultimately show ?thesis using j True "2.prems"(1) one by (intro exI [of _ ?k]) auto
  next
    case False
    then obtain k where k: "sel' = sel1 @ taken m k as" "apply_txs pr L (taken m k as) sh1 = (Ok (), sh')"
      "length sel' \<le> n" "\<forall>b. k b \<le> length (pending_from m b)"
      "selection_of pr L n m as sh1 (length sel1) k"
      using "2.IH" [OF one refl _ refl] "2.prems" one j(4) by auto
    define k' where "k' = k(a := j)"
    have "taken m k' as = taken m k as"
      using "2.prems"(2) unfolding k'_def by (intro taken_cong) auto
    then have all: "taken m k' (a # as) = take j (pending_from m a) @ taken m k as"
      by (simp add: k'_def)
    have "selection_of pr L n m (a # as) sh (length sel) k'"
      using "2.prems"(2) j(2,3,6) k(5) False unfolding k'_def by (intro selection_of_Cons) auto
    moreover have "sel' = sel @ taken m k' (a # as)" using all j(2) k(1) by simp
    moreover have "apply_txs pr L (taken m k' (a # as)) sh = (Ok (), sh')"
      unfolding all state_ledger.run_append_Ok using j(3) k(2) by blast
    moreover have "\<forall>b. k' b \<le> length (pending_from m b)" using j(1) k(4) by (simp add: k'_def)
    ultimately show ?thesis using k(3) by blast
  qed
qed

lemma select_senders_panic:
  "select_senders pr L n m as sh sel = None \<Longrightarrow>
   pr = Debug \<and> (\<exists>a \<in> set as. \<exists>t \<in> set (pending_from m a). tx_nonce t = u64_max)"
proof (induction pr L n m as sh sel rule: select_senders.induct)
  case (2 pr L n m a as sh sel)
  then show ?case
    using select_from_panic [of pr L n "pending_from m a" sh sel]
    by (fastforce split: option.splits bool.splits)
qed simp


text \<open>Selection does not panic while the nonces leave room for the transactions it may take.\<close>

definition nonce_room :: "state_store \<Rightarrow> nat \<Rightarrow> bool" where
  "nonce_room s n \<longleftrightarrow> (\<forall>a. unat (get_nonce s a) + n < 2 ^ 64)"

lemma nonce_room_transfer:
  assumes "nonce_room s (Suc n)"
  shows "nonce_room (transfer t s) n"
  unfolding nonce_room_def
proof
  fix a
  have "unat (get_nonce s a) + Suc n < 2 ^ 64" using assms unfolding nonce_room_def by blast
  moreover have "unat (get_nonce s a + 1) \<le> unat (get_nonce s a) + 1" 
    by (cases "get_nonce s a = u64_max") (simp_all add: unat_inc_u64)
  ultimately show "unat (get_nonce (transfer t s) a) + n < 2 ^ 64"
    unfolding get_nonce_transfer by (cases "a = tx_from t") simp_all
qed

lemma nonce_room_no_panic:
  assumes "nonce_room s (Suc n)"
  shows "fst (apply_transaction pr L t s) \<noteq> Panic"
proof -
  have "unat (get_nonce s (tx_from t)) + Suc n < 2 ^ 64" using assms by (simp add: nonce_room_def)
  then have "get_nonce s (tx_from t) \<noteq> u64_max" by auto
  then show ?thesis by (auto simp: apply_transaction_Panic_iff tx_admissible_def)
qed

lemma select_from_room:
  "nonce_room sh (n - length sel) \<Longrightarrow>
   \<exists>stop sh' sel'. select_from pr L n txs sh sel = Some (stop, sh', sel') \<and> nonce_room sh' (n - length sel')"
proof (induction txs arbitrary: sh sel)
  case (Cons tx txs)
  show ?case
  proof (cases "n \<le> length sel")
    case False
    then have room: "nonce_room sh (Suc (n - length (sel @ [tx])))" using Cons.prems by (simp add: Suc_diff_Suc)
    obtain r sh1 where one: "apply_transaction pr L tx sh = (r, sh1)" by (cases "apply_transaction pr L tx sh")
    show ?thesis
    proof (cases r)
      case (Ok u)
      then have "sh1 = transfer tx sh" using one by (simp add: apply_transaction_Ok_iff)
      then show ?thesis using False one Ok Cons.IH [OF nonce_room_transfer [OF room, of tx]] by simp
    next
      case (Err e)
      then have "sh1 = sh" using one by (simp add: apply_transaction_Err_iff)
      then show ?thesis using False one Err Cons.prems by (intro exI [of _ False]) simp
    next
      case Panic
      then show ?thesis using one nonce_room_no_panic [OF room, of pr L tx] by simp
    qed
  qed (use Cons.prems in auto)
qed auto

lemma select_senders_room:
  "nonce_room sh (n - length sel) \<Longrightarrow> select_senders pr L n m as sh sel \<noteq> None"
proof (induction as arbitrary: sh sel)
  case (Cons a as)
  obtain stop sh' sel' where "select_from pr L n (pending_from m a) sh sel = Some (stop, sh', sel')"
    "nonce_room sh' (n - length sel')" using select_from_room [OF Cons.prems] by blast
  then show ?case using Cons.IH by (cases stop) auto
qed simp


section \<open>Blocks\<close>

lemma block_new_Some:
  "block_new L h p t pr txs = Some b \<Longrightarrow>
   b = \<lparr>blk_header = \<lparr>hd_height = h, hd_parent_hash = p, hd_tx_root = tx_root L txs,
                      hd_timestamp = t, hd_proposer = pr\<rparr>, blk_transactions = txs\<rparr>"
  by (simp add: block_new_eq)

text \<open>What a successful build went through.\<close>

lemma build_block_Ok:
  assumes "build_block pr L it p m s = Ok sb"
  shows "\<exists>sh. select_senders pr L (bp_max_txs p) m (senders it m) s [] =
        Some (sh, blk_transactions (sb_block sb)) \<and>
      blk_header (sb_block sb) =
        \<lparr>hd_height = hd_height (blk_header (bp_parent p)) + 1,
         hd_parent_hash = block_hash L (bp_parent p),
         hd_tx_root = tx_root L (blk_transactions (sb_block sb)), hd_timestamp = bp_timestamp p,
         hd_proposer = lib_public L (bp_proposer p)\<rparr> \<and>
      (pr = Debug \<longrightarrow> hd_height (blk_header (bp_parent p)) \<noteq> u64_max) \<and>
      sign_block L (sb_block sb) (bp_proposer p) = Inr sb"
  using assms unfolding build_block_def add_u64_one
  by (auto simp: sign_block_Inr split: option.splits sum.splits if_splits dest!: block_new_Some)

lemma build_block_never_err: "build_block pr L it p m s \<noteq> Err e"
  by (auto simp: build_block_def sign_block_def block_new_eq split: option.splits)

lemma build_block_panic:
  assumes "mempool_ok L m" and "key_order it" and "build_block pr L it p m s = Panic"
  shows "pr = Debug \<and>
    (hd_height (blk_header (bp_parent p)) = u64_max \<or> (\<exists>t \<in> pool_txs m. tx_nonce t = u64_max))"
proof (cases "select_senders pr L (bp_max_txs p) m (senders it m) s []")
  case None
  then show ?thesis using select_senders_panic [OF None] pending_from_set [OF assms(1)] by auto
next
  case (Some sel)
  then show ?thesis using assms(3) unfolding build_block_def add_u64_one
    by (cases sel) (auto simp: sign_block_def block_new_eq split: if_splits)
qed

lemma build_block_room:
  assumes "nonce_room s (bp_max_txs p)" and "hd_height (blk_header (bp_parent p)) \<noteq> u64_max"
  shows "build_block pr L it p m s \<noteq> Panic"
proof -
  obtain sel where "select_senders pr L (bp_max_txs p) m (senders it m) s [] = Some sel"
    using select_senders_room [of s "bp_max_txs p" "[]"] assms(1) by fastforce
  then show ?thesis using assms(2) unfolding build_block_def add_u64_one
    by (cases sel) (auto simp: sign_block_def block_new_eq split: if_splits)
qed

text \<open>The transactions of a block that was built.\<close>

lemma build_block_selection:
  assumes ok: "mempool_ok L m" and it: "key_order it" and "build_block pr L it p m s = Ok sb"
  shows "\<exists>k s'. blk_transactions (sb_block sb) = taken m k (senders it m) \<and>
    apply_txs pr L (blk_transactions (sb_block sb)) s = (Ok (), s') \<and>
    length (blk_transactions (sb_block sb)) \<le> bp_max_txs p \<and>
    (\<forall>a. k a \<le> length (pending_from m a)) \<and>
    selection_of pr L (bp_max_txs p) m (senders it m) s 0 k"
proof -
  obtain sh where sel: "select_senders pr L (bp_max_txs p) m (senders it m) s [] =
      Some (sh, blk_transactions (sb_block sb))"
    using build_block_Ok [OF assms(3)] by blast
  have "distinct (senders it m)" using it by (simp add: senders_def key_order_def)
  from select_senders_taken [OF sel this] show ?thesis by auto
qed

lemma build_block_members:
  assumes "mempool_ok L m" and "key_order it" and "build_block pr L it p m s = Ok sb"
  shows "distinct (blk_transactions (sb_block sb))" and "set (blk_transactions (sb_block sb)) \<subseteq> pool_txs m"
proof -
  obtain k where k: "blk_transactions (sb_block sb) = taken m k (senders it m)"
    using build_block_selection [OF assms] by blast
  have "distinct (senders it m)" using assms(2) by (simp add: senders_def key_order_def)
  then show "distinct (blk_transactions (sb_block sb))"
    unfolding k taken_def by (rule pool_queues.takes_distinct [OF assms(1)])
  show "set (blk_transactions (sb_block sb)) \<subseteq> pool_txs m"
    unfolding k taken_def by (rule pool_queues.takes_members [OF assms(1)])
qed

lemma txs_from_taken:
  assumes "mempool_ok L m" and "key_order it" and "\<And>a. k a \<le> length (pending_from m a)"
  shows "txs_from a (taken m k (senders it m)) = take (k a) (pending_from m a)"
proof -
  have "distinct (senders it m)" using assms(2) by (simp add: senders_def key_order_def)
  moreover have "a \<notin> set (senders it m) \<Longrightarrow> pending_from m a = []"
    using set_senders [OF assms(1,2)] pending_from_set [OF assms(1), of a]
    by (metis (mono_tags, lifting) empty_Collect_eq image_eqI set_empty)
  ultimately show ?thesis
    unfolding txs_from_def taken_def using pool_queues.filter_takes [OF assms(1)] by auto
qed


lemma build_block_prefix:
  assumes "mempool_ok L m" and "key_order it" and "build_block pr L it p m s = Ok sb"
    and "txs = blk_transactions (sb_block sb)"
  shows "\<exists>left. pending_from m a = txs_from a txs @ left \<and>
    (left \<noteq> [] \<longrightarrow> length txs = bp_max_txs p \<or>
       (\<exists>pre post s1. txs = pre @ post \<and> apply_txs pr L pre s = (Ok (), s1) \<and>
          \<not> tx_admissible L (hd left) s1 \<and> txs_from a post = []))"
proof -
  obtain k s' where k: "txs = taken m k (senders it m)" "apply_txs pr L txs s = (Ok (), s')"
    "length txs \<le> bp_max_txs p" "\<And>a. k a \<le> length (pending_from m a)"
    "selection_of pr L (bp_max_txs p) m (senders it m) s 0 k"
    using build_block_selection [OF assms(1-3)] assms(4) by blast
  have mine: "txs_from a txs = take (k a) (pending_from m a)"
    unfolding k(1) by (rule txs_from_taken [OF assms(1,2) k(4)])
  have stop: "\<exists>pre post s1. txs = pre @ post \<and> apply_txs pr L pre s = (Ok (), s1) \<and>
      \<not> tx_admissible L (hd (drop (k a) (pending_from m a))) s1 \<and> txs_from a post = []"
    if left: "k a < length (pending_from m a)" and not_full: "length txs \<noteq> bp_max_txs p"
  proof -
    obtain t where "t \<in> set (pending_from m a)" using left by fastforce
    then have "a \<in> set (senders it m)"
      using set_senders [OF assms(1,2)] pending_from_set [OF assms(1)] by force
    then obtain before after where split: "senders it m = before @ a # after"
      by (meson split_list)
    moreover have "\<not> bp_max_txs p \<le> 0 + length (taken m k (senders it m))"
      using k(1,3) not_full by simp
    ultimately obtain s1 where s1: "apply_txs pr L (taken m k (before @ [a])) s = (Ok (), s1)"
      "\<not> tx_admissible L (pending_from m a ! k a) s1"
      using k(5) left unfolding selection_of_def by blast
    have "distinct (senders it m)" using assms(2) by (simp add: senders_def key_order_def)
    then have "distinct after" and "a \<notin> set after" using split by auto
    then have "txs_from a (taken m k after) = []"
      unfolding txs_from_def taken_def using pool_queues.filter_takes [OF assms(1)] by simp
    moreover have "txs = taken m k (before @ [a]) @ taken m k after" using k(1) split by simp
    ultimately show ?thesis using s1 left by (auto simp: hd_drop_conv_nth simp del: taken_simps(3))
  qed
  show ?thesis
  proof (intro exI [of _ "drop (k a) (pending_from m a)"] conjI impI)
    assume "drop (k a) (pending_from m a) \<noteq> []"
    then have "k a < length (pending_from m a)" by simp
    from stop [OF this] show "length txs = bp_max_txs p \<or>
      (\<exists>pre post s1. txs = pre @ post \<and> apply_txs pr L pre s = (Ok (), s1) \<and>
        \<not> tx_admissible L (hd (drop (k a) (pending_from m a))) s1 \<and> txs_from a post = [])"
      by blast
  qed (simp add: mine)
qed


section \<open>Properties\<close>

text \<open>
  C4: building a block from a consistent pool. The block applies to the state it was built
  for; its transactions are pending, each occurs once, and there are at most as many as
  allowed; its header names the next height, the parent's hash, the root of its transactions,
  the given time and the proposer's public key. Building never reports an error, and panics
  only in a build with overflow checks, when the parent's height or a pending nonce is
  \<open>u64::MAX\<close>.
\<close>

theorem build_block_correct:
  assumes "mempool_ok L m" and "key_order it"
  shows "case build_block pr L it p m s of
     Ok sb \<Rightarrow>
       (let txs = blk_transactions (sb_block sb) in
        (\<exists>s'. apply_block pr L (sb_block sb) s = (Ok (), s')) \<and>
        set txs \<subseteq> pool_txs m \<and> distinct txs \<and> length txs \<le> bp_max_txs p \<and>
        compute_tx_root L txs = Some (hd_tx_root (blk_header (sb_block sb))) \<and>
        block_height (sb_block sb) = block_height (bp_parent p) + 1 \<and>
        block_parent (sb_block sb) = block_hash L (bp_parent p) \<and>
        hd_timestamp (blk_header (sb_block sb)) = bp_timestamp p \<and>
        sb_proposer sb = lib_public L (bp_proposer p))
   | Err _ \<Rightarrow> False
   | Panic \<Rightarrow> pr = Debug \<and>
       (block_height (bp_parent p) = u64_max \<or> (\<exists>t \<in> pool_txs m. tx_nonce t = u64_max))"
proof (cases "build_block pr L it p m s")
  case (Ok sb)
  let ?txs = "blk_transactions (sb_block sb)"
  have "\<exists>s'. apply_txs pr L ?txs s = (Ok (), s')" "length ?txs \<le> bp_max_txs p"
    using build_block_selection [OF assms Ok] by blast+
  with Ok build_block_members [OF assms Ok] build_block_Ok [OF Ok] show ?thesis
    by (auto simp: Let_def apply_block_Ok_iff compute_tx_root_eq block_height_def block_parent_def
        sb_proposer_def)
next
  case (Err e)
  then show ?thesis using build_block_never_err by blast
next
  case Panic
  with build_block_panic [OF assms Panic] show ?thesis by (simp add: block_height_def)
qed

text \<open>
  A built block carries a signature that verifies.
\<close>

theorem built_block_verifies:
  assumes "ed25519_laws L" and "build_block pr L it p m s = Ok sb"
  shows "verify_block L sb = Inr ()"
  using build_block_Ok [OF assms(2)] sign_block_verifies [OF assms(1)] by blast

text \<open>
  C24: the selection is greedy. From each sender the block takes a prefix of what is pending in
  the order of nonces, and unless the block is full, the first transaction left behind was
  refused by the state that a prefix of the block leads to, after which the block holds
  nothing more of that sender.
\<close>

theorem build_block_greedy:
  assumes "mempool_ok L m" and "key_order it" and "build_block pr L it p m s = Ok sb"
    and "txs = blk_transactions (sb_block sb)"
  shows "\<exists>left. pending_from m a = txs_from a txs @ left \<and>
    (left \<noteq> [] \<longrightarrow> length txs = bp_max_txs p \<or>
       (\<exists>pre post s1. txs = pre @ post \<and> apply_txs pr L pre s = (Ok (), s1) \<and>
          \<not> tx_admissible L (hd left) s1 \<and> txs_from a post = []))"
  by (rule build_block_prefix [OF assms])

text \<open>
  Progress: if the first pending transaction of some sender is admissible in the state and
  the block may hold a transaction at all, the block is not empty.
\<close>

theorem build_block_progress:
  assumes "mempool_ok L m" and "key_order it" and "build_block pr L it p m s = Ok sb"
    and "pending_from m a = t # ts" and "tx_admissible L t s" and "0 < bp_max_txs p"
  shows "blk_transactions (sb_block sb) \<noteq> []"
proof
  assume empty: "blk_transactions (sb_block sb) = []"
  obtain left where "pending_from m a = txs_from a [] @ left" and
    "left \<noteq> [] \<longrightarrow> length ([] :: transaction list) = bp_max_txs p \<or>
       (\<exists>pre post s1. [] = pre @ post \<and> apply_txs pr L pre s = (Ok (), s1) \<and>
          \<not> tx_admissible L (hd left) s1 \<and> txs_from a post = [])"
    using build_block_prefix [OF assms(1-3) empty [symmetric], of a] by blast
  with assms(4-6) show False by simp
qed

text \<open>
  C19: a pending transaction whose nonce the chain has already passed blocks its sender: no
  block built from the pool, on the state in question, holds any transaction of that sender,
  whatever else it has pending.
\<close>

theorem stale_tx_blocks_sender:
  assumes "mempool_ok L m" and "key_order it" and "build_block pr L it p m s = Ok sb"
    and "t \<in> pool_txs m" and "tx_nonce t < get_nonce s (tx_from t)"
  shows "txs_from (tx_from t) (blk_transactions (sb_block sb)) = []"
proof (rule ccontr)
  let ?a = "tx_from t" and ?txs = "blk_transactions (sb_block sb)"
  assume ne: "txs_from ?a ?txs \<noteq> []"
  obtain k s' where k: "?txs = taken m k (senders it m)" "apply_txs pr L ?txs s = (Ok (), s')"
    "\<And>a. k a \<le> length (pending_from m a)"
    using build_block_selection [OF assms(1-3)] by blast
  have mine: "txs_from ?a ?txs = take (k ?a) (pending_from m ?a)"
    unfolding k(1) by (rule txs_from_taken [OF assms(1,2) k(3)])
  obtain u us where u: "pending_from m ?a = u # us" using ne mine by (cases "pending_from m ?a") auto
  then obtain vs where vs: "txs_from ?a ?txs = u # vs" using ne mine by (cases "k ?a") auto
  then have "tx_nonce u = get_nonce s ?a"
    using apply_txs_nonces [OF k(2), of ?a] by (simp add: upt_conv_Cons del: upt_Suc)
  moreover have "tx_nonce u \<le> tx_nonce t"
    by (rule pool_queues.queue_head_least [OF assms(1) u assms(4) refl])
  ultimately show False using assms(5) by simp
qed


subsection \<open>Witnesses\<close>

definition sample_params :: "address build_params" where
  "sample_params = \<lparr>bp_parent = genesis, bp_timestamp = 5, bp_proposer = repeat_byte 3, bp_max_txs = 10\<rparr>"

lemma sample_senders: "senders sorted_list_of_fset sample_pool = [repeat_byte 1]"
  by (simp add: senders_def sample_pool_def pool_add_def index_insert_def mempool_with_capacity_def
      sorted_list_of_fset.rep_eq)

lemma sample_pending: "pending_from sample_pool (repeat_byte 1) = [stx 10 0, stx 20 1]"
  by (simp add: pending_from_def sample_pool_def pool_add_def index_insert_def mempool_with_capacity_def
      bt_values_def bt_keys_def sorted_list_of_fset.rep_eq List.map_filter_simps tx_hash_stx)


lemma apply_stx:
  "get_account s (repeat_byte 1) = \<lparr>acct_balance = b, acct_nonce = n\<rparr> \<Longrightarrow> a \<le> b \<Longrightarrow> n \<noteq> u64_max \<Longrightarrow>
   unat (get_balance s (repeat_byte 2)) + unat a < 2 ^ 64 \<Longrightarrow>
   apply_transaction pr sample_libs (stx a n) s = (Ok (), transfer (stx a n) s)"
  by (intro apply_transaction_admissible) (simp_all add: tx_admissible_def get_balance_account get_nonce_account)

lemma sample_select:
  "2 < n \<Longrightarrow>
   select_senders pr sample_libs n sample_pool (senders sorted_list_of_fset sample_pool) sample_state [] =
     Some (transfer (stx 20 1) (transfer (stx 10 0) sample_state), [stx 10 0, stx 20 1])"
  unfolding sample_senders
  by (simp add: sample_pending apply_stx [where b = 1000] apply_stx [where b = 990]
      get_account_transfer get_balance_account Let_def default_account_def)

text \<open>The block built on a parent at a given time.\<close>

definition sample_on :: "block \<Rightarrow> u64 \<Rightarrow> block" where
  "sample_on p t =
     \<lparr>blk_header = \<lparr>hd_height = block_height p + 1, hd_parent_hash = block_hash sample_libs p,
                     hd_tx_root = tx_root sample_libs [stx 10 0, stx 20 1], hd_timestamp = t,
                     hd_proposer = repeat_byte 3\<rparr>,
      blk_transactions = [stx 10 0, stx 20 1]\<rparr>"

definition sample_signed :: "block \<Rightarrow> signed_block" where
  "sample_signed b = \<lparr>sb_block = b,
     sb_signature = lib_sign sample_libs (repeat_byte 3) (signing_bytes sample_libs b)\<rparr>"

lemma sample_build_on:
  "2 < n \<Longrightarrow> block_height p \<noteq> u64_max \<Longrightarrow>
   build_block pr sample_libs sorted_list_of_fset
     \<lparr>bp_parent = p, bp_timestamp = t, bp_proposer = repeat_byte 3, bp_max_txs = n\<rparr> sample_pool sample_state =
   Ok (sample_signed (sample_on p t))"
  by (simp add: build_block_def sample_select add_u64_one block_new_eq block_height_def
      sign_block_def sample_signed_def sample_on_def)

definition sample_built :: block where
  "sample_built = sample_on genesis 5"

lemma genesis_height [simp]: "block_height genesis = 0"
  by (simp add: block_height_def genesis_def)

lemma sample_build:
  "build_block pr sample_libs sorted_list_of_fset sample_params sample_pool sample_state =
   Ok (sample_signed sample_built)"
  by (simp add: sample_params_def sample_build_on sample_built_def)

lemma sample_built_txs [simp]: "blk_transactions (sample_on p t) = [stx 10 0, stx 20 1]"
  by (simp add: sample_on_def)

theorem build_block_correct_witness:
  "is_ok (build_block Debug sample_libs sorted_list_of_fset sample_params sample_pool sample_state) \<and>
   (\<exists>s'. apply_block Debug sample_libs sample_built sample_state = (Ok (), s')) \<and>
   blk_transactions sample_built = [stx 10 0, stx 20 1]"
  using build_block_correct [OF sample_pool_ok key_order_sorted,
      where pr = Debug and p = sample_params and s = sample_state]
  by (simp add: sample_build Let_def sample_signed_def sample_built_def)

theorem built_block_verifies_witness: "verify_block sample_libs (sample_signed sample_built) = Inr ()"
  by (rule built_block_verifies [OF sample_ed25519_laws sample_build [of Debug]])

theorem build_block_greedy_witness:
  "\<exists>left. pending_from sample_pool (repeat_byte 1) = [stx 10 0, stx 20 1] @ left"
  using build_block_greedy [OF sample_pool_ok key_order_sorted sample_build [of Debug] refl, of "repeat_byte 1"]
  by (auto simp: sample_signed_def sample_built_def)

theorem build_block_progress_witness: "blk_transactions sample_built \<noteq> []"
proof -
  have "tx_admissible sample_libs (stx 10 0) sample_state"
    by (simp add: tx_admissible_def get_balance_account get_nonce_account default_account_def)
  from build_block_progress [OF sample_pool_ok key_order_sorted sample_build [of Debug] sample_pending this]
  show ?thesis by (simp add: sample_params_def sample_signed_def sample_built_def)
qed

text \<open>
  Another transaction with nonce 0 was finalized: the pending transaction with nonce 1 is
  admissible, but the one with nonce 0 keeps it out of every block.
\<close>

definition sample_passed :: state_store where
  "sample_passed = transfer (stx 30 0) sample_state"

theorem stale_tx_blocks_sender_witness:
  "tx_admissible sample_libs (stx 20 1) sample_passed \<and> stx 20 1 \<in> pool_txs sample_pool \<and>
   (\<exists>sb. build_block Release sample_libs sorted_list_of_fset sample_params sample_pool sample_passed = Ok sb \<and>
      txs_from (repeat_byte 1) (blk_transactions (sb_block sb)) = [])"
proof -
  let ?build = "build_block Release sample_libs sorted_list_of_fset sample_params sample_pool sample_passed"
  have "?build \<noteq> Panic"
    using build_block_panic [OF sample_pool_ok key_order_sorted, of Release] by blast
  then obtain sb where sb: "?build = Ok sb"
    using build_block_never_err by (cases ?build) blast+
  have "tx_nonce (stx 10 0) < get_nonce sample_passed (tx_from (stx 10 0))"
    by (simp add: sample_passed_def get_nonce_account get_account_transfer)
  from stale_tx_blocks_sender [OF sample_pool_ok key_order_sorted sb _ this] sb show ?thesis
    by (auto simp: sample_pool_txs sample_passed_def tx_admissible_def get_balance_account
        get_nonce_account get_account_transfer Let_def default_account_def)
qed

end
