(* ===== verification/Application.thy ===== *)
theory Application
  imports Builder Block_Store
begin

text \<open>
  \<open>crates/consensus/src/app/actor.rs\<close>: the application actor, which owns the chain state, the
  finalized blocks, the pool and the blocks known but not finalized, and answers the consensus
  engine. The log lines are left out.
\<close>

section \<open>Operations\<close>

definition APP_MAX_TXS_PER_BLOCK :: nat where
  "APP_MAX_TXS_PER_BLOCK = 1024"

definition BLOCKS_OUT_CAPACITY :: nat where
  "BLOCKS_OUT_CAPACITY = 256"

record 'sk app_config =
  cfg_mailbox_size :: nat
  cfg_signer :: 'sk
  cfg_genesis :: block

text \<open>
  The runtime context and the receiving end of the mailbox are not part of the record: the
  messages are an argument of \<open>app_run\<close>. \<open>app_blocks_out\<close> is the queue of the outbound channel.
\<close>

record 'sk application =
  app_signer :: 'sk
  app_state :: state_store
  app_blocks :: block_store
  app_mempool :: mempool
  app_pending :: "(digest, block) hash_map"
  app_genesis_digest :: digest
  app_blocks_out :: "u8 list list"

definition app_new ::
  "('sk, 'vk) libs \<Rightarrow> state_store \<Rightarrow> block_store \<Rightarrow> mempool \<Rightarrow> 'sk app_config \<Rightarrow> 'sk application" where
  "app_new L state blocks pool config =
     \<lparr>app_signer = cfg_signer config, app_state = state, app_blocks = blocks, app_mempool = pool,
      app_pending = fmempty, app_genesis_digest = block_hash L (cfg_genesis config),
      app_blocks_out = []\<rparr>"

definition broadcast_block :: "('sk, 'vk) libs \<Rightarrow> digest \<Rightarrow> 'sk application \<Rightarrow> 'sk application" where
  "broadcast_block L digest app =
     (case fmlookup (app_pending app) digest of
        None \<Rightarrow> app
      | Some b \<Rightarrow>
          (if lib_accepts L BLOCKS_OUT_CAPACITY (app_blocks_out app)
           then app\<lparr>app_blocks_out := app_blocks_out app @ [block_encode L b]\<rparr>
           else app))"

definition store_block :: "('sk, 'vk) libs \<Rightarrow> u8 list \<Rightarrow> 'sk application \<Rightarrow> 'sk application" where
  "store_block L bytes app =
     (case block_decode L bytes of
        Inr b \<Rightarrow> app\<lparr>app_pending := fmupd (block_hash L b) b (app_pending app)\<rparr>
      | Inl _ \<Rightarrow> app)"

definition block_by_digest :: "'sk application \<Rightarrow> digest \<Rightarrow> block option" where
  "block_by_digest app digest =
     (case fmlookup (app_pending app) digest of
        Some b \<Rightarrow> Some b
      | None \<Rightarrow> get_by_hash (app_blocks app) digest)"

text \<open>
  A reading of the system clock is the number of seconds since the epoch, or \<open>None\<close> if the
  clock is set before it.
\<close>

definition now_secs :: "u64 option \<Rightarrow> u64" where
  "now_secs clock = (case clock of Some secs \<Rightarrow> secs | None \<Rightarrow> 0)"

definition propose ::
  "profile \<Rightarrow> ('sk, 'vk) libs \<Rightarrow> address iter_order \<Rightarrow> u64 option \<Rightarrow> digest \<Rightarrow> 'sk application \<Rightarrow>
     (consensus_error, digest) res \<times> 'sk application" where
  "propose pr L it clock parent app =
     (case block_by_digest app parent of
        None \<Rightarrow> (Err (Internal ''propose: parent unknown''), app)
      | Some parent_block \<Rightarrow>
          (case build_block pr L it
                  \<lparr>bp_parent = parent_block, bp_timestamp = now_secs clock,
                   bp_proposer = app_signer app, bp_max_txs = APP_MAX_TXS_PER_BLOCK\<rparr>
                  (app_mempool app) (app_state app) of
             Panic \<Rightarrow> (Panic, app)
           | Err e \<Rightarrow> (Err e, app)
           | Ok sblock \<Rightarrow>
               (case verify_block L sblock of
                  Inl e \<Rightarrow> (Err (ConsensusTypes e), app)
                | Inr _ \<Rightarrow>
                    (let digest = block_hash L (sb_block sblock)
                     in (Ok digest,
                         app\<lparr>app_pending := fmupd digest (sb_block sblock) (app_pending app)\<rparr>)))))"

text \<open>\<open>verify\<close> answers yes or no; \<open>None\<close> is a panic.\<close>

definition verify ::
  "profile \<Rightarrow> ('sk, 'vk) libs \<Rightarrow> digest \<Rightarrow> digest \<Rightarrow> 'sk application \<Rightarrow> bool option" where
  "verify pr L parent digest app =
     (case fmlookup (app_pending app) digest of
        None \<Rightarrow> Some False
      | Some b \<Rightarrow>
          if hd_parent_hash (blk_header b) \<noteq> parent then Some False
          else
            (case (case block_by_digest app parent of
                     None \<Rightarrow> Some True
                   | Some parent_block \<Rightarrow>
                       (case add_u64 pr (hd_height (blk_header parent_block)) 1 of
                          None \<Rightarrow> None
                        | Some h \<Rightarrow> Some (hd_height (blk_header b) = h))) of
               None \<Rightarrow> None
             | Some False \<Rightarrow> Some False
             | Some True \<Rightarrow>
                 (case tip (app_blocks app) of
                    None \<Rightarrow> Some True
                  | Some t \<Rightarrow>
                      if block_hash L t = parent
                      then (case fst (apply_block pr L b (app_state app)) of
                              Ok _ \<Rightarrow> Some True | Err _ \<Rightarrow> Some False | Panic \<Rightarrow> None)
                      else Some True)))"

text \<open>\<open>for tx in &block.transactions { self.mempool.remove(&tx.hash()); }\<close>.\<close>

definition remove_included :: "('sk, 'vk) libs \<Rightarrow> transaction list \<Rightarrow> mempool \<Rightarrow> mempool" where
  "remove_included L txs m = fold (\<lambda>tx m. snd (mempool_remove (tx_hash L tx) m)) txs m"

definition finalize ::
  "profile \<Rightarrow> ('sk, 'vk) libs \<Rightarrow> digest \<Rightarrow> 'sk application \<Rightarrow>
     (consensus_error, unit) res \<times> 'sk application" where
  "finalize pr L digest app =
     (case fmlookup (app_pending app) digest of
        None \<Rightarrow> (Err (Internal ''finalize: block missing''), app)
      | Some b \<Rightarrow>
          (let app1 = app\<lparr>app_pending := fmdrop digest (app_pending app)\<rparr>
           in case apply_block pr L b (app_state app1) of
                (Panic, s) \<Rightarrow> (Panic, app1\<lparr>app_state := s\<rparr>)
              | (Err e, s) \<Rightarrow> (Err (ConsensusStorage e), app1\<lparr>app_state := s\<rparr>)
              | (Ok _, s) \<Rightarrow>
                  (let app2 = app1\<lparr>app_state := s,
                                   app_mempool := remove_included L (blk_transactions b) (app_mempool app1)\<rparr>
                   in (Ok (), app2\<lparr>app_blocks := block_store_insert L b (app_blocks app2)\<rparr>))))"


section \<open>The actor loop\<close>

text \<open>
  \<open>Message\<close> of \<open>ingress.rs\<close>. The response channel a message carries is modelled by the reply
  of the step that handles it: \<open>NoReply\<close> when the channel is dropped unanswered or there is
  none. An epoch is a number.
\<close>

datatype message =
    Genesis nat
  | Propose digest
  | Verify digest digest
  | Finalize digest
  | Broadcast digest
  | StoreBlock "u8 list"

datatype reply = ReplyDigest digest | ReplyBool bool | NoReply

text \<open>What a step reads from outside: the iteration order of a map, and the clock.\<close>

record environment =
  env_senders :: "address iter_order"
  env_clock :: "u64 option"

text \<open>One round of the loop in \<open>run\<close>; \<open>None\<close> is a panic of the actor's task.\<close>

definition handle_message ::
  "profile \<Rightarrow> ('sk, 'vk) libs \<Rightarrow> environment \<Rightarrow> message \<Rightarrow> 'sk application \<Rightarrow>
     (reply \<times> 'sk application) option" where
  "handle_message pr L env msg app =
     (case msg of
        Genesis epoch \<Rightarrow>
          if epoch \<noteq> 0 then None else Some (ReplyDigest (app_genesis_digest app), app)
      | Propose parent \<Rightarrow>
          (case propose pr L (env_senders env) (env_clock env) parent app of
             (Ok digest, app') \<Rightarrow> Some (ReplyDigest digest, app')
           | (Err _, app') \<Rightarrow> Some (NoReply, app')
           | (Panic, _) \<Rightarrow> None)
      | Verify parent digest \<Rightarrow>
          (case verify pr L parent digest app of
             None \<Rightarrow> None
           | Some ok \<Rightarrow> Some (ReplyBool ok, app))
      | Finalize digest \<Rightarrow>
          (case finalize pr L digest app of
             (Ok _, app') \<Rightarrow> Some (NoReply, app')
           | (Err _, app') \<Rightarrow> Some (NoReply, app')
           | (Panic, _) \<Rightarrow> None)
      | Broadcast digest \<Rightarrow> Some (NoReply, broadcast_block L digest app)
      | StoreBlock bytes \<Rightarrow> Some (NoReply, store_block L bytes app))"

text \<open>The loop over the messages received, with what each step reads from outside.\<close>

fun app_run ::
  "profile \<Rightarrow> ('sk, 'vk) libs \<Rightarrow> (environment \<times> message) list \<Rightarrow> 'sk application \<Rightarrow>
     (reply list \<times> 'sk application) option" where
  "app_run pr L [] app = Some ([], app)"
| "app_run pr L ((env, msg) # rest) app =
     (case handle_message pr L env msg app of
        None \<Rightarrow> None
      | Some (reply, app') \<Rightarrow>
          (case app_run pr L rest app' of
             None \<Rightarrow> None
           | Some (replies, app'') \<Rightarrow> Some (reply # replies, app'')))"


section \<open>Finalization\<close>

lemma remove_included_eq: "remove_included L txs m = pool.rem_all (map (tx_hash L) txs) m"
  by (simp add: remove_included_def pool.rem_all_def fold_map comp_def)

lemma remove_included_get:
  "mempool_get (remove_included L txs m) h = (if h \<in> tx_hash L ` set txs then None else mempool_get m h)"
  by (simp add: remove_included_eq pool.find_rem_all restrict_map_def)

lemma remove_included_ok: "mempool_ok L m \<Longrightarrow> mempool_ok L (remove_included L txs m)"
  by (simp add: remove_included_eq pool.invar_rem_all)

lemma pool_txs_remove_included:
  assumes "mempool_ok L m"
  shows "pool_txs (remove_included L txs m) = {t \<in> pool_txs m. tx_hash L t \<notin> tx_hash L ` set txs}"
  using mempool_ok_get(1) [OF assms]
  by (auto simp: pool_txs_def remove_included_get split: if_splits)

text \<open>The actor after it has committed a block.\<close>

definition committed ::
  "('sk, 'vk) libs \<Rightarrow> digest \<Rightarrow> block \<Rightarrow> state_store \<Rightarrow> 'sk application \<Rightarrow> 'sk application" where
  "committed L d b s app =
     app\<lparr>app_pending := fmdrop d (app_pending app), app_state := s,
         app_mempool := remove_included L (blk_transactions b) (app_mempool app),
         app_blocks := block_store_insert L b (app_blocks app)\<rparr>"

lemma committed_simps [simp]:
  "app_pending (committed L d b s app) = fmdrop d (app_pending app)"
  "app_state (committed L d b s app) = s"
  "app_mempool (committed L d b s app) = remove_included L (blk_transactions b) (app_mempool app)"
  "app_blocks (committed L d b s app) = block_store_insert L b (app_blocks app)"
  "app_genesis_digest (committed L d b s app) = app_genesis_digest app"
  "app_signer (committed L d b s app) = app_signer app"
  "app_blocks_out (committed L d b s app) = app_blocks_out app"
  by (simp_all add: committed_def)

lemma finalize_Ok_iff:
  "finalize pr L d app = (Ok u, app') \<longleftrightarrow>
     (\<exists>b s. fmlookup (app_pending app) d = Some b \<and> apply_block pr L b (app_state app) = (Ok (), s) \<and>
        app' = committed L d b s app)"
  by (auto simp: finalize_def Let_def committed_def split: option.splits prod.splits res.splits)

lemma apply_block_Err_state: "apply_block pr L b s = (Err e, s') \<Longrightarrow> s' = s"
  by (simp add: apply_block_Err_iff)

lemma finalize_Err_iff:
  "finalize pr L d app = (Err e, app') \<longleftrightarrow>
     fmlookup (app_pending app) d = None \<and> e = Internal ''finalize: block missing'' \<and> app' = app \<or>
     (\<exists>b e'. fmlookup (app_pending app) d = Some b \<and>
        apply_block pr L b (app_state app) = (Err e', app_state app) \<and> e = ConsensusStorage e' \<and>
        app' = app\<lparr>app_pending := fmdrop d (app_pending app)\<rparr>)"
  by (auto simp: finalize_def Let_def split: option.splits prod.splits res.splits
      dest: apply_block_Err_state)

lemma apply_block_Release: "apply_block Release L b s \<noteq> (Panic, s')"
  using apply_txs_Release [of L "blk_transactions b" s] by (auto simp: apply_block_Panic_iff)

lemma finalize_Panic:
  "fst (finalize pr L d app) = Panic \<Longrightarrow> pr = Debug"
  by (cases pr) (auto simp: finalize_def Let_def apply_block_Release split: option.splits prod.splits res.splits)

text \<open>What the verification of a proposal whose parent is the finalized tip looks at.\<close>

lemma verify_at_tip_iff:
  assumes "tip (app_blocks app) = Some t" and "block_by_digest app (block_hash L t) = Some p"
  shows "verify pr L (block_hash L t) d app = Some True \<longleftrightarrow>
    (\<exists>b s. fmlookup (app_pending app) d = Some b \<and> block_parent b = block_hash L t \<and>
       add_u64 pr (block_height p) 1 = Some (block_height b) \<and>
       apply_block pr L b (app_state app) = (Ok (), s))"
  using assms
  by (auto simp: verify_def block_parent_def block_height_def
      split: option.splits bool.splits res.splits prod.splits if_splits)
    (metis fst_conv prod.collapse res.exhaust old.unit.exhaust)+

lemma tip_by_hash:
  assumes "bs_keyed L s" and "tip s = Some t"
  shows "get_by_hash s (block_hash L t) = Some t"
proof -
  obtain h where "fmlookup (bs_blocks s) h = Some t"
    using assms(2) by (auto simp: tip_def get_by_height_def split: if_splits option.splits)
  moreover from this have "h = block_hash L t" using assms(1) unfolding bs_keyed_def by blast
  ultimately show ?thesis by (simp add: get_by_hash_def)
qed

lemma tip_insert_higher:
  assumes "bs_indexed s" and "tip s = Some t" and "block_height t < block_height b"
  shows "tip (block_store_insert L b s) = Some b"
proof -
  have ne: "fmdom (bs_height_index s) \<noteq> {||}" using assms(2) by (auto simp: tip_def split: if_splits)
  have "block_height t = fMax (fmdom (bs_height_index s))" using tip_Some [OF assms(1,2)] by blast
  then have "fMax (finsert (block_height b) (fmdom (bs_height_index s))) = block_height b"
    using ne assms(3) by simp
  then show ?thesis by (simp add: tip_def)
qed

lemma less_inc_u64: "(n :: u64) \<noteq> u64_max \<Longrightarrow> n < n + 1"
  using unat_inc_u64 [of n] by (simp add: word_less_nat_alt)


section \<open>Proposals\<close>

text \<open>Everything a successful proposal did.\<close>

lemma propose_Ok:
  assumes "propose pr L it clock parent app = (Ok d, app')"
  shows "\<exists>p sb. block_by_digest app parent = Some p \<and>
    build_block pr L it
      \<lparr>bp_parent = p, bp_timestamp = now_secs clock, bp_proposer = app_signer app,
       bp_max_txs = APP_MAX_TXS_PER_BLOCK\<rparr> (app_mempool app) (app_state app) = Ok sb \<and>
    verify_block L sb = Inr () \<and> d = block_hash L (sb_block sb) \<and>
    app' = app\<lparr>app_pending := fmupd d (sb_block sb) (app_pending app)\<rparr>"
  using assms
  by (auto simp: propose_def Let_def split: option.splits res.splits sum.splits)

text \<open>A sender's only transaction, if it is admissible, is all of a proposal.\<close>

lemma propose_single:
  assumes "mempool_ok L (app_mempool app)" and "key_order it"
    and "propose pr L it clock parent app = (Ok d, app')" and "fmlookup (app_pending app') d = Some b"
    and "pool_txs (app_mempool app) = {t}" and "tx_admissible L t (app_state app)"
  shows "blk_transactions b = [t]"
proof -
  obtain p sb where build: "build_block pr L it
      \<lparr>bp_parent = p, bp_timestamp = now_secs clock, bp_proposer = app_signer app,
       bp_max_txs = APP_MAX_TXS_PER_BLOCK\<rparr> (app_mempool app) (app_state app) = Ok sb"
    and b: "b = sb_block sb"
    using propose_Ok [OF assms(3)] assms(4) by auto
  let ?m = "app_mempool app" and ?txs = "blk_transactions b"
  have "set (pending_from ?m (tx_from t)) = {t}"
    using assms(5) by (auto simp: pending_from_set [OF assms(1)])
  then have mine: "pending_from ?m (tx_from t) = [t]"
    by (rule distinct_set_single [OF pool_queues.queue_distinct [OF assms(1)]])
  obtain left where "pending_from ?m (tx_from t) = txs_from (tx_from t) ?txs @ left"
    and "left \<noteq> [] \<longrightarrow> length ?txs = APP_MAX_TXS_PER_BLOCK \<or>
       (\<exists>pre post s1. ?txs = pre @ post \<and> apply_txs pr L pre (app_state app) = (Ok (), s1) \<and>
          \<not> tx_admissible L (hd left) s1 \<and> txs_from (tx_from t) post = [])"
    using build_block_prefix [OF assms(1,2) build, of ?txs "tx_from t"] b by auto
  then have "?txs \<noteq> []"
    using mine assms(6) by (auto simp: APP_MAX_TXS_PER_BLOCK_def)
  moreover have "distinct ?txs" "set ?txs \<subseteq> {t}"
    using build_block_members [OF assms(1,2) build] assms(5) b by auto
  ultimately show ?thesis by (intro distinct_set_single) (auto simp: subset_singleton_iff)
qed

lemma propose_block:
  assumes "mempool_ok L (app_mempool app)" and "key_order it"
    and "propose pr L it clock parent app = (Ok d, app')"
  shows "\<exists>p b s'. block_by_digest app parent = Some p \<and> fmlookup (app_pending app') d = Some b \<and>
    app' = app\<lparr>app_pending := fmupd d b (app_pending app)\<rparr> \<and> d = block_hash L b \<and>
    block_parent b = block_hash L p \<and> add_u64 pr (block_height p) 1 = Some (block_height b) \<and>
    apply_block pr L b (app_state app) = (Ok (), s') \<and>
    set (blk_transactions b) \<subseteq> pool_txs (app_mempool app) \<and>
    length (blk_transactions b) \<le> APP_MAX_TXS_PER_BLOCK"
proof -
  obtain p sb where p: "block_by_digest app parent = Some p" and
    built: "build_block pr L it
      \<lparr>bp_parent = p, bp_timestamp = now_secs clock, bp_proposer = app_signer app,
       bp_max_txs = APP_MAX_TXS_PER_BLOCK\<rparr> (app_mempool app) (app_state app) = Ok sb" and
    d: "d = block_hash L (sb_block sb)" and
    app': "app' = app\<lparr>app_pending := fmupd d (sb_block sb) (app_pending app)\<rparr>"
    using propose_Ok [OF assms(3)] by blast
  obtain k s' where k: "blk_transactions (sb_block sb) = taken (app_mempool app) k (senders it (app_mempool app))"
    "apply_txs pr L (blk_transactions (sb_block sb)) (app_state app) = (Ok (), s')"
    "length (blk_transactions (sb_block sb)) \<le> APP_MAX_TXS_PER_BLOCK"
    using build_block_selection [OF assms(1,2) built] by auto
  have "set (blk_transactions (sb_block sb)) \<subseteq> pool_txs (app_mempool app)"
    unfolding k(1) taken_def by (rule pool_queues.takes_members [OF assms(1)])
  moreover have "block_parent (sb_block sb) = block_hash L p \<and>
      add_u64 pr (block_height p) 1 = Some (block_height (sb_block sb))"
    using build_block_Ok [OF built] by (auto simp: block_parent_def block_height_def add_u64_one)
  ultimately show ?thesis using p d app' k(2,3)
    by (intro exI [of _ p] exI [of _ "sb_block sb"] exI [of _ s']) (auto simp: apply_block_Ok_iff)
qed

lemma propose_builds:
  assumes "ed25519_laws L" and "block_by_digest app parent = Some p"
    and "build_block pr L it \<lparr>bp_parent = p, bp_timestamp = now_secs clock, bp_proposer = app_signer app,
       bp_max_txs = APP_MAX_TXS_PER_BLOCK\<rparr> (app_mempool app) (app_state app) \<noteq> Panic"
  shows "\<exists>d app'. propose pr L it clock parent app = (Ok d, app')"
proof -
  let ?build = "build_block pr L it \<lparr>bp_parent = p, bp_timestamp = now_secs clock, bp_proposer = app_signer app,
       bp_max_txs = APP_MAX_TXS_PER_BLOCK\<rparr> (app_mempool app) (app_state app)"
  obtain sb where sb: "?build = Ok sb" using assms(3) build_block_never_err by (cases ?build) blast+
  then have "verify_block L sb = Inr ()"
    using build_block_Ok [OF sb] sign_block_verifies [OF assms(1)] by blast
  then show ?thesis using assms(2) sb by (simp add: propose_def Let_def)
qed

text \<open>A proposal succeeds, whatever is pending, while every nonce is at least a block below its bound.\<close>

lemma propose_with_room:
  assumes "ed25519_laws L" and "block_by_digest app parent = Some p" and "block_height p \<noteq> u64_max"
    and "nonce_room (app_state app) APP_MAX_TXS_PER_BLOCK"
  shows "\<exists>d app'. propose pr L it clock parent app = (Ok d, app')"
  using assms(3,4) by (intro propose_builds [OF assms(1,2)] build_block_room) (simp_all add: block_height_def)

lemma propose_succeeds:
  assumes "ed25519_laws L" and "mempool_ok L (app_mempool app)" and "key_order it"
    and "block_by_digest app parent = Some p"
    and "\<not> (pr = Debug \<and> (block_height p = u64_max \<or> (\<exists>t \<in> pool_txs (app_mempool app). tx_nonce t = u64_max)))"
  shows "\<exists>d app'. propose pr L it clock parent app = (Ok d, app')"
proof -
  let ?params = "\<lparr>bp_parent = p, bp_timestamp = now_secs clock, bp_proposer = app_signer app,
       bp_max_txs = APP_MAX_TXS_PER_BLOCK\<rparr>"
  let ?build = "build_block pr L it ?params (app_mempool app) (app_state app)"
  have "?build \<noteq> Panic"
    using build_block_panic [OF assms(2,3), where p = ?params] assms(5) by (auto simp: block_height_def)
  then show ?thesis by (rule propose_builds [OF assms(1,4)])
qed

lemma propose_known:
  assumes "ed25519_laws L" and "block_by_digest app parent = Some p"
  shows "propose pr L it clock parent app \<noteq> (Err e, app')"
proof -
  have "verify_block L sb = Inr ()" if "build_block pr L it q m s = Ok sb" for q m s sb
    using build_block_Ok [OF that] sign_block_verifies [OF assms(1)] by blast
  then show ?thesis
    using assms(2) unfolding propose_def
    by (auto simp: Let_def build_block_never_err split: res.splits sum.splits)
qed

text \<open>What is selected does not depend on the parent, nor on the blocks known.\<close>

lemma propose_same_txs:
  assumes "propose pr L it clock parent app = (Ok d, app')"
    and "propose pr L it clock' parent' app2 = (Ok d2, app3)"
    and "app_mempool app2 = app_mempool app" and "app_state app2 = app_state app"
    and "fmlookup (app_pending app') d = Some b" and "fmlookup (app_pending app3) d2 = Some c"
  shows "blk_transactions c = blk_transactions b"
proof -
  obtain p sb where p: "build_block pr L it
      \<lparr>bp_parent = p, bp_timestamp = now_secs clock, bp_proposer = app_signer app,
       bp_max_txs = APP_MAX_TXS_PER_BLOCK\<rparr> (app_mempool app) (app_state app) = Ok sb" "b = sb_block sb"
    using propose_Ok [OF assms(1)] assms(5) by auto
  obtain p2 sc where p2: "build_block pr L it
      \<lparr>bp_parent = p2, bp_timestamp = now_secs clock', bp_proposer = app_signer app2,
       bp_max_txs = APP_MAX_TXS_PER_BLOCK\<rparr> (app_mempool app) (app_state app) = Ok sc" "c = sb_block sc"
    using propose_Ok [OF assms(2)] assms(3,4,6) by auto
  show ?thesis using build_block_Ok [OF p(1)] build_block_Ok [OF p2(1)] p(2) p2(2) by auto
qed

text \<open>A block whose first transaction has been applied since cannot be applied.\<close>

lemma apply_block_again:
  assumes "apply_txs pr L txs s = (Ok (), s')" and "blk_transactions b = txs" and "txs \<noteq> []"
    and "length txs < 2 ^ 64"
  shows "\<exists>e. apply_block pr L b s' = (Err e, s')"
proof -
  obtain t ts where t: "txs = t # ts" using assms(3) by (cases txs) auto
  have "length (txs_from (tx_from t) txs) < 2 ^ 64"
    using assms(4) length_filter_le [of "\<lambda>u. tx_from u = tx_from t" txs] unfolding txs_from_def by linarith
  then have "tx_nonce t \<noteq> get_nonce s' (tx_from t)"
    using applied_nonce_passed [OF assms(1)] t by simp
  then have "apply_transaction pr L t s' = (Err (reject_reason L t s'), s')"
    by (intro apply_transaction_reject) (simp add: tx_admissible_def)
  then show ?thesis
    using assms(2) t state_ledger.run_err [of pr L t s' _ s' ts] by (auto simp: apply_block_Err_iff)
qed


section \<open>Properties\<close>

text \<open>
  C9: finalizing. If the block is known and applies, its transactions take effect, they leave
  the pool and nothing else does, and the block is found by its digest and its height. On an
  error nothing but the set of known blocks changes; if the block is known but does not apply,
  it is dropped from that set all the same. A build without overflow checks does not panic.
\<close>

theorem finalize_correct:
  "case finalize pr L d app of
     (Ok _, app') \<Rightarrow>
       (\<exists>b. fmlookup (app_pending app) d = Some b \<and>
          apply_block pr L b (app_state app) = (Ok (), app_state app') \<and>
          (\<forall>h. mempool_get (app_mempool app') h =
             (if h \<in> tx_hash L ` set (blk_transactions b) then None else mempool_get (app_mempool app) h)) \<and>
          get_by_hash (app_blocks app') (block_hash L b) = Some b \<and>
          get_by_height (app_blocks app') (block_height b) = Some b) \<and>
       app_pending app' = fmdrop d (app_pending app)
   | (Err e, app') \<Rightarrow>
       app_state app' = app_state app \<and> app_mempool app' = app_mempool app \<and>
       app_blocks app' = app_blocks app \<and> app_pending app' = fmdrop d (app_pending app) \<and>
       (case fmlookup (app_pending app) d of
          None \<Rightarrow> e = Internal ''finalize: block missing''
        | Some b \<Rightarrow> \<exists>e'. fst (apply_block pr L b (app_state app)) = Err e' \<and> e = ConsensusStorage e')
   | (Panic, _) \<Rightarrow> pr = Debug"
proof (cases "finalize pr L d app")
  case (Pair r app')
  show ?thesis
  proof (cases r)
    case (Ok u)
    from Pair Ok have "finalize pr L d app = (Ok u, app')" by simp
    then obtain b s where "fmlookup (app_pending app) d = Some b"
      "apply_block pr L b (app_state app) = (Ok (), s)" "app' = committed L d b s app"
      unfolding finalize_Ok_iff by blast
    then show ?thesis unfolding Pair Ok
      by (simp add: remove_included_get store_by_hash.look_ins)
  next
    case (Err e)
    have "fmlookup (app_pending app) d = None \<Longrightarrow> fmdrop d (app_pending app) = app_pending app"
      by (rule fmdrop_idle') (simp add: fmdom'_notI)
    moreover from Pair Err have "finalize pr L d app = (Err e, app')" by simp
    note this [unfolded finalize_Err_iff]
    ultimately show ?thesis unfolding Pair Err by auto
  next
    case Panic
    with Pair show ?thesis using finalize_Panic [of pr L d app] by simp
  qed
qed

text \<open>
  C23: proposing: on a known parent a proposal succeeds, whatever is pending and whichever of it
  applies, in a build without overflow checks; with checks it succeeds unless the parent's
  height or a pending nonce is \<open>u64::MAX\<close>. On an unknown parent it reports so. It never changes
  the state, the pool or the finalized blocks.
\<close>

theorem propose_answers:
  assumes "ed25519_laws L" and "mempool_ok L (app_mempool app)" and "key_order it"
  shows "case propose pr L it clock parent app of
     (Ok d, app') \<Rightarrow>
       (\<exists>p b. block_by_digest app parent = Some p \<and> d = block_hash L b \<and> block_parent b = block_hash L p \<and>
          add_u64 pr (block_height p) 1 = Some (block_height b) \<and>
          (\<exists>s. apply_block pr L b (app_state app) = (Ok (), s)) \<and>
          length (blk_transactions b) \<le> 1024 \<and>
          app' = app\<lparr>app_pending := fmupd d b (app_pending app)\<rparr>)
   | (Err e, app') \<Rightarrow> app' = app \<and> block_by_digest app parent = None \<and>
       e = Internal ''propose: parent unknown''
   | (Panic, _) \<Rightarrow> pr = Debug \<and>
       (\<exists>p. block_by_digest app parent = Some p \<and>
          (block_height p = u64_max \<or> (\<exists>t \<in> pool_txs (app_mempool app). tx_nonce t = u64_max)))"
proof (cases "block_by_digest app parent")
  case None
  then show ?thesis by (simp add: propose_def)
next
  case (Some p)
  show ?thesis
  proof (cases "propose pr L it clock parent app")
    case (Pair r app')
    show ?thesis
    proof (cases r)
      case (Ok d)
      then show ?thesis using Pair Some propose_block [OF assms(2,3), of pr clock parent d app']
        by (auto simp: APP_MAX_TXS_PER_BLOCK_def)
    next
      case (Err e)
      then show ?thesis using Pair propose_known [OF assms(1) Some] by blast
    next
      case Panic
      then show ?thesis using Pair Some propose_succeeds [OF assms Some, of pr clock] by auto
    qed
  qed
qed

text \<open>
  C8: at the tip, verification decides finalization: a proposal on the finalized tip is
  accepted exactly if it is known, names the tip as its parent, has the next height, and can
  be finalized at once.
\<close>

theorem verify_decides_finalize:
  assumes "bs_keyed L (app_blocks app)" and "tip (app_blocks app) = Some t"
    and "fmlookup (app_pending app) (block_hash L t) = None"
  shows "verify pr L (block_hash L t) d app = Some True \<longleftrightarrow>
    (\<exists>b. fmlookup (app_pending app) d = Some b \<and> block_parent b = block_hash L t \<and>
       add_u64 pr (block_height t) 1 = Some (block_height b)) \<and>
    fst (finalize pr L d app) = Ok ()"
proof -
  have "block_by_digest app (block_hash L t) = Some t"
    using tip_by_hash [OF assms(1,2)] assms(3) by (simp add: block_by_digest_def)
  note v = verify_at_tip_iff [OF assms(2) this]
  have "fst (finalize pr L d app) = Ok () \<longleftrightarrow> (\<exists>b s. fmlookup (app_pending app) d = Some b \<and>
      apply_block pr L b (app_state app) = (Ok (), s))"
    using finalize_Ok_iff [of pr L d app "()"] by (metis fst_conv prod.collapse)
  then show ?thesis unfolding v by auto
qed

text \<open>
  C3: a node that proposes on its finalized tip accepts its own proposal and can finalize it:
  the block becomes the tip, one higher than the old one, its transactions, which were all
  pending, are gone from the pool, and no money is lost.
\<close>

theorem propose_verify_finalize:
  assumes "mempool_ok L (app_mempool app)" and "key_order it"
    and "bs_keyed L (app_blocks app)" and "bs_indexed (app_blocks app)"
    and "tip (app_blocks app) = Some t" and "fmlookup (app_pending app) (block_hash L t) = None"
    and "block_height t \<noteq> u64_max"
    and "propose pr L it clock (block_hash L t) app = (Ok d, app1)" and "d \<noteq> block_hash L t"
  shows "verify pr L (block_hash L t) d app1 = Some True \<and>
    (\<exists>b app2. finalize pr L d app1 = (Ok (), app2) \<and> d = block_hash L b \<and>
       block_parent b = block_hash L t \<and> block_height b = block_height t + 1 \<and>
       tip (app_blocks app2) = Some b \<and>
       set (blk_transactions b) \<subseteq> pool_txs (app_mempool app) \<and>
       pool_txs (app_mempool app2) = pool_txs (app_mempool app) - set (blk_transactions b) \<and>
       total_supply (app_state app2) = total_supply (app_state app))"
proof -
  have parent: "block_by_digest app (block_hash L t) = Some t"
    using tip_by_hash [OF assms(3,5)] assms(6) by (simp add: block_by_digest_def)
  obtain b s' where b: "fmlookup (app_pending app1) d = Some b"
    "app1 = app\<lparr>app_pending := fmupd d b (app_pending app)\<rparr>" "d = block_hash L b"
    "block_parent b = block_hash L t" "add_u64 pr (block_height t) 1 = Some (block_height b)"
    "apply_block pr L b (app_state app) = (Ok (), s')"
    "set (blk_transactions b) \<subseteq> pool_txs (app_mempool app)"
    using propose_block [OF assms(1,2,8)] parent by auto
  have height: "block_height b = block_height t + 1" using add_u64_Some [OF b(5)] .
  have "block_by_digest app1 (block_hash L t) = Some t"
    using parent assms(9) b(2) by (simp add: block_by_digest_def split: option.splits)
  then have "verify pr L (block_hash L t) d app1 = Some True"
    using b assms(5) by (subst verify_at_tip_iff [of _ t _ t]) auto
  moreover have "finalize pr L d app1 = (Ok (), committed L d b s' app1)"
    unfolding finalize_Ok_iff using b(1,2,6) by auto
  moreover have "tip (app_blocks (committed L d b s' app1)) = Some b"
    using tip_insert_higher [OF assms(4,5), of b L] less_inc_u64 [OF assms(7)] height b(2) by simp
  moreover have "pool_txs (app_mempool (committed L d b s' app1)) =
      pool_txs (app_mempool app) - set (blk_transactions b)"
    using b(2,7) pool_txs_same_hash [OF assms(1)]
    by (auto simp: pool_txs_remove_included [OF assms(1)])
  moreover have "total_supply s' = total_supply (app_state app)"
    using b(6) total_supply_apply_txs by (simp add: apply_block_Ok_iff)
  ultimately show ?thesis using b(3,4,7) height by auto
qed


text \<open>
  C17: proposals made before their parent is finalized collide with it. Let a node propose a block
  that is not empty and, before it is finalized, another one on top of it, with different digests
  that are not those of finalized blocks. The second block then holds the same transactions as the
  first, because selection starts from the finalized state and the whole pool. The node's own
  verification accepts the second block, but once the first one is finalized the second one
  cannot be: finalizing it fails, drops it, and the node can propose nothing on top of it.
\<close>

theorem pipelined_proposals_collide:
  assumes "mempool_ok L (app_mempool app)" and "key_order it" and "bs_keyed L (app_blocks app)"
    and "propose pr L it clock parent app = (Ok d1, app1)"
    and "propose pr L it clock' d1 app1 = (Ok d2, app2)"
    and "d1 \<noteq> d2" and "get_by_hash (app_blocks app) d1 = None" and "get_by_hash (app_blocks app) d2 = None"
    and "fmlookup (app_pending app2) d1 = Some b" and "blk_transactions b \<noteq> []"
    and "finalize pr L d1 app2 = (Ok (), app3)"
  shows "(\<exists>c. fmlookup (app_pending app2) d2 = Some c \<and> block_parent c = d1 \<and>
       blk_transactions c = blk_transactions b) \<and>
    verify pr L d1 d2 app2 = Some True \<and>
    (\<exists>e app4. finalize pr L d2 app3 = (Err (ConsensusStorage e), app4) \<and>
       app_state app4 = app_state app3 \<and> block_by_digest app4 d2 = None \<and>
       propose pr L it clock'' d2 app4 = (Err (Internal ''propose: parent unknown''), app4))"
proof -
  obtain s1 where b1: "fmlookup (app_pending app1) d1 = Some b"
    "app1 = app\<lparr>app_pending := fmupd d1 b (app_pending app)\<rparr>"
    "apply_block pr L b (app_state app) = (Ok (), s1)" "d1 = block_hash L b"
    "length (blk_transactions b) \<le> APP_MAX_TXS_PER_BLOCK"
    using propose_block [OF assms(1,2,4)] propose_Ok [OF assms(5)] assms(6,9) by fastforce
  have same: "app_mempool app1 = app_mempool app" "app_state app1 = app_state app"
    "app_blocks app1 = app_blocks app" using b1(2) by simp_all
  have known: "block_by_digest app1 d1 = Some b" using b1(1) by (simp add: block_by_digest_def)
  obtain c s2 where c: "fmlookup (app_pending app2) d2 = Some c"
    "app2 = app1\<lparr>app_pending := fmupd d2 c (app_pending app1)\<rparr>" "block_parent c = d1"
    "add_u64 pr (block_height b) 1 = Some (block_height c)"
    using propose_block [OF _ assms(2,5)] assms(1) same known b1(4) by auto
  have txs: "blk_transactions c = blk_transactions b"
    by (rule propose_same_txs [OF assms(4,5) same(1,2) b1(1) c(1)])
  have "block_by_digest app2 d1 = Some b" using assms(9) by (simp add: block_by_digest_def)
  moreover have "tip (app_blocks app2) = Some t \<Longrightarrow> block_hash L t \<noteq> d1" for t
    using tip_by_hash [OF assms(3)] assms(7) c(2) same(3) by auto
  ultimately have accepted: "verify pr L d1 d2 app2 = Some True"
    using c unfolding verify_def block_parent_def block_height_def
    by (auto split: option.split)
  have app3: "app3 = committed L d1 b s1 app2"
    using assms(9,11) b1(2,3) c(2) by (auto simp: finalize_Ok_iff)
  have "apply_txs pr L (blk_transactions b) (app_state app) = (Ok (), s1)"
    using b1(3) by (simp add: apply_block_Ok_iff)
  from apply_block_again [OF this txs assms(10)] b1(5)
  obtain e where e: "apply_block pr L c s1 = (Err e, s1)" by (auto simp: APP_MAX_TXS_PER_BLOCK_def)
  let ?app4 = "app3\<lparr>app_pending := fmdrop d2 (app_pending app3)\<rparr>"
  have fin: "finalize pr L d2 app3 = (Err (ConsensusStorage e), ?app4)"
    unfolding finalize_Err_iff using e c(1) assms(6) app3 by auto
  moreover have unknown: "block_by_digest ?app4 d2 = None"
    using app3 b1(2,4) c(2) assms(6,8) by (simp add: block_by_digest_def store_by_hash.look_ins)
  moreover have "propose pr L it clock'' d2 ?app4 = (Err (Internal ''propose: parent unknown''), ?app4)"
    by (simp add: propose_def unknown)
  ultimately have "\<exists>e app4. finalize pr L d2 app3 = (Err (ConsensusStorage e), app4) \<and>
      app_state app4 = app_state app3 \<and> block_by_digest app4 d2 = None \<and>
      propose pr L it clock'' d2 app4 = (Err (Internal ''propose: parent unknown''), app4)"
    by (intro exI conjI) auto
  then show ?thesis using accepted c(1,3) txs by blast
qed

text \<open>
  Relaying a proposal: the bytes a node queues for its peers decode at a peer to the very
  block it proposed, filed under the same digest; and a peer with the same finalized state and
  blocks accepts it.
\<close>

theorem relayed_proposal_verifies:
  assumes "codec_laws L" and "mempool_ok L (app_mempool app)" and "key_order it"
    and "bs_keyed L (app_blocks app)" and "tip (app_blocks app) = Some t"
    and "propose pr L it clock (block_hash L t) app = (Ok d, app1)" and "d \<noteq> block_hash L t"
    and "lib_accepts L BLOCKS_OUT_CAPACITY (app_blocks_out app1)"
    and "fmlookup (app_pending app) (block_hash L t) = None"
    and "fmlookup (app_pending peer) (block_hash L t) = None"
    and "app_state peer = app_state app" and "app_blocks peer = app_blocks app"
  shows "\<exists>bytes. app_blocks_out (broadcast_block L d app1) = app_blocks_out app1 @ [bytes] \<and>
    fmlookup (app_pending (store_block L bytes peer)) d = fmlookup (app_pending app1) d \<and>
    verify pr L (block_hash L t) d (store_block L bytes peer) = Some True"
proof -
  have by_hash: "get_by_hash (app_blocks app) (block_hash L t) = Some t"
    by (rule tip_by_hash [OF assms(4,5)])
  then have parent: "block_by_digest app (block_hash L t) = Some t"
    using assms(9) by (simp add: block_by_digest_def)
  obtain b s' where b: "fmlookup (app_pending app1) d = Some b" "d = block_hash L b"
    "block_parent b = block_hash L t" "add_u64 pr (block_height t) 1 = Some (block_height b)"
    "apply_block pr L b (app_state app) = (Ok (), s')"
    "length (blk_transactions b) \<le> APP_MAX_TXS_PER_BLOCK"
    using propose_block [OF assms(2,3,6)] parent by auto
  have "block_decode L (block_encode L b) = Inr b"
    using b(6) by (intro block_decode_encode [OF assms(1)])
      (simp add: APP_MAX_TXS_PER_BLOCK_def MAX_TXS_PER_BLOCK_def)
  then have stored: "store_block L (block_encode L b) peer =
      peer\<lparr>app_pending := fmupd d b (app_pending peer)\<rparr>"
    using b(2) by (simp add: store_block_def)
  then have "block_by_digest (store_block L (block_encode L b) peer) (block_hash L t) = Some t"
    using assms(7,10,12) by_hash by (simp add: block_by_digest_def)
  then have "verify pr L (block_hash L t) d (store_block L (block_encode L b) peer) = Some True"
    using b assms(5,11,12) stored by (subst verify_at_tip_iff [of _ t _ t]) auto
  moreover have "app_blocks_out (broadcast_block L d app1) = app_blocks_out app1 @ [block_encode L b]"
    using b(1) assms(8) by (simp add: broadcast_block_def)
  ultimately show ?thesis using b(1) stored by auto
qed

text \<open>
  C18: a digest does not fix what is finalized under it, since it covers the header alone: whoever
  sends bytes with the header of a known block and other transactions, within the limit of the wire
  format, replaces the block. From then on it is the replacement that is verified and finalized.
  As a proposal on the finalized tip, whose digest is another one, it is accepted exactly if the
  header names the tip and the next height and the replaced transactions apply, and finalizing the
  digest succeeds exactly if they do and commits them; that they do not belong to the root in the
  header makes no difference to either.
\<close>

theorem peer_replaces_transactions:
  assumes "codec_laws L" and "blk_header c = blk_header b"
    and "length (blk_transactions b) \<le> 16384" and "length (blk_transactions c) \<le> 16384"
  shows "let d = block_hash L b; app1 = store_block L (block_encode L b) app;
             app2 = store_block L (block_encode L c) app1
         in fmlookup (app_pending app1) d = Some b \<and> fmlookup (app_pending app2) d = Some c \<and>
            (\<forall>t. tip (app_blocks app) = Some t \<and> block_by_digest app (block_hash L t) = Some t \<and> d \<noteq> block_hash L t \<longrightarrow>
               (verify pr L (block_hash L t) d app2 = Some True \<longleftrightarrow>
                  block_parent b = block_hash L t \<and> add_u64 pr (block_height t) 1 = Some (block_height b) \<and>
                  fst (apply_block pr L c (app_state app)) = Ok ())) \<and>
            (\<forall>u app3. finalize pr L d app2 = (Ok u, app3) \<longleftrightarrow>
               (\<exists>s. apply_block pr L c (app_state app) = (Ok (), s) \<and> app3 = committed L d c s app2))"
proof -
  have "block_decode L (block_encode L b) = Inr b" "block_decode L (block_encode L c) = Inr c"
    using assms(3,4) by (auto intro!: block_decode_encode [OF assms(1)] simp: MAX_TXS_PER_BLOCK_def)
  moreover have hash: "block_hash L c = block_hash L b" using assms(2) by (simp add: block_hash_def)
  moreover define app1 app2 where "app1 = store_block L (block_encode L b) app"
    and "app2 = store_block L (block_encode L c) app1"
  ultimately have apps: "app_pending app1 = fmupd (block_hash L b) b (app_pending app)"
    "app_pending app2 = fmupd (block_hash L b) c (app_pending app1)"
    "app_blocks app2 = app_blocks app" "app_state app2 = app_state app"
    by (simp_all add: store_block_def)
  have "verify pr L (block_hash L t) (block_hash L b) app2 = Some True \<longleftrightarrow>
      block_parent b = block_hash L t \<and> add_u64 pr (block_height t) 1 = Some (block_height b) \<and>
      fst (apply_block pr L c (app_state app)) = Ok ()"
    if t: "tip (app_blocks app) = Some t" "block_by_digest app (block_hash L t) = Some t" "block_hash L b \<noteq> block_hash L t" for t
  proof -
    have "block_by_digest app2 (block_hash L t) = Some t" using t(2,3) apps 
      by (cases "fmlookup (app_pending app) (block_hash L t)") (simp_all add: block_by_digest_def)
    moreover have "(\<exists>s. apply_block pr L c (app_state app) = (Ok (), s)) \<longleftrightarrow> fst (apply_block pr L c (app_state app)) = Ok ()"
      by (cases "apply_block pr L c (app_state app)") auto
    ultimately show ?thesis
      using verify_at_tip_iff [of app2 t L t pr "block_hash L b"] t(1) apps assms(2)
      by (simp add: block_parent_def block_height_def)
  qed
  then show ?thesis
    using apps by (auto simp: Let_def app1_def [symmetric] app2_def [symmetric] finalize_Ok_iff)
qed


subsection \<open>Witnesses\<close>

definition sample_app :: "address application" where
  "sample_app = app_new sample_libs sample_state (store_of sample_libs [genesis]) sample_pool
     \<lparr>cfg_mailbox_size = 8, cfg_signer = repeat_byte 3, cfg_genesis = genesis\<rparr>"

lemma sample_app_simps [simp]:
  "app_signer sample_app = repeat_byte 3" "app_state sample_app = sample_state"
  "app_blocks sample_app = store_of sample_libs [genesis]" "app_mempool sample_app = sample_pool"
  "app_pending sample_app = fmempty" "app_blocks_out sample_app = []"
  by (simp_all add: sample_app_def app_new_def)

lemma store_genesis [simp]:
  "get_by_hash (store_of L [genesis]) h = (if h = block_hash L genesis then Some genesis else None)"
  "tip (store_of L [genesis]) = Some genesis"
  "bs_keyed L (store_of L [genesis])" "bs_indexed (store_of L [genesis])"
proof -
  have sep: "hash_separates L (set [genesis])" by (simp add: hash_separates_def)
  show "get_by_hash (store_of L [genesis]) h = (if h = block_hash L genesis then Some genesis else None)"
    by (simp add: store_of_def store_by_hash.look_ins)
  show "bs_indexed (store_of L [genesis])" using store_of_heights [OF sep] by blast
  have "bs_height_index block_store_new = fmempty" by (simp add: block_store_new_def)
  then show "tip (store_of L [genesis]) = Some genesis"
    using get_by_height_insert_same [of L genesis block_store_new] by (simp add: store_of_def tip_def)
qed (rule bs_keyed_store_of)

text \<open>The digests of the blocks built on the genesis block and on the first of these.\<close>

definition sample_on_bytes :: "u64 \<Rightarrow> digest \<Rightarrow> u64 \<Rightarrow> u8 list" where
  "sample_on_bytes n parent t =
     (let root = sample_sha256 (node_input (sample_sha256 (sample_tx_bytes 1 2 10 0))
                                           (sample_sha256 (sample_tx_bytes 1 2 20 1)))
      in to_le_bytes n @ as_slice (digest_bytes parent) @ as_slice (digest_bytes root) @
         to_le_bytes t @ replicate 32 3)"

lemma tx_root_pair: "tx_root L [t, u] = node_hash L (tx_hash L t) (tx_hash L u)"
  by (simp add: tx_root_def merkle_root_def tree_depth_step numeral_2_eq_2 [symmetric])

lemma block_hash_sample_on:
  "block_hash sample_libs (sample_on p t) =
     sample_sha256 (sample_on_bytes (block_height p + 1) (block_hash sample_libs p) t)"
  by (simp add: block_hash_def sample_on_def sample_on_bytes_def header_encode_written
      sample_codec_laws write_header_def sample_codec_defs tx_root_pair node_hash_sample tx_hash_stx Let_def)

lemma block_hash_genesis: "block_hash sample_libs genesis = sample_sha256 (sample_at_bytes 0 0)"
  using block_hash_sample_at [of 0 0] by (simp add: sample_at_def genesis_def)

lemma sample_digests_distinct:
  "distinct (map sample_mix
     (let g = sample_at_bytes 0 0; b = sample_on_bytes 1 (sample_sha256 g) 5;
          c = sample_on_bytes 2 (sample_sha256 b) 6
      in [g, b, c]))"
  by code_simp

lemma sample_on_height [simp]: "block_height (sample_on p t) = block_height p + 1"
  by (simp add: sample_on_def block_height_def)

lemma sample_digests_differ:
  "block_hash sample_libs (sample_on genesis 5) \<noteq> block_hash sample_libs genesis"
  "block_hash sample_libs (sample_on (sample_on genesis 5) 6) \<noteq> block_hash sample_libs genesis"
  "block_hash sample_libs (sample_on (sample_on genesis 5) 6) \<noteq> block_hash sample_libs (sample_on genesis 5)"
  using sample_digests_distinct
  by (auto simp: block_hash_sample_on block_hash_genesis Let_def)

lemma sample_propose:
  assumes "block_by_digest app parent = Some p" and "block_height p \<noteq> u64_max"
    and "app_mempool app = sample_pool" and "app_state app = sample_state" and "app_signer app = repeat_byte 3"
  shows "propose pr sample_libs sorted_list_of_fset (Some t) parent app =
    (Ok (block_hash sample_libs (sample_on p t)),
     app\<lparr>app_pending := fmupd (block_hash sample_libs (sample_on p t)) (sample_on p t) (app_pending app)\<rparr>)"
proof -
  have "build_block pr sample_libs sorted_list_of_fset
     \<lparr>bp_parent = p, bp_timestamp = t, bp_proposer = repeat_byte 3, bp_max_txs = APP_MAX_TXS_PER_BLOCK\<rparr>
     sample_pool sample_state = Ok (sample_signed (sample_on p t))" (is "?build = _")
    using assms(2) by (intro sample_build_on) (simp_all add: APP_MAX_TXS_PER_BLOCK_def)
  moreover from build_block_Ok [OF this] have "verify_block sample_libs (sample_signed (sample_on p t)) = Inr ()"
    using sign_block_verifies [OF sample_ed25519_laws] by blast
  ultimately show ?thesis
    using assms by (simp add: propose_def now_secs_def Let_def sample_signed_def)
qed

text \<open>The node after proposing on the genesis block, and then on its own proposal.\<close>

definition sample_d1 :: digest where
  "sample_d1 = block_hash sample_libs (sample_on genesis 5)"

definition sample_d2 :: digest where
  "sample_d2 = block_hash sample_libs (sample_on (sample_on genesis 5) 6)"

definition sample_app1 :: "address application" where
  "sample_app1 = sample_app\<lparr>app_pending := fmupd sample_d1 (sample_on genesis 5) fmempty\<rparr>"

definition sample_app2 :: "address application" where
  "sample_app2 = sample_app1\<lparr>app_pending :=
     fmupd sample_d2 (sample_on (sample_on genesis 5) 6) (app_pending sample_app1)\<rparr>"

lemma sample_digests [simp]:
  "sample_d1 \<noteq> block_hash sample_libs genesis" "sample_d2 \<noteq> block_hash sample_libs genesis"
  "sample_d1 \<noteq> sample_d2" "sample_d2 \<noteq> sample_d1"
  using sample_digests_differ by (simp_all add: sample_d1_def sample_d2_def)

lemma sample_proposal1:
  "propose pr sample_libs sorted_list_of_fset (Some 5) (block_hash sample_libs genesis) sample_app =
     (Ok sample_d1, sample_app1)"
  by (subst sample_propose [where p = genesis])
    (simp_all add: block_by_digest_def sample_d1_def sample_app1_def)

lemma sample_proposal2:
  "propose pr sample_libs sorted_list_of_fset (Some 6) sample_d1 sample_app1 = (Ok sample_d2, sample_app2)"
  by (subst sample_propose [where p = "sample_on genesis 5"])
    (simp_all add: block_by_digest_def sample_d2_def sample_app1_def sample_app2_def)

definition sample_after :: state_store where
  "sample_after = transfer (stx 20 1) (transfer (stx 10 0) sample_state)"

lemma apply_sample_on: "apply_block pr sample_libs (sample_on p t) sample_state = (Ok (), sample_after)"
  using apply_sample_txs [of pr] by (simp only: apply_block_Ok_iff sample_built_txs sample_txs_def sample_after_def)

theorem propose_answers_witness:
  "\<exists>d app'. propose Debug sample_libs sorted_list_of_fset (Some 5) (block_hash sample_libs genesis) sample_app = (Ok d, app') \<and>
     fst (propose Debug sample_libs sorted_list_of_fset (Some 5) sample_d1 sample_app) =
       Err (Internal ''propose: parent unknown'')"
proof -
  have "block_by_digest sample_app sample_d1 = None" by (simp add: block_by_digest_def)
  then have "fst (propose Debug sample_libs sorted_list_of_fset (Some 5) sample_d1 sample_app) =
      Err (Internal ''propose: parent unknown'')"
    using propose_answers [where L = sample_libs and app = sample_app and pr = Debug and clock = "Some 5"
        and parent = sample_d1, OF sample_ed25519_laws _ key_order_sorted] sample_pool_ok
    by (auto split: prod.splits res.splits)
  then show ?thesis using sample_proposal1 [of Debug] by blast
qed

theorem verify_decides_finalize_witness:
  "verify Debug sample_libs (block_hash sample_libs genesis) sample_d1 sample_app1 = Some True \<and>
   verify Debug sample_libs (block_hash sample_libs genesis) sample_d2 sample_app1 = Some False"
proof -
  have "fst (finalize Debug sample_libs sample_d1 sample_app1) = Ok ()"
    by (simp add: finalize_def sample_app1_def apply_sample_on Let_def)
  moreover have "block_parent (sample_on genesis 5) = block_hash sample_libs genesis"
    by (simp add: block_parent_def sample_on_def)
  ultimately have "verify Debug sample_libs (block_hash sample_libs genesis) sample_d1 sample_app1 = Some True"
    using verify_decides_finalize [where L = sample_libs and app = sample_app1 and t = genesis
        and d = sample_d1 and pr = Debug]
    by (simp add: sample_app1_def add_u64_one)
  then show ?thesis by (simp add: verify_def sample_app1_def)
qed

theorem propose_verify_finalize_witness:
  "\<exists>b app2. finalize Debug sample_libs sample_d1 sample_app1 = (Ok (), app2) \<and>
     tip (app_blocks app2) = Some b \<and> block_height b = 1"
  using propose_verify_finalize [where L = sample_libs and app = sample_app and t = genesis and pr = Debug,
      OF _ key_order_sorted _ _ _ _ _ sample_proposal1]
  by (auto simp: sample_pool_ok)

theorem pipelined_proposals_collide_witness:
  "verify Release sample_libs sample_d1 sample_d2 sample_app2 = Some True \<and>
   (\<exists>app3 e app4. finalize Release sample_libs sample_d1 sample_app2 = (Ok (), app3) \<and>
      finalize Release sample_libs sample_d2 app3 = (Err (ConsensusStorage e), app4) \<and>
      block_by_digest app4 sample_d2 = None)"
proof -
  obtain app3 where fin: "finalize Release sample_libs sample_d1 sample_app2 = (Ok (), app3)"
    by (simp add: finalize_Ok_iff sample_app2_def sample_app1_def apply_sample_on)
  from pipelined_proposals_collide [where L = sample_libs and app = sample_app and pr = Release and b = "sample_on genesis 5"
      and clock'' = None, OF _ key_order_sorted _ sample_proposal1 sample_proposal2 _ _ _ _ _ fin]
  show ?thesis using fin by (auto simp: sample_pool_ok sample_app2_def sample_app1_def)
qed

theorem relayed_proposal_verifies_witness:
  "\<exists>bytes. app_blocks_out (broadcast_block sample_libs sample_d1 sample_app1) = [bytes] \<and>
     verify Debug sample_libs (block_hash sample_libs genesis) sample_d1
       (store_block sample_libs bytes sample_app) = Some True"
  using relayed_proposal_verifies [where L = sample_libs and app = sample_app and peer = sample_app
      and t = genesis and pr = Debug, OF sample_codec_laws _ key_order_sorted _ _ sample_proposal1]
  by (auto simp: sample_pool_ok sample_app1_def BLOCKS_OUT_CAPACITY_def)

text \<open>
  Two replicas with the same state know the same digest; a peer sends one of them the header
  with no transactions. It accepts the digest, both finalize it, and they end in different states.
\<close>

definition sample_hollow :: block where
  "sample_hollow = (sample_on genesis 5)\<lparr>blk_transactions := []\<rparr>"

theorem peer_replaces_transactions_witness:
  "let honest = store_block sample_libs (block_encode sample_libs (sample_on genesis 5)) sample_app;
       fooled = store_block sample_libs (block_encode sample_libs sample_hollow) honest
   in verify Debug sample_libs (block_hash sample_libs genesis) sample_d1 fooled = Some True \<and>
      (\<exists>a1 a2. finalize Debug sample_libs sample_d1 honest = (Ok (), a1) \<and>
         finalize Debug sample_libs sample_d1 fooled = (Ok (), a2) \<and>
         get_balance (app_state a1) (repeat_byte 2) = 30 \<and> get_balance (app_state a2) (repeat_byte 2) = 0)"
proof -
  let ?b = "sample_on genesis 5"
  let ?honest = "store_block sample_libs (block_encode sample_libs ?b) sample_app"
  let ?fooled = "store_block sample_libs (block_encode sample_libs sample_hollow) ?honest"
  have "apply_block Debug sample_libs sample_hollow sample_state = (Ok (), sample_state)"
    by (simp add: apply_block_Ok_iff sample_hollow_def)
  moreover note peer_replaces_transactions [where L = sample_libs and b = ?b and c = sample_hollow
      and app = sample_app and pr = Debug, OF sample_codec_laws]
  moreover have "block_by_digest sample_app (block_hash sample_libs genesis) = Some genesis"
    by (simp add: block_by_digest_def)
  moreover have "block_parent ?b = block_hash sample_libs genesis" "add_u64 Debug (block_height genesis) 1 = Some (block_height ?b)"
    by (simp_all add: block_parent_def block_height_def sample_on_def add_u64_one genesis_def)
  ultimately have "fmlookup (app_pending ?honest) sample_d1 = Some ?b"
    and "verify Debug sample_libs (block_hash sample_libs genesis) sample_d1 ?fooled = Some True"
    and "\<exists>a2. finalize Debug sample_libs sample_d1 ?fooled = (Ok (), a2) \<and> app_state a2 = sample_state"
    using sample_digests(1) by (auto simp: sample_hollow_def Let_def sample_d1_def)
  moreover from this(1) have "\<exists>a1. finalize Debug sample_libs sample_d1 ?honest = (Ok (), a1) \<and> app_state a1 = sample_after"
    by (auto simp: finalize_Ok_iff apply_sample_on store_block_def split: sum.split)
  ultimately show ?thesis
    by (auto simp: Let_def sample_after_def get_balance_account get_account_transfer default_account_def)
qed

end
