(* ===== verification/Runs.thy ===== *)
theory Runs
  imports Application
begin

text \<open>
  Runs of the application actor: what holds after any sequence of messages, in whatever order
  the consensus engine, the reporter and the peers send them.
\<close>

section \<open>Runs\<close>

text \<open>The block that a message commits, if it does.\<close>

definition commits :: "profile \<Rightarrow> ('sk, 'vk) libs \<Rightarrow> message \<Rightarrow> 'sk application \<Rightarrow> block list" where
  "commits pr L msg app =
     (case msg of
        Finalize d \<Rightarrow>
          (case fmlookup (app_pending app) d of
             None \<Rightarrow> []
           | Some b \<Rightarrow> if is_ok (fst (finalize pr L d app)) then [b] else [])
      | _ \<Rightarrow> [])"

text \<open>
  \<open>app_reaches pr L app0 bs app\<close>: some messages take the actor from \<open>app0\<close> to \<open>app\<close> without a
  panic, and the blocks they commit are \<open>bs\<close>, in this order. The iteration order of the map
  and the clock are arbitrary at every step.
\<close>

inductive app_reaches ::
  "profile \<Rightarrow> ('sk, 'vk) libs \<Rightarrow> 'sk application \<Rightarrow> block list \<Rightarrow> 'sk application \<Rightarrow> bool"
  for pr L app0 where
  reach_start: "app_reaches pr L app0 [] app0"
| reach_step: "app_reaches pr L app0 bs app \<Longrightarrow> key_order (env_senders env) \<Longrightarrow>
    handle_message pr L env msg app = Some (r, app') \<Longrightarrow>
    app_reaches pr L app0 (bs @ commits pr L msg app) app'"

inductive_cases app_reaches_elim: "app_reaches pr L app0 bs app"

lemma app_run_append:
  "app_run pr L (xs @ ys) app =
     (case app_run pr L xs app of
        None \<Rightarrow> None
      | Some (rs, app') \<Rightarrow>
          (case app_run pr L ys app' of None \<Rightarrow> None | Some (rs', app'') \<Rightarrow> Some (rs @ rs', app'')))"
  by (induction pr L xs app rule: app_run.induct) (auto split: option.split prod.split)

lemma app_run_reaches:
  "app_run pr L steps app0 = Some (rs, app) \<Longrightarrow> \<forall>(env, msg) \<in> set steps. key_order (env_senders env) \<Longrightarrow>
   \<exists>bs. app_reaches pr L app0 bs app"
proof (induction steps arbitrary: rs app rule: rev_induct)
  case Nil
  then show ?case by (auto intro: reach_start)
next
  case (snoc step steps)
  obtain env msg where step: "step = (env, msg)" by (cases step)
  obtain rs1 app1 r where "app_run pr L steps app0 = Some (rs1, app1)"
    and "handle_message pr L env msg app1 = Some (r, app)"
    using snoc.prems(1) by (auto simp: app_run_append step split: option.splits)
  then show ?case using snoc.IH snoc.prems(2) step by (auto intro: reach_step)
qed


section \<open>What one message can change\<close>

text \<open>
  A message adds a known block, answers, queues bytes or commits a block: the state, the
  finalized blocks and the pool change only when a block is committed.
\<close>

lemma propose_Err_state: "propose pr L it c p app = (Err e, app') \<Longrightarrow> app' = app"
  by (auto simp: propose_def Let_def split: option.splits res.splits sum.splits)

lemma handle_message_cases:
  assumes "handle_message pr L env msg app = Some (r, app')"
  obtains (commit) d b s where "msg = Finalize d" "fmlookup (app_pending app) d = Some b"
      "apply_block pr L b (app_state app) = (Ok (), s)" "app' = committed L d b s app"
      "commits pr L msg app = [b]"
    | (learn) b where "app' = app\<lparr>app_pending := fmupd (block_hash L b) b (app_pending app)\<rparr>"
      "commits pr L msg app = []"
    | (forget) d where "app' = app\<lparr>app_pending := fmdrop d (app_pending app)\<rparr>" "commits pr L msg app = []"
    | (queue) bytes where "app' = app\<lparr>app_blocks_out := app_blocks_out app @ [bytes]\<rparr>"
      "lib_accepts L BLOCKS_OUT_CAPACITY (app_blocks_out app)" "commits pr L msg app = []"
    | (same) "app' = app" "commits pr L msg app = []"
proof (cases msg)
  case (Genesis e)
  with assms same show ?thesis by (auto simp: handle_message_def commits_def split: if_splits)
next
  case (Propose p)
  have none: "commits pr L msg app = []" using Propose by (simp add: commits_def)
  obtain res where res: "propose pr L (env_senders env) (env_clock env) p app = (res, app')"
    and "res \<noteq> Panic"
    using assms Propose by (auto simp: handle_message_def split: prod.splits res.splits)
  then show ?thesis
    using propose_Ok [of pr L "env_senders env" "env_clock env" p app _ app'] learn [OF _ none]
      propose_Err_state [of pr L "env_senders env" "env_clock env" p app _ app'] same [OF _ none]
    by (cases res) blast+
next
  case (Verify p d)
  with assms same show ?thesis by (auto simp: handle_message_def commits_def split: option.splits)
next
  case (Finalize d)
  obtain res where res: "finalize pr L d app = (res, app')" and "res \<noteq> Panic"
    using assms Finalize by (auto simp: handle_message_def split: prod.splits res.splits)
  show ?thesis
  proof (cases res)
    case (Ok u)
    with res obtain b s where "fmlookup (app_pending app) d = Some b"
      "apply_block pr L b (app_state app) = (Ok (), s)" "app' = committed L d b s app"
      by (auto simp: finalize_Ok_iff)
    moreover from this(1) have "commits pr L msg app = [b]" using Finalize res Ok by (simp add: commits_def)
    ultimately show ?thesis using commit Finalize by blast
  next
    case (Err e)
    have none: "commits pr L msg app = []"
      using Finalize res Err by (simp add: commits_def split: option.split)
    from res Err have "app' = app \<or> app' = app\<lparr>app_pending := fmdrop d (app_pending app)\<rparr>"
      by (auto simp: finalize_Err_iff)
    then show ?thesis using same [OF _ none] forget [OF _ none] by blast
  qed (use \<open>res \<noteq> Panic\<close> in simp)
next
  case (Broadcast d)
  with assms same queue show ?thesis
    by (auto simp: handle_message_def broadcast_block_def commits_def split: option.splits if_splits)
next
  case (StoreBlock bytes)
  with assms same learn show ?thesis
    by (auto simp: handle_message_def store_block_def commits_def split: sum.splits)
qed


section \<open>Invariants\<close>

text \<open>Systems that move by steps, and what every step keeps.\<close>

locale stepwise =
  fixes step :: "'s \<Rightarrow> 's \<Rightarrow> bool" and inv :: "'s \<Rightarrow> bool"
  assumes step_keeps: "inv s \<Longrightarrow> step s s' \<Longrightarrow> inv s'"
begin

lemma star_keeps: "step\<^sup>*\<^sup>* s s' \<Longrightarrow> inv s \<Longrightarrow> inv s'"
  by (induction rule: rtranclp_induct) (auto intro: step_keeps)

end

definition app_moves :: "profile \<Rightarrow> ('sk, 'vk) libs \<Rightarrow> 'sk application \<Rightarrow> 'sk application \<Rightarrow> bool" where
  "app_moves pr L app app' \<longleftrightarrow>
     (\<exists>env msg r. key_order (env_senders env) \<and> handle_message pr L env msg app = Some (r, app'))"

lemma app_reaches_moves: "app_reaches pr L app0 bs app \<Longrightarrow> (app_moves pr L)\<^sup>*\<^sup>* app0 app"
proof (induction rule: app_reaches.induct)
  case (reach_step bs app env msg r app')
  then have "app_moves pr L app app'" unfolding app_moves_def by blast
  with reach_step.IH show ?case by (rule rtranclp.rtrancl_into_rtrancl)
qed simp

text \<open>
  The actor is in order: the indexes of its pool agree, known and finalized blocks are filed
  under their own digests, and the outbound queue is within its capacity.
\<close>

definition app_ok :: "('sk, 'vk) libs \<Rightarrow> 'sk application \<Rightarrow> bool" where
  "app_ok L app \<longleftrightarrow>
     mempool_ok L (app_mempool app) \<and>
     (\<forall>d b. fmlookup (app_pending app) d = Some b \<longrightarrow> block_hash L b = d) \<and>
     bs_keyed L (app_blocks app) \<and>
     length (app_blocks_out app) \<le> BLOCKS_OUT_CAPACITY"

lemma app_ok_move:
  assumes "channel_laws L" and ok: "app_ok L app" and "app_moves pr L app app'"
  shows "app_ok L app'"
proof -
  obtain env msg r where "handle_message pr L env msg app = Some (r, app')"
    using assms(3) unfolding app_moves_def by blast
  then show ?thesis
  proof (cases rule: handle_message_cases)
    case (commit d b s)
    with ok show ?thesis
      by (auto simp: app_ok_def remove_included_ok bs_keyed_insert split: if_splits)
  next
    case (queue bytes)
    then have "length (app_blocks_out app) < BLOCKS_OUT_CAPACITY"
      using assms(1) unfolding channel_laws_def by blast
    with ok queue show ?thesis by (simp add: app_ok_def)
  qed (use ok in \<open>auto simp: app_ok_def split: if_splits\<close>)
qed

interpretation app_steps: stepwise "app_moves pr L" "\<lambda>app. channel_laws L \<and> app_ok L app"
  for pr and L :: "('sk, 'vk) libs"
  by unfold_locales (auto intro: app_ok_move)

text \<open>Blocks applied one after the other: again a ledger, now with blocks as its entries.\<close>

fun apply_blocks ::
  "profile \<Rightarrow> ('sk, 'vk) libs \<Rightarrow> block list \<Rightarrow> state_store \<Rightarrow> (storage_error, unit) res \<times> state_store" where
  "apply_blocks pr L [] s = (Ok (), s)"
| "apply_blocks pr L (b # bs) s =
     (case apply_block pr L b s of
        (Ok _, s') \<Rightarrow> apply_blocks pr L bs s'
      | (r, s') \<Rightarrow> (r, s'))"

interpretation chain_ledger: tx_ledger "apply_block pr L" "apply_blocks pr L"
  for pr and L :: "('sk, 'vk) libs"
  by unfold_locales (auto dest: apply_block_Err_state)

declare apply_blocks.simps(2) [simp del]

lemma apply_blocks_concat:
  "apply_blocks pr L bs s = (Ok (), s') \<longleftrightarrow> apply_txs pr L (concat (map blk_transactions bs)) s = (Ok (), s')"
  by (induction bs arbitrary: s)
    (auto simp: chain_ledger.run_Nil chain_ledger.run_Cons_Ok apply_block_Ok_iff
      state_ledger.run_append_Ok)

lemma reaches_replay:
  "app_reaches pr L app0 bs app \<Longrightarrow>
   apply_blocks pr L bs (app_state app0) = (Ok (), app_state app) \<and>
   app_blocks app = fold (block_store_insert L) bs (app_blocks app0) \<and>
   app_mempool app = remove_included L (concat (map blk_transactions bs)) (app_mempool app0)"
proof (induction rule: app_reaches.induct)
  case (reach_step bs app env msg r app')
  from reach_step.hyps(3) show ?case
  proof (cases rule: handle_message_cases)
    case (commit d b s)
    then show ?thesis using reach_step.IH chain_ledger.run_snoc [of pr L bs "app_state app0"]
      by (simp add: remove_included_def)
  qed (use reach_step.IH in \<open>simp_all\<close>)
qed (simp add: remove_included_def)

lemma reaches_fixed:
  "app_reaches pr L app0 bs app \<Longrightarrow>
   app_signer app = app_signer app0 \<and> app_genesis_digest app = app_genesis_digest app0"
proof (induction rule: app_reaches.induct)
  case (reach_step bs app env msg r app')
  from reach_step.hyps(3) show ?case
    by (cases rule: handle_message_cases) (use reach_step.IH in simp_all)
qed simp


section \<open>No panic\<close>

text \<open>
  In a build without overflow checks the only panic is the assertion on the epoch.
\<close>

lemma propose_Release:
  "mempool_ok L (app_mempool app) \<Longrightarrow> key_order it \<Longrightarrow> propose Release L it c p app \<noteq> (Panic, app')"
  using build_block_panic [of L "app_mempool app" it Release]
  by (auto simp: propose_def Let_def split: option.splits res.splits sum.splits)

lemma verify_Release: "verify Release L p d app \<noteq> None"
proof -
  have "fst (apply_block Release L b s) \<noteq> Panic" for b s
    using apply_block_Release [of L b s] by (metis prod.collapse)
  then show ?thesis unfolding verify_def by (auto split: option.split res.split bool.split)
qed

lemma finalize_Release: "finalize Release L d app \<noteq> (Panic, app')"
  using finalize_Panic [of Release L d app] by auto

lemma handle_message_Release:
  assumes "app_ok L app" and "key_order (env_senders env)" and "\<And>e. msg = Genesis e \<Longrightarrow> e = 0"
  shows "handle_message Release L env msg app \<noteq> None"
proof (cases msg)
  case (Propose p)
  obtain r app' where "propose Release L (env_senders env) (env_clock env) p app = (r, app')"
    by fastforce
  then show ?thesis
    using Propose assms(1,2) propose_Release [of L app "env_senders env" "env_clock env" p app']
    by (cases r) (simp_all add: handle_message_def app_ok_def)
next
  case (Finalize d)
  obtain r app' where "finalize Release L d app = (r, app')" by fastforce
  then show ?thesis
    using Finalize finalize_Release [of L d app app'] by (cases r) (simp_all add: handle_message_def)
next
  case (Verify p d)
  then show ?thesis
    using verify_Release [of L p d app] by (auto simp: handle_message_def)
qed (use assms(3) in \<open>simp_all add: handle_message_def\<close>)

lemma u64_wraps: "(0x10000000000000000 :: u64) = 0"
  by (simp add: word_unat_eq_iff)


section \<open>Properties\<close>

text \<open>
  C1: the chain is the replay of its blocks. Whatever messages an actor handles, its state is
  the one that the blocks it committed lead to from its first state, applied in the order of
  their commitment; it stores exactly these on top of the blocks it started with; its pool is
  the first one without their transactions; and the sum of all balances never changes.
\<close>

theorem chain_is_replay:
  assumes "app_reaches pr L app0 bs app"
  shows "apply_blocks pr L bs (app_state app0) = (Ok (), app_state app) \<and>
    app_blocks app = fold (block_store_insert L) bs (app_blocks app0) \<and>
    (\<forall>h. mempool_get (app_mempool app) h =
       (if h \<in> tx_hash L ` set (concat (map blk_transactions bs)) then None
        else mempool_get (app_mempool app0) h)) \<and>
    total_supply (app_state app) = total_supply (app_state app0)"
proof -
  note replay = reaches_replay [OF assms]
  then have "apply_txs pr L (concat (map blk_transactions bs)) (app_state app0) = (Ok (), app_state app)"
    by (simp add: apply_blocks_concat)
  from total_supply_apply_txs [OF this] replay show ?thesis by (simp add: remove_included_get)
qed

text \<open>
  C16: the actor stays in order: no sequence of messages breaks the indexes of the pool, files a
  block under another digest than its own, overfills the outbound queue, or changes the
  signing key or the answer to a request for the genesis digest.
\<close>

theorem actor_stays_ok:
  assumes "channel_laws L" and "app_ok L app0" and "app_reaches pr L app0 bs app"
  shows "app_ok L app \<and> app_signer app = app_signer app0 \<and>
    app_genesis_digest app = app_genesis_digest app0"
  using app_steps.star_keeps [OF app_reaches_moves [OF assms(3)]] assms(1,2) reaches_fixed [OF assms(3)]
  by blast

text \<open>
  Agreement. Two replicas that start from the same state and the same blocks, whatever else
  they handle and in whatever order, have the same state and the same finalized blocks once
  they have committed the same digests in the same order - provided a digest identifies a
  block among those committed, which the code leaves to the honesty of the peers.
\<close>

theorem replicas_agree:
  assumes "app_reaches pr L a0 bs a" and "app_reaches pr L b0 cs b"
    and "app_state a0 = app_state b0" and "app_blocks a0 = app_blocks b0"
    and "map (block_hash L) bs = map (block_hash L) cs" and "inj_on (block_hash L) (set bs \<union> set cs)"
  shows "app_state a = app_state b \<and> app_blocks a = app_blocks b \<and> bs = cs"
proof -
  have "bs = cs" using assms(5,6) by (simp add: inj_on_map_eq_map)
  then show ?thesis
    using reaches_replay [OF assms(1)] reaches_replay [OF assms(2)] assms(3,4) by simp
qed

text \<open>
  C25: no transaction is ever committed twice: over a whole run, the transactions a sender has
  in the committed blocks carry consecutive nonces, so that no two of them are the same unless
  the sender has issued \<open>2 ^ 64\<close> transactions; and the state's nonce is the next one.
\<close>

theorem committed_nonces_consecutive:
  assumes "app_reaches pr L app0 bs app" and "mine = txs_from a (concat (map blk_transactions bs))"
  shows "map tx_nonce mine = map (\<lambda>i. get_nonce (app_state app0) a + of_nat i) [0..<length mine] \<and>
    get_nonce (app_state app) a = get_nonce (app_state app0) a + of_nat (length mine) \<and>
    (length mine \<le> 2 ^ 64 \<longrightarrow> distinct mine)"
proof -
  have run: "apply_txs pr L (concat (map blk_transactions bs)) (app_state app0) = (Ok (), app_state app)"
    using reaches_replay [OF assms(1)] by (simp add: apply_blocks_concat)
  from applied_txs_from_distinct [OF run, of a] apply_txs_nonces [OF run, of a] show ?thesis
    unfolding assms(2) by blast
qed

text \<open>
  A build without overflow checks handles every sequence of messages that asks for no
  epoch but the first: the loop never panics, and answers each message.
\<close>

theorem release_never_panics:
  assumes "channel_laws L" and "app_ok L app"
    and "\<forall>(env, msg) \<in> set steps. key_order (env_senders env) \<and> (\<forall>e. msg = Genesis e \<longrightarrow> e = 0)"
  shows "\<exists>replies app'. app_run Release L steps app = Some (replies, app') \<and>
    length replies = length steps \<and> app_ok L app'"
  using assms(2,3)
proof (induction steps arbitrary: app)
  case (Cons step steps)
  obtain env msg where step: "step = (env, msg)" by (cases step)
  obtain r app1 where one: "handle_message Release L env msg app = Some (r, app1)"
    using handle_message_Release [of L app env msg] Cons.prems step
    by (cases "handle_message Release L env msg app") auto
  then have "app_moves Release L app app1"
    using Cons.prems(2) step unfolding app_moves_def by auto
  with assms(1) Cons.prems(1) have "app_ok L app1" by (rule app_ok_move)
  from Cons.IH [OF this] Cons.prems(2) obtain replies app' where
    "app_run Release L steps app1 = Some (replies, app')" "length replies = length steps" "app_ok L app'"
    by auto
  with one step show ?case by simp
qed simp

text \<open>
  In a build with overflow checks a peer can stop the actor: verifying a block whose parent
  is known and claims the height \<open>u64::MAX\<close> panics, while a build without checks accepts a
  block of height 0 on such a parent.
\<close>

theorem verify_panics_on_max_height:
  assumes "fmlookup (app_pending app) d = Some b" and "block_parent b = p"
    and "block_by_digest app p = Some q" and "block_height q = u64_max"
  shows "app_run Debug L [(env, Verify p d)] app = None \<and>
    (verify Release L p d app = Some True \<longrightarrow> block_height b = 0)"
  using assms
  by (auto simp: handle_message_def verify_def add_u64_one block_height_def block_parent_def
      u64_wraps split: if_splits bool.splits)


subsection \<open>Witnesses\<close>

definition sample_env :: environment where
  "sample_env = \<lparr>env_senders = sorted_list_of_fset, env_clock = Some 5\<rparr>"

lemma sample_env_simps [simp]:
  "env_senders sample_env = sorted_list_of_fset" "env_clock sample_env = Some 5"
  "key_order (sorted_list_of_fset :: address iter_order)"
  by (simp_all add: sample_env_def key_order_sorted)

definition sample_final :: "address application" where
  "sample_final = committed sample_libs sample_d1 (sample_on genesis 5) sample_after sample_app1"

lemma sample_finalize: "finalize pr sample_libs sample_d1 sample_app1 = (Ok (), sample_final)"
  by (simp add: finalize_Ok_iff sample_final_def apply_sample_on) (simp add: sample_app1_def apply_sample_on)

lemma sample_app_ok: "app_ok sample_libs sample_app"
  by (simp add: app_ok_def sample_pool_ok)

lemma sample_commit:
  assumes "app_reaches pr sample_libs sample_app [] sample_app1"
  shows "app_reaches pr sample_libs sample_app [sample_on genesis 5] sample_final"
proof -
  have "fmlookup (app_pending sample_app1) sample_d1 = Some (sample_on genesis 5)"
    by (simp add: sample_app1_def)
  then have "commits pr sample_libs (Finalize sample_d1) sample_app1 = [sample_on genesis 5]"
    by (simp add: commits_def sample_finalize)
  moreover have "app_reaches pr sample_libs sample_app
      ([] @ commits pr sample_libs (Finalize sample_d1) sample_app1) sample_final"
    by (rule reach_step [OF assms, of sample_env]) (simp_all add: handle_message_def sample_finalize)
  ultimately show ?thesis by simp
qed

text \<open>The proposer: it proposes on the genesis block and finalizes its proposal.\<close>

lemma sample_proposer_run: "app_reaches pr sample_libs sample_app [sample_on genesis 5] sample_final"
proof -
  have "app_reaches pr sample_libs sample_app ([] @ commits pr sample_libs (Propose (block_hash sample_libs genesis)) sample_app) sample_app1"
    by (rule reach_step [OF reach_start, of sample_env])
      (simp_all add: handle_message_def sample_proposal1)
  then have "app_reaches pr sample_libs sample_app [] sample_app1" by (simp add: commits_def)
  then show ?thesis by (rule sample_commit)
qed

text \<open>Another validator: it gets the block from its peer and finalizes it.\<close>

lemma sample_validator_run: "app_reaches pr sample_libs sample_app [sample_on genesis 5] sample_final"
proof -
  let ?bytes = "block_encode sample_libs (sample_on genesis 5)"
  have "block_decode sample_libs ?bytes = Inr (sample_on genesis 5)"
    by (rule block_decode_encode [OF sample_codec_laws]) (simp add: MAX_TXS_PER_BLOCK_def)
  then have "store_block sample_libs ?bytes sample_app = sample_app1"
    by (simp add: store_block_def sample_app1_def sample_d1_def)
  then have "app_reaches pr sample_libs sample_app ([] @ commits pr sample_libs (StoreBlock ?bytes) sample_app) sample_app1"
    by (intro reach_step [OF reach_start, of sample_env]) (simp_all add: handle_message_def)
  then have "app_reaches pr sample_libs sample_app [] sample_app1" by (simp add: commits_def)
  then show ?thesis by (rule sample_commit)
qed

theorem chain_is_replay_witness:
  "apply_blocks Debug sample_libs [sample_on genesis 5] sample_state = (Ok (), app_state sample_final) \<and>
   get_balance (app_state sample_final) (repeat_byte 2) = 30 \<and>
   total_supply (app_state sample_final) = 1000"
  using chain_is_replay [OF sample_proposer_run [of Debug]]
  by (simp add: sample_final_def sample_after_def get_balance_account get_account_transfer
      default_account_def Let_def)
    (simp add: total_supply_def sample_state_def get_balance_def)

theorem actor_stays_ok_witness: "app_ok sample_libs sample_final"
  using actor_stays_ok [OF sample_channel_laws sample_app_ok sample_proposer_run [of Debug]] by blast

theorem replicas_agree_witness:
  "\<exists>a b. app_reaches Debug sample_libs sample_app [sample_on genesis 5] a \<and>
     app_reaches Debug sample_libs sample_app [sample_on genesis 5] b \<and> app_state a = app_state b"
  using replicas_agree [OF sample_proposer_run [of Debug] sample_validator_run [of Debug]]
    sample_proposer_run [of Debug] sample_validator_run [of Debug]
  by auto

theorem committed_nonces_consecutive_witness:
  "map tx_nonce (txs_from (repeat_byte 1) (blk_transactions (sample_on genesis 5))) = [0, 1] \<and>
   get_nonce (app_state sample_final) (repeat_byte 1) = 2"
  using committed_nonces_consecutive [OF sample_proposer_run [of Debug] refl, of "repeat_byte 1"]
  by (simp add: get_nonce_account)

theorem release_never_panics_witness:
  "app_run Release sample_libs
     [(sample_env, Genesis 0), (sample_env, Propose (block_hash sample_libs genesis)),
      (sample_env, Finalize zero_hash)] sample_app \<noteq> None"
  using release_never_panics [OF sample_channel_laws sample_app_ok,
      of "[(sample_env, Genesis 0), (sample_env, Propose (block_hash sample_libs genesis)),
           (sample_env, Finalize zero_hash)]"]
  by (auto simp del: app_run.simps)

theorem verify_panics_on_max_height_witness:
  "let p = Digest (repeat_byte 1);
       b = (sample_at 0 1)\<lparr>blk_header := (blk_header (sample_at 0 1))\<lparr>hd_parent_hash := p\<rparr>\<rparr>;
       app = sample_app\<lparr>app_pending := fmupd zero_hash b (fmupd p (sample_at u64_max 0) fmempty)\<rparr>
   in app_run Debug sample_libs [(sample_env, Verify p zero_hash)] app = None"
proof -
  let ?p = "Digest (repeat_byte 1) :: digest"
  let ?b = "(sample_at 0 1)\<lparr>blk_header := (blk_header (sample_at 0 1))\<lparr>hd_parent_hash := ?p\<rparr>\<rparr>"
  let ?app = "sample_app\<lparr>app_pending := fmupd zero_hash ?b (fmupd ?p (sample_at u64_max 0) fmempty)\<rparr>"
  have "zero_hash \<noteq> ?p" by code_simp
  then show ?thesis
    using verify_panics_on_max_height [of ?app zero_hash ?b ?p "sample_at u64_max 0" sample_libs sample_env]
    by (simp add: Let_def block_parent_def block_by_digest_def)
qed

end
