(* ===== verification/Ingress.thy ===== *)
theory Ingress
  imports Runs "HOL-Library.Sublist"
begin

text \<open>
  \<open>crates/consensus/src/app/ingress.rs\<close> and \<open>reporter.rs\<close>: the handle through which the
  consensus engine, the reporter of its activity and the block relay send messages to the
  actor.
\<close>

section \<open>Operations\<close>

text \<open>
  The sending end of the mailbox belongs to the actor library: what \<open>enqueue\<close> does to the
  mailbox and the feedback it gives, and whether a feedback counts as accepted.
\<close>

record ('q, 'f) mailbox_lib =
  mbx_enqueue :: "message \<Rightarrow> 'q \<Rightarrow> 'f \<times> 'q"
  mbx_accepted :: "'f \<Rightarrow> bool"
  mbx_ok :: 'f

text \<open>\<open>Policy::handle\<close>: what becomes of a message that finds the mailbox full.\<close>

definition policy_handle :: "message list \<Rightarrow> message \<Rightarrow> message list" where
  "policy_handle overflow message = overflow @ [message]"

text \<open>The part of the engine's context that is read: the view and the digest of the parent.\<close>

record consensus_context =
  ctx_parent :: "nat \<times> digest"

text \<open>\<open>let _ = self.sender.enqueue(..)\<close>, and \<open>assert!(self.sender.enqueue(..).accepted())\<close>.\<close>

definition enqueue_ignored :: "('q, 'f) mailbox_lib \<Rightarrow> message \<Rightarrow> 'q \<Rightarrow> 'q" where
  "enqueue_ignored M msg q = snd (mbx_enqueue M msg q)"

definition enqueue_asserted :: "('q, 'f) mailbox_lib \<Rightarrow> message \<Rightarrow> 'q \<Rightarrow> 'q option" where
  "enqueue_asserted M msg q =
     (case mbx_enqueue M msg q of (f, q') \<Rightarrow> if mbx_accepted M f then Some q' else None)"

definition store_peer_block :: "('q, 'f) mailbox_lib \<Rightarrow> u8 list \<Rightarrow> 'q \<Rightarrow> 'q" where
  "store_peer_block M bytes q = enqueue_ignored M (StoreBlock bytes) q"

definition automaton_genesis :: "('q, 'f) mailbox_lib \<Rightarrow> nat \<Rightarrow> 'q \<Rightarrow> 'q option" where
  "automaton_genesis M epoch q = enqueue_asserted M (Genesis epoch) q"

text \<open>\<open>receiver.await.expect(..)\<close> on the answer to a genesis request.\<close>

definition await_genesis :: "reply \<Rightarrow> digest option" where
  "await_genesis r = (case r of ReplyDigest d \<Rightarrow> Some d | ReplyBool _ \<Rightarrow> None | NoReply \<Rightarrow> None)"

definition automaton_propose :: "('q, 'f) mailbox_lib \<Rightarrow> consensus_context \<Rightarrow> 'q \<Rightarrow> 'q option" where
  "automaton_propose M ctx q = enqueue_asserted M (Propose (snd (ctx_parent ctx))) q"

definition automaton_verify ::
  "('q, 'f) mailbox_lib \<Rightarrow> consensus_context \<Rightarrow> digest \<Rightarrow> 'q \<Rightarrow> 'q option" where
  "automaton_verify M ctx digest q = enqueue_asserted M (Verify (snd (ctx_parent ctx)) digest) q"

definition relay_broadcast :: "('q, 'f) mailbox_lib \<Rightarrow> digest \<Rightarrow> 'q \<Rightarrow> 'q" where
  "relay_broadcast M digest q = enqueue_ignored M (Broadcast digest) q"

text \<open>The engine's activity: a finalization with the digest finalized, or anything else.\<close>

datatype activity = Finalization (proposal_payload: digest) | OtherActivity

definition report :: "('q, 'f) mailbox_lib \<Rightarrow> activity \<Rightarrow> 'q \<Rightarrow> 'f \<times> 'q" where
  "report M act q =
     (case act of
        Finalization digest \<Rightarrow> mbx_enqueue M (Finalize digest) q
      | OtherActivity \<Rightarrow> (mbx_ok M, q))"


section \<open>Delivery\<close>

text \<open>Everything that reaches the handle, and the message it stands for.\<close>

datatype event =
    AskGenesis nat
  | AskProposal consensus_context
  | AskVerdict consensus_context digest
  | Relayed digest
  | Activity activity
  | PeerBlock "u8 list"

fun send :: "('q, 'f) mailbox_lib \<Rightarrow> event \<Rightarrow> 'q \<Rightarrow> 'q option" where
  "send M (AskGenesis epoch) q = automaton_genesis M epoch q"
| "send M (AskProposal ctx) q = automaton_propose M ctx q"
| "send M (AskVerdict ctx d) q = automaton_verify M ctx d q"
| "send M (Relayed d) q = Some (relay_broadcast M d q)"
| "send M (Activity act) q = Some (snd (report M act q))"
| "send M (PeerBlock bytes) q = Some (store_peer_block M bytes q)"

fun send_all :: "('q, 'f) mailbox_lib \<Rightarrow> event list \<Rightarrow> 'q \<Rightarrow> 'q option" where
  "send_all M [] q = Some q"
| "send_all M (e # es) q = (case send M e q of None \<Rightarrow> None | Some q' \<Rightarrow> send_all M es q')"

fun meant :: "event \<Rightarrow> message list" where
  "meant (AskGenesis epoch) = [Genesis epoch]"
| "meant (AskProposal ctx) = [Propose (snd (ctx_parent ctx))]"
| "meant (AskVerdict ctx d) = [Verify (snd (ctx_parent ctx)) d]"
| "meant (Relayed d) = [Broadcast d]"
| "meant (Activity (Finalization d)) = [Finalize d]"
| "meant (Activity OtherActivity) = []"
| "meant (PeerBlock bytes) = [StoreBlock bytes]"

text \<open>
  What the mailbox is documented to do, given a view of the messages it buffers and of those
  in its overflow: a message is buffered if there is room and nothing waits, else it is handed
  to the policy; in both cases it counts as accepted.
\<close>

definition mailbox_laws ::
  "('q, 'f) mailbox_lib \<Rightarrow> ('q \<Rightarrow> message list) \<Rightarrow> ('q \<Rightarrow> message list) \<Rightarrow> bool" where
  "mailbox_laws M buf over \<longleftrightarrow>
     (\<forall>msg q. let (f, q') = mbx_enqueue M msg q
        in mbx_accepted M f \<and>
           (over q = [] \<and> buf q' = buf q @ [msg] \<and> over q' = [] \<or>
            buf q' = buf q \<and> over q' = policy_handle (over q) msg))"

lemma mailbox_lawsD:
  assumes "mailbox_laws M buf over"
  shows "mbx_accepted M (fst (mbx_enqueue M msg q))"
    and "buf (snd (mbx_enqueue M msg q)) @ over (snd (mbx_enqueue M msg q)) = buf q @ over q @ [msg]"
proof -
  have "case mbx_enqueue M msg q of (f, q') \<Rightarrow> mbx_accepted M f \<and>
      (over q = [] \<and> buf q' = buf q @ [msg] \<and> over q' = [] \<or>
       buf q' = buf q \<and> over q' = over q @ [msg])"
    using assms unfolding mailbox_laws_def policy_handle_def by (simp add: Let_def)
  then show "mbx_accepted M (fst (mbx_enqueue M msg q))"
    and "buf (snd (mbx_enqueue M msg q)) @ over (snd (mbx_enqueue M msg q)) = buf q @ over q @ [msg]"
    by (auto split: prod.splits)
qed

lemma send_delivers:
  assumes "mailbox_laws M buf over"
  shows "\<exists>q'. send M e q = Some q' \<and> buf q' @ over q' = buf q @ over q @ meant e"
proof -
  have ok: "enqueue_asserted M msg q = Some (snd (mbx_enqueue M msg q))" for msg
    using mailbox_lawsD(1) [OF assms] by (simp add: enqueue_asserted_def split: prod.split) (metis fst_conv)
  show ?thesis
    using mailbox_lawsD(2) [OF assms] ok
    by (cases e rule: meant.cases)
      (simp_all add: automaton_genesis_def automaton_propose_def automaton_verify_def
        relay_broadcast_def report_def store_peer_block_def enqueue_ignored_def)
qed


section \<open>Commits\<close>

text \<open>The blocks committed by a sequence of messages, up to a panic if there is one.\<close>

fun run_commits ::
  "profile \<Rightarrow> ('sk, 'vk) libs \<Rightarrow> (environment \<times> message) list \<Rightarrow> 'sk application \<Rightarrow> block list" where
  "run_commits pr L [] app = []"
| "run_commits pr L ((env, msg) # rest) app =
     commits pr L msg app @
     (case handle_message pr L env msg app of
        None \<Rightarrow> []
      | Some (_, app') \<Rightarrow> run_commits pr L rest app')"

definition requested :: "message \<Rightarrow> digest list" where
  "requested msg = (case msg of Finalize d \<Rightarrow> [d] | _ \<Rightarrow> [])"

lemma commits_requested:
  assumes "app_ok L app"
  shows "subseq (map (block_hash L) (commits pr L msg app)) (requested msg)"
  using assms by (auto simp: commits_def requested_def app_ok_def split: message.split option.split)

lemma run_commits_requested:
  assumes "channel_laws L"
  shows "app_ok L app \<Longrightarrow> \<forall>(env, msg) \<in> set steps. key_order (env_senders env) \<Longrightarrow>
    subseq (map (block_hash L) (run_commits pr L steps app)) (concat (map requested (map snd steps)))"
proof (induction steps arbitrary: app)
  case (Cons step rest)
  obtain env msg where step: "step = (env, msg)" by (cases step)
  have "subseq (map (block_hash L) (case handle_message pr L env msg app of
      None \<Rightarrow> [] | Some (_, app') \<Rightarrow> run_commits pr L rest app')) (concat (map requested (map snd rest)))"
  proof (cases "handle_message pr L env msg app")
    case (Some x)
    obtain r app' where x: "x = (r, app')" by (cases x)
    have "app_moves pr L app app'" using Some x step Cons.prems(2) unfolding app_moves_def by auto
    then have "app_ok L app'" by (rule app_ok_move [OF assms Cons.prems(1)])
    from Cons.IH [OF this] show ?thesis using Cons.prems(2) Some x by auto
  qed simp
  then show ?case using list_emb_append_mono [OF commits_requested [OF Cons.prems(1)]] step by simp
qed simp

lemma requested_meant: "concat (map requested (meant e)) = (case e of Activity (Finalization d) \<Rightarrow> [d] | _ \<Rightarrow> [])"
  by (cases e rule: meant.cases) (simp_all add: requested_def)


section \<open>Properties\<close>

text \<open>
  Nothing sent to the actor is lost or reordered, and no request panics: however full the
  mailbox, the messages it will yield are those it held followed by those meant, in the order
  of the events; an activity other than a finalization sends nothing.
\<close>

theorem mailbox_delivers_in_order:
  assumes "mailbox_laws M buf over"
  shows "\<exists>q'. send_all M es q = Some q' \<and>
    buf q' @ over q' = buf q @ over q @ concat (map meant es)"
proof (induction es arbitrary: q)
  case (Cons e es)
  obtain q1 where one: "send M e q = Some q1" "buf q1 @ over q1 = buf q @ over q @ meant e"
    using send_delivers [OF assms] by blast
  obtain q' where "send_all M es q1 = Some q'" "buf q' @ over q' = buf q1 @ over q1 @ concat (map meant es)"
    using Cons.IH by blast
  with one show ?case by simp
qed simp

text \<open>
  A validator's chain advances only by finalizations its engine reports: any run of the
  actor over the messages meant by a sequence of events commits at most the blocks of the
  reported digests, each at the digest reported for it, in the order of the reports.
\<close>

theorem commits_follow_reports:
  assumes "channel_laws L" and "app_ok L app"
    and "\<forall>(env, msg) \<in> set steps. key_order (env_senders env)"
    and "map snd steps = concat (map meant es)"
  shows "subseq (map (block_hash L) (run_commits pr L steps app))
    (concat (map (\<lambda>e. case e of Activity (Finalization d) \<Rightarrow> [d] | _ \<Rightarrow> []) es))"
proof -
  have "concat (map requested (concat (map meant es))) =
      concat (map (\<lambda>e. case e of Activity (Finalization d) \<Rightarrow> [d] | _ \<Rightarrow> []) es)"
    by (induction es) (simp_all add: requested_meant)
  then show ?thesis using run_commits_requested [OF assms(1,2,3), of pr] assms(4) by simp
qed


subsection \<open>Witnesses\<close>

text \<open>A mailbox that buffers two messages.\<close>

definition sample_mailbox :: "(message list \<times> message list, bool) mailbox_lib" where
  "sample_mailbox =
     \<lparr>mbx_enqueue = (\<lambda>msg (buf, over).
        if over = [] \<and> length buf < 2 then (True, (buf @ [msg], over))
        else (True, (buf, policy_handle over msg))),
      mbx_accepted = (\<lambda>f. f), mbx_ok = True\<rparr>"

lemma sample_mailbox_laws: "mailbox_laws sample_mailbox fst snd"
  by (auto simp: mailbox_laws_def sample_mailbox_def)

definition sample_events :: "event list" where
  "sample_events =
     [AskProposal \<lparr>ctx_parent = (0, block_hash sample_libs genesis)\<rparr>, Activity OtherActivity,
      Relayed sample_d1, Activity (Finalization sample_d1)]"

theorem mailbox_delivers_in_order_witness:
  "\<exists>q'. send_all sample_mailbox sample_events ([], []) = Some q' \<and>
     fst q' @ snd q' =
       [Propose (block_hash sample_libs genesis), Broadcast sample_d1, Finalize sample_d1]"
  using mailbox_delivers_in_order [OF sample_mailbox_laws, of sample_events "([], [])"]
  by (simp add: sample_events_def del: send_all.simps)

theorem commits_follow_reports_witness:
  "subseq
     (map (block_hash sample_libs)
       (run_commits Debug sample_libs
         [(sample_env, Propose (block_hash sample_libs genesis)), (sample_env, Broadcast sample_d1),
          (sample_env, Finalize sample_d1)] sample_app))
     [sample_d1]"
  using commits_follow_reports [OF sample_channel_laws sample_app_ok, where pr = Debug
      and steps = "[(sample_env, Propose (block_hash sample_libs genesis)), (sample_env, Broadcast sample_d1),
          (sample_env, Finalize sample_d1)]" and es = sample_events]
  by (simp add: sample_events_def del: run_commits.simps)

end
