(* ===== verification/Commitments.thy ===== *)
theory Commitments
  imports Runs
begin

text \<open>
  What the digests of the chain commit to. A transaction root determines the transactions of a
  block, their number included, as long as none of them occurs twice; the transactions of a block
  that can be applied never do. Two replicas that commit the same digests therefore hold the same
  state, if each block they commit has the root of its transactions in its header.
\<close>

section \<open>Heights in the Merkle tree\<close>

text \<open>
  A digest is at height 0 if it is the hash of a transaction and at height \<open>k + 1\<close> if it is the
  hash of a pair of digests at height \<open>k\<close>, the hashed bytes being in \<open>A\<close>.
\<close>

inductive at_height :: "('sk, 'vk) libs \<Rightarrow> u8 list set \<Rightarrow> nat \<Rightarrow> digest \<Rightarrow> bool" for L A where
  leaf_height: "tx_encode L t \<in> A \<Longrightarrow> at_height L A 0 (tx_hash L t)"
| node_height: "at_height L A k a \<Longrightarrow> at_height L A k b \<Longrightarrow> node_input a b \<in> A \<Longrightarrow>
    at_height L A (Suc k) (node_hash L a b)"

lemma at_height_hashed: "at_height L A k d \<Longrightarrow> d \<in> sha256 L ` A"
  by (induction rule: at_height.induct) (auto simp: tx_hash_def node_hash_def)

text \<open>A transaction takes more than the 64 bytes of a pair of digests.\<close>

lemma tx_encode_not_node: "codec_laws L \<Longrightarrow> tx_encode L t \<noteq> node_input a b"
  by (rule notI, drule arg_cong [where f = length])
    (simp add: tx_encode_written write_tx_def node_input_def lib_codec_simps)

lemma leaf_not_node:
  assumes "codec_laws L" and "no_collision L A" and "tx_encode L t \<in> A" and "node_input a b \<in> A"
  shows "tx_hash L t \<noteq> node_hash L a b"
  using no_collisionD [OF assms(2-4)] tx_encode_not_node [OF assms(1)]
  by (auto simp: tx_hash_def node_hash_def)

lemma height_unique:
  assumes "codec_laws L" and "no_collision L A"
  shows "at_height L A k d \<Longrightarrow> at_height L A j d \<Longrightarrow> j = k"
proof (induction arbitrary: j rule: at_height.induct)
  case (leaf_height t)
  show ?case
    using leaf_height(2)
  proof (cases rule: at_height.cases)
    case (node_height k a b)
    with leaf_height(1) show ?thesis using leaf_not_node [OF assms, of t a b] by simp
  qed simp
next
  case (node_height k a b)
  show ?case
    using node_height.prems
  proof (cases rule: at_height.cases)
    case (leaf_height t)
    with node_height.hyps(3) show ?thesis using leaf_not_node [OF assms, of t a b] by simp
  next
    case (node_height k' a' b')
    then have "a = a'"
      using node_hash_eqD [OF assms(2), of a b a' b'] \<open>node_input a b \<in> A\<close> by simp
    with node_height show ?thesis using \<open>\<And>j. at_height L A j a \<Longrightarrow> j = k\<close> by simp
  qed
qed

lemma level_heights:
  "\<forall>d \<in> set ds. at_height L A k d \<Longrightarrow> level_inputs ds \<subseteq> A \<Longrightarrow>
   \<forall>d \<in> set (level L ds). at_height L A (Suc k) d"
  by (induction L ds rule: level.induct) (auto intro: node_height)

lemma merkle_inputs_step:
  "1 < length ds \<Longrightarrow> merkle_inputs L ds \<subseteq> A \<longleftrightarrow>
     level_inputs ds \<subseteq> A \<and> merkle_inputs L (level L ds) \<subseteq> A"
  by (subst merkle_inputs.simps) simp

lemma root_height:
  "\<forall>d \<in> set ds. at_height L A k d \<Longrightarrow> merkle_inputs L ds \<subseteq> A \<Longrightarrow> tx_root_loop L ds = Some r \<Longrightarrow>
   at_height L A (k + tree_depth (length ds)) r"
proof (induction "length ds" arbitrary: ds k rule: less_induct)
  case less
  show ?case
  proof (cases "1 < length ds")
    case True
    then have "at_height L A (Suc k + tree_depth (length (level L ds))) r"
      using less.prems level_heights [of ds L A k]
      by (intro less.hyps) (simp_all add: length_level tx_root_loop_step merkle_inputs_step)
    then show ?thesis by (simp add: length_level tree_depth_step [OF True])
  next
    case False
    with less.prems show ?thesis by (cases ds) (auto simp: tx_root_loop.simps)
  qed
qed


section \<open>Duplicate-free lists\<close>

lemma level_member:
  "d \<in> set (level L ds) \<Longrightarrow> \<exists>a b. a \<in> set ds \<and> d = node_hash L a b \<and> node_input a b \<in> level_inputs ds"
  by (induction L ds rule: level.induct) auto

lemma level_distinct:
  assumes "no_collision L A"
  shows "distinct ds \<Longrightarrow> level_inputs ds \<subseteq> A \<Longrightarrow> distinct (level L ds)"
proof (induction ds rule: level_inputs.induct)
  case (3 a b ds)
  have "node_hash L a b \<notin> set (level L ds)"
  proof
    assume "node_hash L a b \<in> set (level L ds)"
    then obtain c d where "c \<in> set ds" "node_hash L a b = node_hash L c d" "node_input c d \<in> level_inputs ds"
      using level_member by blast
    then have "a \<in> set ds" using node_hash_eqD [OF assms, of a b c d] 3(3) by auto
    with 3(2) show False by simp
  qed
  then show ?case using 3 by simp
qed simp_all

lemma level_inject_distinct:
  assumes "no_collision L A"
  shows "distinct ds \<Longrightarrow> distinct es \<Longrightarrow> level_inputs ds \<subseteq> A \<Longrightarrow> level_inputs es \<subseteq> A \<Longrightarrow>
    level L ds = level L es \<Longrightarrow> ds = es"
proof (induction ds arbitrary: es rule: level_inputs.induct)
  case 1
  then show ?case by (metis level.simps(1) level_Nil_iff)
next
  case (2 d)
  show ?case
  proof (cases es rule: level_inputs.cases)
    case (3 a b rest)
    have "d = a \<and> d = b"
      by (rule node_hash_eqD [OF assms]) (use 3 "2.prems" in simp_all)
    with 3 "2.prems"(2) show ?thesis by auto
  qed (use "2.prems" node_hash_eqD [OF assms, of d d] in auto)
next
  case (3 a b ds)
  show ?case
  proof (cases es rule: level_inputs.cases)
    case (2 d)
    have "a = d \<and> b = d"
      by (rule node_hash_eqD [OF assms]) (use 2 "3.prems" in simp_all)
    with "3.prems"(1) show ?thesis by auto
  next
    case es: (3 c d rest)
    have "a = c \<and> b = d"
      by (rule node_hash_eqD [OF assms]) (use es "3.prems" in simp_all)
    moreover have "ds = rest" using "3.IH" [of rest] "3.prems" es by simp
    ultimately show ?thesis using es by simp
  qed (use "3.prems" in simp)
qed

lemma tree_depth_0 [simp]: "tree_depth n = 0 \<longleftrightarrow> n \<le> 1"
  by (subst tree_depth.simps) simp

lemma same_depth_inject:
  assumes "no_collision L A"
  shows "tree_depth (length ds) = tree_depth (length es) \<Longrightarrow> distinct ds \<Longrightarrow> distinct es \<Longrightarrow>
    merkle_inputs L ds \<subseteq> A \<Longrightarrow> merkle_inputs L es \<subseteq> A \<Longrightarrow> ds \<noteq> [] \<Longrightarrow> es \<noteq> [] \<Longrightarrow>
    tx_root_loop L ds = tx_root_loop L es \<Longrightarrow> ds = es"
proof (induction "tree_depth (length ds)" arbitrary: ds es)
  case 0
  then have "length ds = 1" "length es = 1" by (cases ds; cases es; simp)+
  then obtain d e where "ds = [d]" "es = [e]" by (metis One_nat_def length_0_conv length_Suc_conv)
  with 0 show ?case by simp
next
  case (Suc n)
  then have len: "1 < length ds" "1 < length es" by (metis Suc_neq_Zero not_less tree_depth_0)+
  have inputs: "level_inputs ds \<subseteq> A" "merkle_inputs L (level L ds) \<subseteq> A"
    "level_inputs es \<subseteq> A" "merkle_inputs L (level L es) \<subseteq> A"
    using Suc.prems(4,5) len by (simp_all add: merkle_inputs_step)
  have "n = tree_depth (length (level L ds))" "n = tree_depth (length (level L es))"
    using Suc.hyps(2) Suc.prems(1) len by (simp_all add: length_level tree_depth_step)
  then have "level L ds = level L es"
    using Suc.prems inputs len level_distinct [OF assms]
    by (intro Suc.hyps(1)) (simp_all add: tx_root_loop_step)
  then show ?case by (intro level_inject_distinct [OF assms Suc.prems(2,3) inputs(1,3)])
qed

text \<open>The root of two duplicate-free lists of transactions.\<close>

lemma root_loop_binds:
  assumes "codec_laws L" and "no_collision L A"
    and "root_inputs L txs \<subseteq> A" and "root_inputs L us \<subseteq> A" and "distinct txs" and "distinct us"
    and "txs \<noteq> []" and "us \<noteq> []"
    and same: "tx_root_loop L (map (tx_hash L) txs) = tx_root_loop L (map (tx_hash L) us)"
  shows "txs = us"
proof -
  have enc: "tx_encode L ` set txs \<subseteq> A" "tx_encode L ` set us \<subseteq> A"
    and inputs: "merkle_inputs L (map (tx_hash L) txs) \<subseteq> A" "merkle_inputs L (map (tx_hash L) us) \<subseteq> A"
    using assms(3,4) by (simp_all add: root_inputs_def)
  have heights: "\<forall>d \<in> set (map (tx_hash L) ts). at_height L A 0 d" if "tx_encode L ` set ts \<subseteq> A" for ts
    using that by (auto intro: leaf_height)
  obtain r where r: "tx_root_loop L (map (tx_hash L) txs) = Some r"
    using tx_root_loop_merkle [of "map (tx_hash L) txs" L] assms(7) by simp
  note r2 = r [unfolded same]
  have "tree_depth (length txs) = tree_depth (length us)"
    using height_unique [OF assms(1,2) root_height [OF heights [OF enc(2)] inputs(2) r2]
        root_height [OF heights [OF enc(1)] inputs(1) r]] by simp
  moreover have "distinct (map (tx_hash L) ts)" if "tx_encode L ` set ts \<subseteq> A" "distinct ts" for ts
    unfolding distinct_map using that
    by (auto intro!: inj_onI tx_hash_eqD [OF assms(1,2)] simp: image_subset_iff)
  ultimately have "map (tx_hash L) txs = map (tx_hash L) us"
    using assms(5-9) enc inputs by (intro same_depth_inject [OF assms(2)]) simp_all
  then show ?thesis by (rule map_tx_hash_eqD [OF assms(1,2) enc])
qed


section \<open>Blocks within the wire format\<close>

text \<open>
  Every block an actor knows fits the wire format, and every byte string it queues for its peers
  is the encoding of such a block.
\<close>

definition encodable :: "block \<Rightarrow> bool" where
  "encodable b \<longleftrightarrow> length (blk_transactions b) \<le> MAX_TXS_PER_BLOCK"

definition wire_ok :: "('sk, 'vk) libs \<Rightarrow> 'sk application \<Rightarrow> bool" where
  "wire_ok L app \<longleftrightarrow>
     (\<forall>d b. fmlookup (app_pending app) d = Some b \<longrightarrow> encodable b) \<and>
     (\<forall>bytes \<in> set (app_blocks_out app). \<exists>b. encodable b \<and> bytes = block_encode L b)"

lemma wire_okD: "wire_ok L app \<Longrightarrow> fmlookup (app_pending app) d = Some b \<Longrightarrow> encodable b"
  unfolding wire_ok_def by blast

lemma wire_ok_cong:
  "wire_ok L app \<Longrightarrow> app_pending app' = app_pending app \<Longrightarrow> app_blocks_out app' = app_blocks_out app \<Longrightarrow>
   wire_ok L app'"
  by (simp add: wire_ok_def)

lemma wire_ok_learn:
  "wire_ok L app \<Longrightarrow> encodable b \<Longrightarrow> wire_ok L (app\<lparr>app_pending := fmupd d b (app_pending app)\<rparr>)"
  by (simp add: wire_ok_def)

lemma wire_ok_forget: "wire_ok L app \<Longrightarrow> wire_ok L (app\<lparr>app_pending := fmdrop d (app_pending app)\<rparr>)"
  by (auto simp: wire_ok_def split: if_splits)

lemma wire_ok_finalize:
  assumes "wire_ok L app" and "finalize pr L d app = (r, app')" and "r \<noteq> Panic"
  shows "wire_ok L app'"
proof (cases r)
  case (Ok u)
  with assms(2) obtain b s where "app' = committed L d b s app" by (auto simp: finalize_Ok_iff)
  then show ?thesis
    by (intro wire_ok_cong [OF wire_ok_forget [OF assms(1), of d]]) simp_all
next
  case (Err e)
  with assms(2) have "app' = app \<or> app' = app\<lparr>app_pending := fmdrop d (app_pending app)\<rparr>"
    by (auto simp: finalize_Err_iff)
  with assms(1) wire_ok_forget show ?thesis by metis
qed (use assms(3) in simp)

lemma wire_ok_propose:
  assumes "mempool_ok L (app_mempool app)" and "key_order it" and "wire_ok L app"
    and "propose pr L it c p app = (r, app')" and "r \<noteq> Panic"
  shows "wire_ok L app'"
proof (cases r)
  case (Ok d)
  from propose_block [OF assms(1,2) assms(4) [unfolded Ok]]
  obtain b where "app' = app\<lparr>app_pending := fmupd d b (app_pending app)\<rparr>"
    and "length (blk_transactions b) \<le> APP_MAX_TXS_PER_BLOCK" by blast
  then show ?thesis
    using wire_ok_learn [OF assms(3), of b d]
    by (simp add: encodable_def APP_MAX_TXS_PER_BLOCK_def MAX_TXS_PER_BLOCK_def)
next
  case (Err e)
  with assms(3,4) show ?thesis by (auto dest: propose_Err_state)
qed (use assms(5) in simp)

lemma wire_ok_move:
  assumes "codec_laws L" and "app_ok L app" and "wire_ok L app" and "app_moves pr L app app'"
  shows "wire_ok L app'"
proof -
  obtain env msg r where it: "key_order (env_senders env)"
    and one: "handle_message pr L env msg app = Some (r, app')"
    using assms(4) unfolding app_moves_def by blast
  have pool: "mempool_ok L (app_mempool app)" using assms(2) by (simp add: app_ok_def)
  show ?thesis
  proof (cases msg)
    case (Propose p)
    with one wire_ok_propose [OF pool it assms(3)] show ?thesis
      by (auto simp: handle_message_def split: prod.splits res.splits)
  next
    case (Finalize d)
    with one wire_ok_finalize [OF assms(3)] show ?thesis
      by (auto simp: handle_message_def split: prod.splits res.splits)
  next
    case (Broadcast d)
    with one assms(3) show ?thesis
      by (auto simp: handle_message_def broadcast_block_def wire_ok_def split: option.splits if_splits) blast
  next
    case (StoreBlock bytes)
    with one assms(3) block_decode_length [OF assms(1)] show ?thesis
      by (auto simp: handle_message_def store_block_def encodable_def intro: wire_ok_learn split: sum.splits)
  qed (use one assms(3) in \<open>auto simp: handle_message_def split: option.splits if_splits\<close>)
qed

interpretation wire_steps: stepwise "app_moves pr L"
    "\<lambda>app. (channel_laws L \<and> codec_laws L) \<and> app_ok L app \<and> wire_ok L app"
  for pr and L :: "('sk, 'vk) libs"
  by unfold_locales (auto intro: app_ok_move wire_ok_move)

lemma wire_ok_reaches:
  "channel_laws L \<Longrightarrow> codec_laws L \<Longrightarrow> app_ok L app0 \<Longrightarrow> wire_ok L app0 \<Longrightarrow>
   app_reaches pr L app0 bs app \<Longrightarrow> app_ok L app \<and> wire_ok L app"
  using wire_steps.star_keeps [OF app_reaches_moves] by blast

text \<open>The blocks committed in a run fit the wire format too, and repeat no transaction.\<close>

lemma committed_encodable:
  assumes "channel_laws L" and "codec_laws L" and "app_ok L app0" and "wire_ok L app0"
  shows "app_reaches pr L app0 bs app \<Longrightarrow> b \<in> set bs \<Longrightarrow> encodable b"
proof (induction rule: app_reaches.induct)
  case (reach_step bs app env msg r app')
  have "wire_ok L app" using wire_ok_reaches [OF assms reach_step.hyps(1)] by blast
  from reach_step.hyps(3) show ?case
  proof (cases rule: handle_message_cases)
    case (commit d c s)
    then show ?thesis using reach_step wire_okD [OF \<open>wire_ok L app\<close>] by auto
  qed (use reach_step in auto)
qed simp

lemma applied_blocks_distinct:
  "apply_blocks pr L bs s = (Ok u, s') \<Longrightarrow> \<forall>b \<in> set bs. encodable b \<Longrightarrow>
   \<forall>b \<in> set bs. distinct (blk_transactions b)"
proof (induction bs arbitrary: s)
  case (Cons b bs)
  then obtain s1 where "apply_block pr L b s = (Ok (), s1)" and "apply_blocks pr L bs s1 = (Ok (), s')"
    by (auto simp: chain_ledger.run_Cons_Ok)
  moreover have "length (blk_transactions b) \<le> 2 ^ 64"
    using Cons.prems(2) by (simp add: encodable_def MAX_TXS_PER_BLOCK_def)
  ultimately show ?case
    using Cons.IH Cons.prems(2) applied_txs_distinct by (auto simp: apply_block_Ok_iff)
qed simp


section \<open>Rooted blocks\<close>

text \<open>
  A block is rooted if its header carries the root of its transactions, as \<open>Block::new\<close> makes it.
  The byte strings that its digest depends on are its header and what its root hashes.
\<close>

definition rooted :: "('sk, 'vk) libs \<Rightarrow> block \<Rightarrow> bool" where
  "rooted L b \<longleftrightarrow> compute_tx_root L (blk_transactions b) = Some (hd_tx_root (blk_header b))"

definition block_inputs :: "('sk, 'vk) libs \<Rightarrow> block \<Rightarrow> u8 list set" where
  "block_inputs L b = insert (header_encode L (blk_header b)) (root_inputs L (blk_transactions b))"

lemma rooted_new: "block_new L h p t pr txs = Some b \<Longrightarrow> rooted L b \<and> blk_transactions b = txs"
  by (auto simp: rooted_def block_new_eq compute_tx_root_eq)

lemma compute_tx_root_binds:
  assumes "codec_laws L" and "no_collision L A" and "zero_hash \<notin> sha256 L ` A"
    and "root_inputs L txs \<subseteq> A" and "root_inputs L us \<subseteq> A" and "distinct txs" and "distinct us"
    and same: "compute_tx_root L txs = compute_tx_root L us"
  shows "txs = us"
proof -
  have not_zero: "tx_root_loop L (map (tx_hash L) ts) \<noteq> Some zero_hash" if "root_inputs L ts \<subseteq> A" for ts
  proof
    assume "tx_root_loop L (map (tx_hash L) ts) = Some zero_hash"
    moreover have "\<forall>d \<in> set (map (tx_hash L) ts). at_height L A 0 d"
      and "merkle_inputs L (map (tx_hash L) ts) \<subseteq> A"
      using that by (auto simp: root_inputs_def intro: leaf_height)
    ultimately have "zero_hash \<in> sha256 L ` A" by (blast dest: root_height at_height_hashed)
    with assms(3) show False by blast
  qed
  show ?thesis
  proof (cases "txs = [] \<or> us = []")
    case True
    then show ?thesis
      using same not_zero [OF assms(4)] not_zero [OF assms(5)]
      by (auto simp: compute_tx_root_def split: if_splits)
  next
    case False
    with same show ?thesis
      by (intro root_loop_binds [OF assms(1,2,4-7)]) (simp_all add: compute_tx_root_def)
  qed
qed

lemma rooted_block_hash_inject:
  assumes "codec_laws L" and "no_collision L A" and "zero_hash \<notin> sha256 L ` A"
    and "block_inputs L b \<subseteq> A" and "block_inputs L c \<subseteq> A" and "rooted L b" and "rooted L c"
    and "distinct (blk_transactions b)" and "distinct (blk_transactions c)"
    and "block_hash L b = block_hash L c"
  shows "b = c"
proof -
  have header: "blk_header b = blk_header c"
    using assms(4,5) by (intro block_hash_eqD [OF assms(1,2) _ _ assms(10)]) (simp_all add: block_inputs_def)
  then have "compute_tx_root L (blk_transactions b) = compute_tx_root L (blk_transactions c)"
    using assms(6,7) by (simp add: rooted_def)
  then have "blk_transactions b = blk_transactions c"
    using assms(4,5,8,9) by (intro compute_tx_root_binds [OF assms(1-3)]) (simp_all add: block_inputs_def)
  with header show ?thesis by simp
qed


section \<open>Properties\<close>

text \<open>
  On inputs where the hash function does not collide and does not hit the zero digest, the
  root determines the transactions of a block, their number, order and signatures included, as
  long as no transaction is repeated.
\<close>

theorem tx_root_determines:
  assumes "codec_laws L" and "no_collision L (root_inputs L txs \<union> root_inputs L us)"
    and "zero_hash \<notin> sha256 L ` (root_inputs L txs \<union> root_inputs L us)"
    and "distinct txs" and "distinct us"
  shows "compute_tx_root L txs = compute_tx_root L us \<longleftrightarrow> txs = us"
  using compute_tx_root_binds [OF assms(1-3) _ _ assms(4,5)] by auto

text \<open>
  C22: under the same conditions on what is hashed, two blocks made by \<open>Block::new\<close> without
  repeated transactions have the same hash only if they are the same block: height, parent, time,
  proposer and every transaction.
\<close>

theorem block_hash_determines:
  assumes "codec_laws L" and "block_new L h p t pr txs = Some b" and "block_new L h' p' t' pr' us = Some c"
    and "no_collision L (block_inputs L b \<union> block_inputs L c)"
    and "zero_hash \<notin> sha256 L ` (block_inputs L b \<union> block_inputs L c)"
    and "distinct txs" and "distinct us"
  shows "block_hash L b = block_hash L c \<longleftrightarrow> b = c"
  using rooted_block_hash_inject [OF assms(1,4,5)] rooted_new [OF assms(2)] rooted_new [OF assms(3)] assms(6,7)
  by auto

text \<open>
  What an actor has, its peers can read: from any start in which this holds - a freshly
  booted node has no known blocks and an empty queue - every block it ever knows is within the
  limit of the wire format, and every byte string it queues for its peers decodes to a block
  within the limit whose encoding it is.
\<close>

theorem queued_bytes_decode:
  assumes "channel_laws L" and "codec_laws L" and "app_ok L app0" and "wire_ok L app0"
    and "app_reaches pr L app0 bs app"
  shows "(\<forall>d b. fmlookup (app_pending app) d = Some b \<longrightarrow> length (blk_transactions b) \<le> 16384) \<and>
    (\<forall>bytes \<in> set (app_blocks_out app). \<exists>b. block_decode L bytes = Inr b \<and> block_encode L b = bytes \<and>
       length (blk_transactions b) \<le> 16384)"
  using wire_ok_reaches [OF assms(1-4) assms(5)] block_decode_encode [OF assms(2)]
  unfolding wire_ok_def encodable_def MAX_TXS_PER_BLOCK_def by metis

text \<open>
  Agreement on digests. Two replicas that start from the same state and the same blocks and
  commit the same digests in the same order have the same state, the same finalized blocks and
  have committed the same blocks, whatever else they handle and in whatever order - provided
  that each committed block carries the root of its transactions, which the code leaves to the
  honesty of the peers, and that the hash function does not collide on what they hash.
\<close>

theorem replicas_agree_on_digests:
  assumes "channel_laws L" and "codec_laws L"
    and "app_ok L a0" and "wire_ok L a0" and "app_reaches pr L a0 bs a"
    and "app_ok L b0" and "wire_ok L b0" and "app_reaches pr L b0 cs b"
    and "app_state a0 = app_state b0" and "app_blocks a0 = app_blocks b0"
    and "map (block_hash L) bs = map (block_hash L) cs"
    and "\<forall>c \<in> set bs \<union> set cs. rooted L c"
    and "no_collision L (\<Union>c \<in> set bs \<union> set cs. block_inputs L c)"
    and "zero_hash \<notin> sha256 L ` (\<Union>c \<in> set bs \<union> set cs. block_inputs L c)"
  shows "app_state a = app_state b \<and> app_blocks a = app_blocks b \<and> bs = cs"
proof -
  note replay = reaches_replay [OF assms(5)] reaches_replay [OF assms(8)]
  have "\<forall>c \<in> set bs. distinct (blk_transactions c)"
    by (intro applied_blocks_distinct [OF conjunct1 [OF replay(1)]] ballI committed_encodable [OF assms(1-5)])
  moreover have "\<forall>c \<in> set cs. distinct (blk_transactions c)"
    by (intro applied_blocks_distinct [OF conjunct1 [OF replay(2)]] ballI committed_encodable [OF assms(1,2,6-8)])
  ultimately have "inj_on (block_hash L) (set bs \<union> set cs)"
    using assms(12)
    by (intro inj_onI rooted_block_hash_inject [OF assms(2,13,14)]) auto
  with assms(11) have "bs = cs" by (simp add: inj_on_map_eq_map)
  with replay assms(9,10) show ?thesis by simp
qed


subsection \<open>Witnesses\<close>

lemma sample_sha256_not_zero: "sample_mix x \<noteq> 0 \<Longrightarrow> sample_sha256 x \<noteq> zero_hash"
proof
  assume "sample_mix x \<noteq> 0" and "sample_sha256 x = zero_hash"
  then have "as_slice (pad_bytes (to_le_bytes (sample_mix x)) :: 32 bytes) = as_slice (repeat_byte 0 :: 32 bytes)"
    by (simp add: sample_sha256_def zero_hash_def)
  then have "take 8 (to_le_bytes (sample_mix x) @ replicate 24 0) = take 8 (replicate 32 (0 :: u8))"
    by simp
  moreover have "to_le_bytes 0 = replicate 8 0" by code_simp
  ultimately have "to_le_bytes (sample_mix x) = to_le_bytes 0" by simp
  with \<open>sample_mix x \<noteq> 0\<close> show False by (simp only: to_le_bytes_inject)
qed

lemma sample_inputs_ok:
  assumes "distinct (map sample_mix xs) \<and> 0 \<notin> set (map sample_mix xs)"
  shows "no_collision sample_libs (set xs) \<and> zero_hash \<notin> sha256 sample_libs ` set xs"
proof
  show "no_collision sample_libs (set xs)"
    using assms by (intro no_collision_list) (simp add: distinct_map inj_on_def)
  show "zero_hash \<notin> sha256 sample_libs ` set xs"
    using assms sample_sha256_not_zero by force
qed

text \<open>What the root of three transactions hashes, and that of four.\<close>

definition sample_more_inputs :: "u8 list list" where
  "sample_more_inputs =
     (let e1 = sample_tx_bytes 1 2 10 0; e2 = sample_tx_bytes 1 2 20 1;
          e3 = sample_tx_bytes 1 2 30 2; e4 = sample_tx_bytes 1 2 40 3;
          h1 = sample_sha256 e1; h2 = sample_sha256 e2; h3 = sample_sha256 e3; h4 = sample_sha256 e4;
          n12 = node_input h1 h2; n33 = node_input h3 h3; n34 = node_input h3 h4
      in [e1, e2, e3, e4, n12, n33, n34,
          node_input (sample_sha256 n12) (sample_sha256 n33),
          node_input (sample_sha256 n12) (sample_sha256 n34)])"

lemma sample_more_inputs_ok:
  "no_collision sample_libs (set sample_more_inputs) \<and>
   zero_hash \<notin> sha256 sample_libs ` set sample_more_inputs"
  by (rule sample_inputs_ok) code_simp

lemma sample_more_inputs_cover:
  "root_inputs sample_libs [stx 10 0, stx 20 1, stx 30 2] \<union>
   root_inputs sample_libs [stx 10 0, stx 20 1, stx 30 2, stx 40 3] \<subseteq> set sample_more_inputs"
  by (simp add: root_inputs_def merkle_inputs.simps tx_hash_stx node_hash_sample
      sample_more_inputs_def Let_def tx_encode_stx)

theorem tx_root_determines_witness:
  "compute_tx_root sample_libs [stx 10 0, stx 20 1, stx 30 2] \<noteq>
   compute_tx_root sample_libs [stx 10 0, stx 20 1, stx 30 2, stx 40 3]"
  using tx_root_determines [OF sample_codec_laws
      no_collision_mono [OF conjunct1 [OF sample_more_inputs_ok] sample_more_inputs_cover]]
    sample_more_inputs_ok sample_more_inputs_cover
  by auto

theorem block_hash_determines_witness:
  "map_option (block_hash sample_libs) (block_new sample_libs 1 zero_hash 0 (repeat_byte 0) [stx 10 0])
   \<noteq> map_option (block_hash sample_libs) (block_new sample_libs 1 zero_hash 0 (repeat_byte 0) [])"
proof -
  let ?new = "\<lambda>txs. block_new sample_libs 1 zero_hash 0 (repeat_byte 0) txs"
  let ?e = "sample_tx_bytes 1 2 10 0"
  let ?xs = "[sample_header_bytes (sample_sha256 ?e), sample_header_bytes zero_hash, ?e]"
  obtain b c where bc: "?new [stx 10 0] = Some b" "?new [] = Some c" by (simp add: block_new_eq)
  have "header_encode sample_libs (blk_header b) = sample_header_bytes (sample_sha256 ?e)"
    "header_encode sample_libs (blk_header c) = sample_header_bytes zero_hash"
    using bc by (auto simp: block_new_eq tx_root_def merkle_root_def tx_hash_stx header_encode_written
        sample_codec_laws write_header_def sample_codec_defs sample_header_bytes_def zero_hash_def)
  moreover have "blk_transactions b = [stx 10 0]" "blk_transactions c = []"
    using bc by (auto simp: block_new_eq)
  ultimately have inputs: "block_inputs sample_libs b \<union> block_inputs sample_libs c = set ?xs"
    by (simp add: block_inputs_def root_inputs_single tx_encode_stx root_inputs_def merkle_inputs.simps
        insert_commute)
  have "no_collision sample_libs (set ?xs) \<and> zero_hash \<notin> sha256 sample_libs ` set ?xs"
    by (rule sample_inputs_ok) code_simp
  then have "block_hash sample_libs b = block_hash sample_libs c \<longleftrightarrow> b = c"
    using block_hash_determines [OF sample_codec_laws bc] unfolding inputs by simp
  with bc show ?thesis by (auto simp: block_new_eq)
qed

theorem queued_bytes_decode_witness:
  "let app = broadcast_block sample_libs sample_d1 sample_app1
   in app_blocks_out app \<noteq> [] \<and>
      (\<forall>bytes \<in> set (app_blocks_out app). \<exists>b. block_decode sample_libs bytes = Inr b)"
proof -
  let ?app = "broadcast_block sample_libs sample_d1 sample_app1"
  have "app_reaches Debug sample_libs sample_app
      ([] @ commits Debug sample_libs (Propose (block_hash sample_libs genesis)) sample_app) sample_app1"
    by (rule reach_step [OF reach_start, of sample_env]) (simp_all add: handle_message_def sample_proposal1)
  then have "app_reaches Debug sample_libs sample_app ([] @ commits Debug sample_libs (Broadcast sample_d1) sample_app1) ?app"
    by (intro reach_step [where env = sample_env]) (simp_all add: commits_def handle_message_def)
  moreover have "wire_ok sample_libs sample_app" by (simp add: wire_ok_def)
  moreover have "app_blocks_out ?app \<noteq> []"
    by (simp add: broadcast_block_def sample_app1_def BLOCKS_OUT_CAPACITY_def)
  ultimately show ?thesis
    using queued_bytes_decode [OF sample_channel_laws sample_codec_laws sample_app_ok] by (simp add: Let_def) blast
qed

lemma rooted_sample_on: "rooted sample_libs (sample_on p t)"
  by (simp add: rooted_def sample_on_def compute_tx_root_eq)

text \<open>What the hash of a sample block commits to.\<close>

lemma sample_block_inputs_ok:
  "no_collision sample_libs (block_inputs sample_libs (sample_on genesis 5)) \<and>
   zero_hash \<notin> sha256 sample_libs ` block_inputs sample_libs (sample_on genesis 5)"
proof -
  let ?xs = "let e1 = sample_tx_bytes 1 2 10 0; e2 = sample_tx_bytes 1 2 20 1;
      g = sample_sha256 (sample_at_bytes 0 0)
    in [sample_on_bytes 1 g 5, e1, e2, node_input (sample_sha256 e1) (sample_sha256 e2)]"
  have "header_encode sample_libs (blk_header (sample_on genesis 5)) =
      sample_on_bytes 1 (block_hash sample_libs genesis) 5"
    by (simp add: sample_on_def sample_on_bytes_def header_encode_written sample_codec_laws
        write_header_def sample_codec_defs tx_root_pair node_hash_sample tx_hash_stx Let_def)
  then have inputs: "block_inputs sample_libs (sample_on genesis 5) = set ?xs"
    by (simp add: block_inputs_def root_inputs_def merkle_inputs.simps Let_def tx_encode_stx tx_hash_stx
        block_hash_genesis insert_commute)
  show ?thesis unfolding inputs by (rule sample_inputs_ok) code_simp
qed

theorem replicas_agree_on_digests_witness:
  "\<exists>a b. app_reaches Debug sample_libs sample_app [sample_on genesis 5] a \<and>
     app_reaches Debug sample_libs sample_app [sample_on genesis 5] b \<and> app_state a = app_state b"
proof -
  have "wire_ok sample_libs sample_app" by (simp add: wire_ok_def)
  then show ?thesis
    using replicas_agree_on_digests [OF sample_channel_laws sample_codec_laws sample_app_ok _
        sample_proposer_run [of Debug] sample_app_ok _ sample_validator_run [of Debug]]
      sample_proposer_run [of Debug] rooted_sample_on sample_block_inputs_ok
    by auto
qed

end
