(* ===== verification/Chain.thy ===== *)
theory Chain
  imports Commitments
begin

text \<open>
  The chain of a validator whose engine keeps its side of the contract: it finalizes a digest only
  if the actor has endorsed it as a child of the finalized tip before. Then the committed blocks
  form a hash chain from the genesis block, with consecutive heights, although finalization checks
  neither the parent nor the height of what it commits.
\<close>

section \<open>Endorsements\<close>

text \<open>
  The pairs of a parent and a child that an answer of the actor vouches for: its own proposal, and
  a proposal it accepted while it knew the parent. (On an unknown parent \<open>verify\<close> does not look at
  the height.)
\<close>

definition endorsed :: "message \<Rightarrow> reply \<Rightarrow> 'sk application \<Rightarrow> (digest \<times> digest) set" where
  "endorsed msg r app =
     (case msg of
        Propose p \<Rightarrow> (case r of ReplyDigest d \<Rightarrow> {(p, d)} | _ \<Rightarrow> {})
      | Verify p d \<Rightarrow> if r = ReplyBool True \<and> block_by_digest app p \<noteq> None then {(p, d)} else {}
      | _ \<Rightarrow> {})"

text \<open>Runs in which the engine is disciplined, and all headers that occur are among \<open>H\<close>.\<close>

definition headers_in :: "block_header set \<Rightarrow> 'sk application \<Rightarrow> bool" where
  "headers_in H app \<longleftrightarrow> (\<forall>d b. fmlookup (app_pending app) d = Some b \<longrightarrow> blk_header b \<in> H)"

inductive disciplined ::
  "profile \<Rightarrow> ('sk, 'vk) libs \<Rightarrow> block_header set \<Rightarrow> 'sk application \<Rightarrow> block list \<Rightarrow>
     (digest \<times> digest) set \<Rightarrow> 'sk application \<Rightarrow> bool"
  for pr L H app0 where
  disciplined_start: "headers_in H app0 \<Longrightarrow> disciplined pr L H app0 [] {} app0"
| disciplined_step: "disciplined pr L H app0 bs E app \<Longrightarrow> key_order (env_senders env) \<Longrightarrow>
    handle_message pr L env msg app = Some (r, app') \<Longrightarrow> headers_in H app' \<Longrightarrow>
    (\<forall>d. msg = Finalize d \<longrightarrow> (\<exists>t. tip (app_blocks app) = Some t \<and> (block_hash L t, d) \<in> E)) \<Longrightarrow>
    disciplined pr L H app0 (bs @ commits pr L msg app) (E \<union> endorsed msg r app) app'"

lemma disciplined_reaches: "disciplined pr L H app0 bs E app \<Longrightarrow> app_reaches pr L app0 bs app"
  by (induction rule: disciplined.induct) (auto intro: app_reaches.intros)

lemma disciplined_headers: "disciplined pr L H app0 bs E app \<Longrightarrow> headers_in H app"
  by (induction rule: disciplined.induct) auto

text \<open>A child: it names the digest of its parent and has the next height.\<close>

definition child_of :: "profile \<Rightarrow> ('sk, 'vk) libs \<Rightarrow> block_header \<Rightarrow> block_header \<Rightarrow> bool" where
  "child_of pr L h g \<longleftrightarrow>
     hd_parent_hash h = sha256 L (header_encode L g) \<and> add_u64 pr (hd_height g) 1 = Some (hd_height h)"

text \<open>What an endorsement vouches for, as long as the headers among \<open>H\<close> are known by their hash.\<close>

definition vouched ::
  "profile \<Rightarrow> ('sk, 'vk) libs \<Rightarrow> block_header set \<Rightarrow> (digest \<times> digest) set \<Rightarrow> bool" where
  "vouched pr L H E \<longleftrightarrow>
     (\<forall>(p, d) \<in> E. \<exists>g \<in> H. \<exists>h \<in> H. sha256 L (header_encode L g) = p \<and>
        sha256 L (header_encode L h) = d \<and> child_of pr L h g)"

lemma vouchedI:
  "g \<in> H \<Longrightarrow> h \<in> H \<Longrightarrow> sha256 L (header_encode L g) = p \<Longrightarrow> sha256 L (header_encode L h) = d \<Longrightarrow>
   child_of pr L h g \<Longrightarrow> vouched pr L H {(p, d)}"
  unfolding vouched_def by blast

lemma vouchedD:
  assumes "vouched pr L H E" and "(p, d) \<in> E"
  obtains g h where "g \<in> H" "h \<in> H" "sha256 L (header_encode L g) = p"
    "sha256 L (header_encode L h) = d" "child_of pr L h g"
  using bspec [OF assms(1) [unfolded vouched_def] assms(2)] by auto

lemma vouched_union [simp]: "vouched pr L H (E \<union> F) \<longleftrightarrow> vouched pr L H E \<and> vouched pr L H F"
  unfolding vouched_def ball_Un by (rule refl)

lemma vouched_empty [simp]: "vouched pr L H {}"
  by (simp add: vouched_def)

text \<open>The known blocks and those of the store are found under their own digest.\<close>

lemma known_block:
  assumes "app_ok L app" and "headers_in H app" and "\<forall>b \<in> stored_blocks (app_blocks app). blk_header b \<in> H"
    and "block_by_digest app d = Some b"
  shows "block_hash L b = d \<and> blk_header b \<in> H"
proof (cases "fmlookup (app_pending app) d")
  case None
  with assms(4) have found: "get_by_hash (app_blocks app) d = Some b" by (simp add: block_by_digest_def)
  then have "b \<in> stored_blocks (app_blocks app)" by (auto simp: get_by_hash_def stored_blocks_def intro: fmran'I)
  with found assms(1,3) show ?thesis by (auto simp: app_ok_def bs_keyed_def get_by_hash_def)
next
  case (Some c)
  with assms show ?thesis by (simp add: block_by_digest_def app_ok_def headers_in_def)
qed

lemma endorsed_vouched:
  assumes "app_ok L app" and "headers_in H app" and "headers_in H app'"
    and "\<forall>b \<in> stored_blocks (app_blocks app). blk_header b \<in> H"
    and "key_order (env_senders env)" and "handle_message pr L env msg app = Some (r, app')"
  shows "vouched pr L H (endorsed msg r app)"
proof (cases msg)
  case (Propose p)
  show ?thesis
  proof (cases r)
    case (ReplyDigest d)
    have pool: "mempool_ok L (app_mempool app)" using assms(1) by (simp add: app_ok_def)
    have "propose pr L (env_senders env) (env_clock env) p app = (Ok d, app')"
      using assms(6) Propose ReplyDigest by (auto simp: handle_message_def split: prod.splits res.splits)
    from propose_block [OF pool assms(5) this] obtain q b where q: "block_by_digest app p = Some q"
      and b: "fmlookup (app_pending app') d = Some b" "d = block_hash L b" "block_parent b = block_hash L q"
        "add_u64 pr (block_height q) 1 = Some (block_height b)" by blast
    have "vouched pr L H {(p, d)}"
      using known_block [OF assms(1,2,4) q] b assms(3)
      by (intro vouchedI [of "blk_header q" H "blk_header b"])
        (auto simp: headers_in_def block_hash_def child_of_def block_parent_def block_height_def)
    then show ?thesis using Propose ReplyDigest by (simp add: endorsed_def)
  qed (use Propose in \<open>simp_all add: endorsed_def\<close>)
next
  case (Verify p d)
  show ?thesis
  proof (cases "r = ReplyBool True \<and> block_by_digest app p \<noteq> None")
    case True
    then obtain q where q: "block_by_digest app p = Some q" by blast
    have "verify pr L p d app = Some True"
      using assms(6) Verify True by (auto simp: handle_message_def split: option.splits)
    then obtain b where b: "fmlookup (app_pending app) d = Some b" "hd_parent_hash (blk_header b) = p"
      "add_u64 pr (block_height q) 1 = Some (block_height b)"
      using q by (auto simp: verify_def block_height_def split: option.splits if_splits bool.splits)
    have "vouched pr L H {(p, d)}"
      using known_block [OF assms(1,2,4) q] b assms(1,2)
      by (intro vouchedI [of "blk_header q" H "blk_header b"])
        (auto simp: headers_in_def block_hash_def child_of_def block_height_def app_ok_def)
    then show ?thesis using Verify True by (simp add: endorsed_def)
  qed (use Verify in \<open>auto simp: endorsed_def\<close>)
qed (simp_all add: endorsed_def)


section \<open>The chain\<close>

definition linked :: "profile \<Rightarrow> ('sk, 'vk) libs \<Rightarrow> block list \<Rightarrow> bool" where
  "linked pr L bs \<longleftrightarrow>
     (\<forall>i. Suc i < length bs \<longrightarrow> child_of pr L (blk_header (bs ! Suc i)) (blk_header (bs ! i)))"

lemma linked_snoc:
  assumes "linked pr L bs" and "bs \<noteq> []" and "child_of pr L (blk_header b) (blk_header (last bs))"
  shows "linked pr L (bs @ [b])"
proof -
  have "child_of pr L (blk_header ((bs @ [b]) ! Suc i)) (blk_header ((bs @ [b]) ! i))"
    if "Suc i < length (bs @ [b])" for i
  proof (cases "Suc i < length bs")
    case True
    with assms(1) show ?thesis by (simp add: linked_def nth_append)
  next
    case False
    with that have "i = length bs - 1" "Suc i = length bs" by simp_all
    with assms(2,3) show ?thesis by (simp add: nth_append last_conv_nth)
  qed
  then show ?thesis unfolding linked_def by blast
qed

text \<open>What holds of the committed blocks after any disciplined run from a fresh actor.\<close>

definition chain_ok :: "profile \<Rightarrow> ('sk, 'vk) libs \<Rightarrow> block_header set \<Rightarrow> block list \<Rightarrow> bool" where
  "chain_ok pr L H bs \<longleftrightarrow>
     blk_header ` set (genesis # bs) \<subseteq> H \<and> linked pr L (genesis # bs) \<and>
     unat (block_height (last (genesis # bs))) = length bs \<and>
     tip (store_of L (genesis # bs)) = Some (last (genesis # bs))"

lemma chain_ok_snoc:
  assumes "codec_laws L" and "no_collision L (header_encode L ` H)" and "chain_ok pr L H bs"
    and "blk_header b \<in> H" and "child_of pr L (blk_header b) (blk_header (last (genesis # bs)))"
    and "Suc (length bs) < 2 ^ 64"
  shows "chain_ok pr L H (bs @ [b])"
proof -
  let ?t = "last (genesis # bs)"
  have chain: "blk_header ` set (genesis # bs) \<subseteq> H" "linked pr L (genesis # bs)"
    "unat (block_height ?t) = length bs" "tip (store_of L (genesis # bs)) = Some ?t"
    using assms(3) unfolding chain_ok_def by blast+
  have "block_height b = block_height ?t + 1"
    using assms(5) by (auto simp: child_of_def block_height_def dest: add_u64_Some)
  moreover have max: "block_height ?t \<noteq> u64_max"
    using chain(3) assms(6) by (auto simp: word_unat_eq_iff)
  ultimately have height: "unat (block_height b) = Suc (length bs)" "block_height ?t < block_height b"
    using unat_inc_u64 [OF max] less_inc_u64 [OF max] chain(3) by simp_all
  have "no_collision L ((\<lambda>b. header_encode L (blk_header b)) ` set (genesis # bs))"
    using chain(1) by (intro no_collision_mono [OF assms(2)]) auto
  then have "bs_indexed (store_of L (genesis # bs))"
    using store_of_heights [OF hash_separates_no_collision [OF assms(1)]] by blast
  from tip_insert_higher [OF this chain(4) height(2), of L]
  have "tip (store_of L (genesis # bs @ [b])) = Some b"
    using store_of_snoc [of L "genesis # bs" b] by simp
  moreover have "linked pr L (genesis # bs @ [b])"
    using linked_snoc [OF chain(2) _ assms(5)] by simp
  ultimately show ?thesis using chain(1) assms(4) height(1) by (simp add: chain_ok_def)
qed

lemma child_commit:
  assumes "codec_laws L" and "no_collision L (header_encode L ` H)" and "vouched pr L H E"
    and "(block_hash L t, block_hash L b) \<in> E" and "blk_header t \<in> H" and "blk_header b \<in> H"
  shows "child_of pr L (blk_header b) (blk_header t)"
proof -
  obtain g h where gh: "g \<in> H" "h \<in> H" "sha256 L (header_encode L g) = block_hash L t"
    "sha256 L (header_encode L h) = block_hash L b" "child_of pr L h g"
    by (rule vouchedD [OF assms(3,4)])
  have same: "x = y" if "x \<in> H" "y \<in> H" "sha256 L (header_encode L x) = sha256 L (header_encode L y)" for x y
  proof -
    have "header_encode L x = header_encode L y"
      by (rule no_collisionD [OF assms(2)]) (use that in simp_all)
    then show ?thesis by (simp only: header_encode_inject [OF assms(1)])
  qed
  have "g = blk_header t"
    by (rule same) (use gh(1,3) assms(5) in \<open>simp_all add: block_hash_def\<close>)
  moreover have "h = blk_header b"
    by (rule same) (use gh(2,4) assms(6) in \<open>simp_all add: block_hash_def\<close>)
  ultimately show ?thesis using gh(5) by simp
qed

lemma disciplined_chain:
  assumes "channel_laws L" and "codec_laws L" and "no_collision L (header_encode L ` H)"
    and "app_ok L app0" and "app_blocks app0 = store_of L [genesis]" and "blk_header genesis \<in> H"
  shows "disciplined pr L H app0 bs E app \<Longrightarrow> length bs < 2 ^ 64 \<Longrightarrow>
    chain_ok pr L H bs \<and> vouched pr L H E \<and> app_blocks app = store_of L (genesis # bs)"
proof (induction rule: disciplined.induct)
  case disciplined_start
  have "linked pr L [genesis]" by (simp add: linked_def)
  then show ?case using assms(5,6) by (simp add: chain_ok_def)
next
  case (disciplined_step bs E app env msg r app')
  have len: "length bs < 2 ^ 64" using disciplined_step.prems by simp
  note IH = disciplined_step.IH [OF len]
  have reach: "app_reaches pr L app0 bs app" by (rule disciplined_reaches [OF disciplined_step.hyps(1)])
  have ok: "app_ok L app"
    using app_steps.star_keeps [OF app_reaches_moves [OF reach]] assms(1,4) by blast
  have headers: "headers_in H app" by (rule disciplined_headers [OF disciplined_step.hyps(1)])
  have stored: "\<forall>b \<in> stored_blocks (app_blocks app). blk_header b \<in> H"
    using IH stored_blocks_store_of [of L "genesis # bs"] by (auto simp: chain_ok_def)
  have vouched: "vouched pr L H (E \<union> endorsed msg r app)"
    using IH endorsed_vouched [OF ok headers disciplined_step.hyps(4) stored disciplined_step.hyps(2,3)] by simp
  show ?case
    using disciplined_step.hyps(3)
  proof (cases rule: handle_message_cases)
    case (commit d b s)
    obtain t where t: "tip (app_blocks app) = Some t" "(block_hash L t, d) \<in> E"
      using disciplined_step.hyps(5) commit(1) by blast
    have last: "t = last (genesis # bs)" using t(1) IH by (simp add: chain_ok_def)
    have b: "block_hash L b = d" "blk_header b \<in> H"
      using ok headers commit(2) by (auto simp: app_ok_def headers_in_def)
    have "blk_header t \<in> H" using IH unfolding chain_ok_def last by force
    then have "child_of pr L (blk_header b) (blk_header t)"
      using IH t(2) b by (intro child_commit [OF assms(2,3)]) auto
    then have "chain_ok pr L H (bs @ [b])"
      using IH b(2) disciplined_step.prems commit(5) unfolding last
      by (intro chain_ok_snoc [OF assms(2,3)]) auto
    moreover have "app_blocks app' = store_of L (genesis # bs @ [b])"
      using commit(4) IH store_of_snoc [of L "genesis # bs" b] by simp
    ultimately show ?thesis using vouched commit(5) by simp
  qed (use IH vouched in \<open>simp_all del: vouched_union\<close>)
qed


section \<open>Properties\<close>

text \<open>
  C10: the committed chain is a chain. From a fresh start, and with an engine that finalizes only
  what the actor has endorsed as a child of its tip, the committed blocks form a hash chain on the
  genesis block: each names the digest of its predecessor, the \<open>i\<close>-th has height \<open>i\<close>, and the tip
  is the last one committed - although \<open>finalize\<close> checks neither parent nor height, peers may
  replace known blocks in between, and an endorsement may be long past when it is used.
\<close>

theorem committed_chain_linked:
  assumes "channel_laws L" and "codec_laws L" and "no_collision L (header_encode L ` H)"
    and "app_ok L app0" and "app_blocks app0 = store_of L [genesis]" and "blk_header genesis \<in> H"
    and "disciplined pr L H app0 bs E app" and "length bs < 2 ^ 64"
  shows "(\<forall>i < length bs. block_parent (bs ! i) = block_hash L ((genesis # bs) ! i) \<and>
      unat (block_height (bs ! i)) = Suc i) \<and>
    tip (app_blocks app) = Some (last (genesis # bs)) \<and>
    app_blocks app = store_of L (genesis # bs)"
proof -
  have chain: "linked pr L (genesis # bs)" "tip (store_of L (genesis # bs)) = Some (last (genesis # bs))"
    and store: "app_blocks app = store_of L (genesis # bs)"
    using disciplined_chain [OF assms(1-6,7,8)] unfolding chain_ok_def by blast+
  have link: "child_of pr L (blk_header (bs ! i)) (blk_header ((genesis # bs) ! i))" if "i < length bs" for i
    using chain(1) that by (auto simp: linked_def)
  have height: "unat (block_height (bs ! i)) = Suc i" if "i < length bs" for i
    using that
  proof (induction i)
    case 0
    then show ?case using link [of 0] by (auto simp: child_of_def block_height_def genesis_def dest!: add_u64_Some)
  next
    case (Suc i)
    have "block_height (bs ! i) \<noteq> u64_max"
      using Suc assms(8) by (auto simp: word_unat_eq_iff)
    from unat_inc_u64 [OF this] show ?case
      using link [OF Suc.prems] Suc by (auto simp: child_of_def block_height_def dest!: add_u64_Some)
  qed
  have "block_parent (bs ! i) = block_hash L ((genesis # bs) ! i)" if "i < length bs" for i
    using link [OF that] by (simp add: child_of_def block_parent_def block_hash_def)
  then show ?thesis using height chain(2) store by simp
qed



subsection \<open>Witnesses\<close>

definition sample_headers :: "block_header set" where
  "sample_headers = {blk_header genesis, blk_header (sample_on genesis 5)}"

lemma header_encode_genesis: "header_encode sample_libs (blk_header genesis) = sample_at_bytes 0 0"
  using header_encode_sample_at [of 0 0] by (simp add: sample_at_def genesis_def)

lemma sample_headers_ok: "no_collision sample_libs (header_encode sample_libs ` sample_headers)"
proof -
  have "sha256 sample_libs (header_encode sample_libs (blk_header (sample_on genesis 5))) \<noteq>
      sha256 sample_libs (header_encode sample_libs (blk_header genesis))"
    using sample_digests_differ(1) by (simp add: block_hash_def)
  then show ?thesis unfolding sample_headers_def by (auto simp: no_collision_def inj_on_def)
qed

lemma sample_disciplined:
  "\<exists>E. disciplined Debug sample_libs sample_headers sample_app [sample_on genesis 5] E sample_final"
proof -
  let ?g = "block_hash sample_libs genesis"
  have "disciplined Debug sample_libs sample_headers sample_app [] {} sample_app"
    by (rule disciplined_start) (simp add: headers_in_def)
  then have "disciplined Debug sample_libs sample_headers sample_app
      ([] @ commits Debug sample_libs (Propose ?g) sample_app) ({} \<union> endorsed (Propose ?g) (ReplyDigest sample_d1) sample_app)
      sample_app1"
    by (rule disciplined_step [where env = sample_env])
      (simp_all add: handle_message_def sample_proposal1 headers_in_def sample_app1_def sample_headers_def)
  then have one: "disciplined Debug sample_libs sample_headers sample_app [] {(?g, sample_d1)} sample_app1"
    by (simp add: commits_def endorsed_def)
  have known: "fmlookup (app_pending sample_app1) sample_d1 = Some (sample_on genesis 5)"
    by (simp add: sample_app1_def)
  have final: "handle_message Debug sample_libs sample_env (Finalize sample_d1) sample_app1 = Some (NoReply, sample_final)"
    by (simp add: handle_message_def sample_finalize)
  have tip: "tip (app_blocks sample_app1) = Some genesis" by (simp add: sample_app1_def)
  have "disciplined Debug sample_libs sample_headers sample_app
      ([] @ commits Debug sample_libs (Finalize sample_d1) sample_app1)
      ({(?g, sample_d1)} \<union> endorsed (Finalize sample_d1) NoReply sample_app1) sample_final"
    using final tip by (intro disciplined_step [where env = sample_env, OF one])
      (simp_all add: headers_in_def sample_final_def sample_app1_def)
  then show ?thesis using known by (auto simp: commits_def sample_finalize)
qed

theorem committed_chain_linked_witness:
  "tip (app_blocks sample_final) = Some (sample_on genesis 5) \<and> unat (block_height (sample_on genesis 5)) = 1 \<and>
   block_parent (sample_on genesis 5) = block_hash sample_libs genesis"
proof -
  obtain E where "disciplined Debug sample_libs sample_headers sample_app [sample_on genesis 5] E sample_final"
    using sample_disciplined by blast
  from committed_chain_linked [OF sample_channel_laws sample_codec_laws sample_headers_ok sample_app_ok _ _ this]
  show ?thesis by (auto simp: sample_headers_def)
qed

end
