(* ===== verification/Network.thy ===== *)
theory Network
  imports Bytes
begin

text \<open>
  \<open>crates/network\<close>: the configuration of a validator's connections, the construction of the p2p
  network, the registration of its channels, and the byte-oriented channel API. The network itself
  is the library's; its functions are the fields of the record \<open>p2p_lib\<close>.
\<close>

section \<open>Operations\<close>

text \<open>\<open>config.rs\<close>; socket addresses are kept as text.\<close>

record network_config =
  net_seed :: u64
  net_listen :: string
  net_peers :: "(u64 \<times> string) list"

definition MAX_MSG_SIZE :: nat where
  "MAX_MSG_SIZE = 1024 * 1024"

definition NET_NAMESPACE :: "u8 list" where
  "NET_NAMESPACE = map of_char ''nanochain-net''"

text \<open>
  \<^item> \<open>pl_from_seed\<close> and \<open>pl_public_key\<close> are \<open>PrivateKey::from_seed\<close> and \<open>public_key\<close>;
  \<^item> \<open>pl_address\<close> is the conversion of a socket address, \<open>pl_map\<close> is \<open>Map::try_from\<close>;
  \<^item> \<open>pl_new sk ns listen max\<close> is \<open>P2p::new\<close> on \<open>Config::local(sk, ns, listen, max)\<close>, and
    \<open>pl_track\<close> is \<open>Oracle::track\<close>;
  \<^item> \<open>pl_register\<close> and \<open>pl_start\<close> are the methods of the network: a quota is the number of
    messages per second;
  \<^item> \<open>pl_send bs priority s w\<close> is \<open>s.send(Recipients::All, bs, priority)\<close> and \<open>pl_recv r w\<close> is
    \<open>r.recv()\<close>, in a world \<open>w\<close>: the result and the world they leave.
\<close>

record ('key, 'pk, 'addr, 'peers, 'p2p, 'oracle, 'snd, 'rcv, 'handle, 'w) p2p_lib =
  pl_from_seed :: "u64 \<Rightarrow> 'key"
  pl_public_key :: "'key \<Rightarrow> 'pk"
  pl_address :: "string \<Rightarrow> 'addr"
  pl_map :: "('pk \<times> 'addr) list \<Rightarrow> 'peers option"
  pl_new :: "'key \<Rightarrow> u8 list \<Rightarrow> string \<Rightarrow> nat \<Rightarrow> 'p2p \<times> 'oracle"
  pl_track :: "nat \<Rightarrow> 'peers \<Rightarrow> 'oracle \<Rightarrow> 'oracle"
  pl_register :: "u64 \<Rightarrow> nat \<Rightarrow> nat \<Rightarrow> 'p2p \<Rightarrow> ('snd \<times> 'rcv) \<times> 'p2p"
  pl_start :: "'p2p \<Rightarrow> 'handle"
  pl_send :: "u8 list \<Rightarrow> bool \<Rightarrow> 'snd \<Rightarrow> 'w \<Rightarrow> (string + 'pk list) \<times> 'w"
  pl_recv :: "'rcv \<Rightarrow> 'w \<Rightarrow> (string + 'pk \<times> u8 list) \<times> 'w"

record ('p2p, 'oracle) network =
  nw_network :: 'p2p
  nw_oracle :: 'oracle

record ('snd, 'rcv) channel =
  ch_sender :: 'snd
  ch_receiver :: 'rcv

text \<open>\<open>Network::new\<close>; \<open>None\<close> is the panic of \<open>expect("peer map")\<close>.\<close>

definition peer_entries ::
  "('key, 'pk, 'addr, 'peers, 'p2p, 'oracle, 'snd, 'rcv, 'handle, 'w) p2p_lib \<Rightarrow>
     (u64 \<times> string) list \<Rightarrow> ('pk \<times> 'addr) list" where
  "peer_entries P peers =
     map (\<lambda>(seed, addr). (pl_public_key P (pl_from_seed P seed), pl_address P addr)) peers"

definition network_new ::
  "('key, 'pk, 'addr, 'peers, 'p2p, 'oracle, 'snd, 'rcv, 'handle, 'w) p2p_lib \<Rightarrow>
     network_config \<Rightarrow> ('p2p, 'oracle) network option" where
  "network_new P config =
     (case pl_map P (peer_entries P (net_peers config)) of
        None \<Rightarrow> None
      | Some peers \<Rightarrow>
          (let sk = pl_from_seed P (net_seed config);
               (p2p, oracle) = pl_new P sk NET_NAMESPACE (net_listen config) MAX_MSG_SIZE
           in Some \<lparr>nw_network = p2p, nw_oracle = pl_track P 0 peers oracle\<rparr>))"

definition register ::
  "('key, 'pk, 'addr, 'peers, 'p2p, 'oracle, 'snd, 'rcv, 'handle, 'w) p2p_lib \<Rightarrow>
     u64 \<Rightarrow> nat \<Rightarrow> nat \<Rightarrow> ('p2p, 'oracle) network \<Rightarrow>
     ('snd, 'rcv) channel \<times> ('p2p, 'oracle) network" where
  "register P chan quota in_flight nw =
     (let ((sender, receiver), p2p) = pl_register P chan quota in_flight (nw_network nw)
      in (\<lparr>ch_sender = sender, ch_receiver = receiver\<rparr>, nw\<lparr>nw_network := p2p\<rparr>))"

definition network_start ::
  "('key, 'pk, 'addr, 'peers, 'p2p, 'oracle, 'snd, 'rcv, 'handle, 'w) p2p_lib \<Rightarrow>
     ('p2p, 'oracle) network \<Rightarrow> 'handle" where
  "network_start P nw = pl_start P (nw_network nw)"

text \<open>The two ends of a channel, as the API uses them.\<close>

definition send_all_peers ::
  "('key, 'pk, 'addr, 'peers, 'p2p, 'oracle, 'snd, 'rcv, 'handle, 'w) p2p_lib \<Rightarrow>
     'snd \<Rightarrow> u8 list \<Rightarrow> 'w \<Rightarrow> nat \<times> 'w" where
  "send_all_peers P sender bytes w =
     (case pl_send P bytes True sender w of
        (Inr reached, w') \<Rightarrow> (length reached, w')
      | (Inl _, w') \<Rightarrow> (0, w'))"

definition recv_bytes ::
  "('key, 'pk, 'addr, 'peers, 'p2p, 'oracle, 'snd, 'rcv, 'handle, 'w) p2p_lib \<Rightarrow>
     'rcv \<Rightarrow> 'w \<Rightarrow> u8 list option \<times> 'w" where
  "recv_bytes P receiver w =
     (case pl_recv P receiver w of
        (Inr (_, msg), w') \<Rightarrow> (Some msg, w')
      | (Inl _, w') \<Rightarrow> (None, w'))"

definition channel_broadcast ::
  "('key, 'pk, 'addr, 'peers, 'p2p, 'oracle, 'snd, 'rcv, 'handle, 'w) p2p_lib \<Rightarrow>
     ('snd, 'rcv) channel \<Rightarrow> u8 list \<Rightarrow> 'w \<Rightarrow> nat \<times> 'w" where
  "channel_broadcast P ch bytes w = send_all_peers P (ch_sender ch) bytes w"

definition channel_recv ::
  "('key, 'pk, 'addr, 'peers, 'p2p, 'oracle, 'snd, 'rcv, 'handle, 'w) p2p_lib \<Rightarrow>
     ('snd, 'rcv) channel \<Rightarrow> 'w \<Rightarrow> u8 list option \<times> 'w" where
  "channel_recv P ch w = recv_bytes P (ch_receiver ch) w"

definition into_inner :: "('snd, 'rcv) channel \<Rightarrow> 'snd \<times> 'rcv" where
  "into_inner ch = (ch_sender ch, ch_receiver ch)"

record 'snd channel_tx =
  tx_end :: 'snd

record 'rcv channel_rx =
  rx_end :: 'rcv

definition split_channel :: "('snd, 'rcv) channel \<Rightarrow> 'snd channel_tx \<times> 'rcv channel_rx" where
  "split_channel ch = (\<lparr>tx_end = ch_sender ch\<rparr>, \<lparr>rx_end = ch_receiver ch\<rparr>)"

definition tx_broadcast ::
  "('key, 'pk, 'addr, 'peers, 'p2p, 'oracle, 'snd, 'rcv, 'handle, 'w) p2p_lib \<Rightarrow>
     'snd channel_tx \<Rightarrow> u8 list \<Rightarrow> 'w \<Rightarrow> nat \<times> 'w" where
  "tx_broadcast P tx bytes w = send_all_peers P (tx_end tx) bytes w"

definition rx_recv ::
  "('key, 'pk, 'addr, 'peers, 'p2p, 'oracle, 'snd, 'rcv, 'handle, 'w) p2p_lib \<Rightarrow>
     'rcv channel_rx \<Rightarrow> 'w \<Rightarrow> u8 list option \<times> 'w" where
  "rx_recv P rx w = recv_bytes P (rx_end rx) w"


section \<open>Lemmas\<close>

text \<open>\<open>Map::try_from\<close> is documented to fail on duplicate keys, and only then.\<close>

definition peer_map_laws ::
  "('key, 'pk, 'addr, 'peers, 'p2p, 'oracle, 'snd, 'rcv, 'handle, 'w) p2p_lib \<Rightarrow> bool" where
  "peer_map_laws P \<longleftrightarrow> (\<forall>entries. pl_map P entries = None \<longleftrightarrow> \<not> distinct (map fst entries))"

lemma map_fst_peer_entries:
  "map fst (peer_entries P peers) = map (\<lambda>s. pl_public_key P (pl_from_seed P s)) (map fst peers)"
  by (simp add: peer_entries_def split_def)

lemma network_new_panics:
  assumes "peer_map_laws P"
  shows "network_new P config = None \<longleftrightarrow>
    \<not> distinct (map (\<lambda>s. pl_public_key P (pl_from_seed P s)) (map fst (net_peers config)))"
proof -
  have "network_new P config = None \<longleftrightarrow> pl_map P (peer_entries P (net_peers config)) = None"
    by (simp add: network_new_def Let_def split: option.split prod.split)
  also have "\<dots> \<longleftrightarrow> \<not> distinct (map fst (peer_entries P (net_peers config)))"
    using assms unfolding peer_map_laws_def by blast
  finally show ?thesis by (simp only: map_fst_peer_entries)
qed

text \<open>The halves of a channel do what the channel does.\<close>

lemma split_channel_broadcast [simp]:
  "tx_broadcast P (fst (split_channel ch)) bytes w = channel_broadcast P ch bytes w"
  by (simp add: tx_broadcast_def channel_broadcast_def split_channel_def)

lemma split_channel_recv [simp]:
  "rx_recv P (snd (split_channel ch)) w = channel_recv P ch w"
  by (simp add: rx_recv_def channel_recv_def split_channel_def)

end
