(* ===== verification/Engine.thy ===== *)
theory Engine
  imports Network
begin

text \<open>
  \<open>crates/consensus/src/app/mod.rs\<close> and \<open>crates/node/src/consensus.rs\<close>: the tuning of the
  consensus engine and how its configuration and channels are put together. The engine itself is
  the library's: it is the function that \<open>start_engine\<close> gets and applies.
\<close>

text \<open>Durations are in seconds, deltas in views, sizes in bytes or messages.\<close>

record tuning =
  tn_partition :: string
  tn_mailbox_size :: nat
  tn_replay_buffer :: nat
  tn_write_buffer :: nat
  tn_leader_timeout :: nat
  tn_certification_timeout :: nat
  tn_timeout_retry :: nat
  tn_fetch_timeout :: nat
  tn_activity_timeout :: nat
  tn_skip_timeout :: nat
  tn_fetch_concurrent :: nat

definition tuning_default :: tuning where
  "tuning_default =
     \<lparr>tn_partition = ''nanochain'', tn_mailbox_size = 1024, tn_replay_buffer = 1024 * 1024,
      tn_write_buffer = 1024 * 1024, tn_leader_timeout = 1, tn_certification_timeout = 2,
      tn_timeout_retry = 10, tn_fetch_timeout = 1, tn_activity_timeout = 10, tn_skip_timeout = 5,
      tn_fetch_concurrent = 32\<rparr>"

record ('snd, 'rcv) engine_channels =
  ec_vote :: "('snd, 'rcv) channel"
  ec_certificate :: "('snd, 'rcv) channel"
  ec_resolver :: "('snd, 'rcv) channel"

text \<open>
  \<open>simplex::Config\<close>. The page cache is given by its page size and its capacity; the elector, the
  strategy and the forwarding policy are always the same library values.
\<close>

datatype elector = RoundRobin
datatype strategy = Sequential
datatype forwarding = ForwardingDisabled

record ('scheme, 'blocker, 'mailbox, 'reporter) engine_config =
  en_scheme :: 'scheme
  en_elector :: elector
  en_blocker :: 'blocker
  en_automaton :: 'mailbox
  en_relay :: 'mailbox
  en_reporter :: 'reporter
  en_strategy :: strategy
  en_partition :: string
  en_mailbox_size :: nat
  en_epoch :: nat
  en_replay_buffer :: nat
  en_write_buffer :: nat
  en_page_cache :: "nat \<times> nat"
  en_leader_timeout :: nat
  en_certification_timeout :: nat
  en_timeout_retry :: nat
  en_activity_timeout :: nat
  en_skip_timeout :: nat
  en_fetch_timeout :: nat
  en_fetch_concurrent :: nat
  en_forwarding :: forwarding

definition start_engine ::
  "(('scheme, 'blocker, 'mailbox, 'reporter) engine_config \<Rightarrow>
      'snd \<times> 'rcv \<Rightarrow> 'snd \<times> 'rcv \<Rightarrow> 'snd \<times> 'rcv \<Rightarrow> 'engine) \<Rightarrow>
     'scheme \<Rightarrow> 'mailbox \<Rightarrow> 'reporter \<Rightarrow> 'blocker \<Rightarrow> tuning \<Rightarrow> ('snd, 'rcv) engine_channels \<Rightarrow> 'engine" where
  "start_engine new_engine scheme mailbox reporter blocker tuning channels =
     new_engine
       \<lparr>en_scheme = scheme, en_elector = RoundRobin, en_blocker = blocker, en_automaton = mailbox,
        en_relay = mailbox, en_reporter = reporter, en_strategy = Sequential,
        en_partition = tn_partition tuning, en_mailbox_size = tn_mailbox_size tuning, en_epoch = 0,
        en_replay_buffer = tn_replay_buffer tuning, en_write_buffer = tn_write_buffer tuning,
        en_page_cache = (16384, 10000), en_leader_timeout = tn_leader_timeout tuning,
        en_certification_timeout = tn_certification_timeout tuning,
        en_timeout_retry = tn_timeout_retry tuning, en_activity_timeout = tn_activity_timeout tuning,
        en_skip_timeout = tn_skip_timeout tuning, en_fetch_timeout = tn_fetch_timeout tuning,
        en_fetch_concurrent = tn_fetch_concurrent tuning, en_forwarding = ForwardingDisabled\<rparr>
       (into_inner (ec_vote channels)) (into_inner (ec_certificate channels))
       (into_inner (ec_resolver channels))"

text \<open>
  What \<open>NonZeroUsize::new(..).unwrap()\<close> demands of the defaults, and how the timeouts are ordered:
  a leader is given up before a certification, and a certification before a retry.
\<close>

lemma tuning_default_ok:
  "0 < tn_mailbox_size tuning_default" "0 < tn_replay_buffer tuning_default"
  "0 < tn_write_buffer tuning_default" "0 < tn_fetch_concurrent tuning_default"
  "tn_leader_timeout tuning_default \<le> tn_certification_timeout tuning_default"
  "tn_certification_timeout tuning_default \<le> tn_timeout_retry tuning_default"
  "tn_skip_timeout tuning_default \<le> tn_activity_timeout tuning_default"
  by (simp_all add: tuning_default_def)

end
