(* ===== verification/Node.thy ===== *)
theory Node
  imports Ingress Network
begin

text \<open>
  \<open>crates/node\<close>: the configuration of a validator, how it builds its chain state and starts the
  application, and the demo node and the command line of \<open>main.rs\<close>. Wiring the engine, the network
  and the tasks that move bytes between them is the subject of \<open>Validator\<close>, the program as a whole
  that of \<open>Program\<close>.
\<close>

section \<open>Operations\<close>

text \<open>\<open>nanochain_node::Error\<close>; no code constructs it.\<close>

datatype node_error =
    NodeMempool mempool_error
  | NodeConsensus consensus_error
  | NodeStorage storage_error
  | NodeTypes types_error
  | NodeInternal string

record genesis_config =
  allocations :: "(address \<times> u64) list"

record 'sk node =
  node_genesis :: genesis_config
  node_signer :: 'sk
  node_initial_txs :: "transaction list"

definition MAILBOX_SIZE :: nat where
  "MAILBOX_SIZE = 1024"

definition node_new :: "genesis_config \<Rightarrow> 'sk \<Rightarrow> 'sk node" where
  "node_new gen signer = \<lparr>node_genesis = gen, node_signer = signer, node_initial_txs = []\<rparr>"

definition queue_tx :: "transaction \<Rightarrow> 'sk node \<Rightarrow> 'sk node" where
  "queue_tx tx n = n\<lparr>node_initial_txs := node_initial_txs n @ [tx]\<rparr>"

text \<open>The loop over the allocations; \<open>None\<close> is a panic.\<close>

fun credit_all :: "profile \<Rightarrow> (address \<times> u64) list \<Rightarrow> state_store \<Rightarrow> state_store option" where
  "credit_all pr [] s = Some s"
| "credit_all pr ((addr, balance) # rest) s =
     (case credit pr addr balance s of
        (Ok _, s') \<Rightarrow> credit_all pr rest s'
      | (Err _, _) \<Rightarrow> None
      | (Panic, _) \<Rightarrow> None)"

text \<open>The loop over the seed transactions: the invalid ones are skipped.\<close>

fun seed_mempool :: "('sk, 'vk) libs \<Rightarrow> transaction list \<Rightarrow> mempool \<Rightarrow> mempool option" where
  "seed_mempool L [] m = Some m"
| "seed_mempool L (tx # rest) m =
     (case mempool_insert L tx m of
        (Ok _, m') \<Rightarrow> seed_mempool L rest m'
      | (Err _, m') \<Rightarrow> seed_mempool L rest m'
      | (Panic, _) \<Rightarrow> None)"

text \<open>
  The functions of the consensus library that \<open>make_scheme\<close> uses: the public key of a seed, the
  collection of keys into an ordered set, which may fail, and the scheme of a signer among
  validators, if there is one.
\<close>

record ('pk, 'set, 'scheme) scheme_lib =
  sl_key_of :: "u64 \<Rightarrow> 'pk"
  sl_collect :: "'pk list \<Rightarrow> 'set option"
  sl_signer :: "u8 list \<Rightarrow> 'set \<Rightarrow> u64 \<Rightarrow> 'scheme option"

definition make_scheme ::
  "('pk, 'set, 'scheme) scheme_lib \<Rightarrow> u8 list \<Rightarrow> u64 list \<Rightarrow> u64 \<Rightarrow> (unit, 'scheme option) res" where
  "make_scheme K namespace roster my_seed =
     (case sl_collect K (map (sl_key_of K) roster) of
        None \<Rightarrow> Panic
      | Some validators \<Rightarrow> Ok (sl_signer K namespace validators my_seed))"

definition NAMESPACE :: "u8 list" where
  "NAMESPACE = map of_char ''nanochain-consensus''"

text \<open>
  The first part of \<open>Node::run\<close>, up to the creation of the application; \<open>None\<close> is a panic.
\<close>

definition node_boot ::
  "profile \<Rightarrow> ('sk, 'vk) libs \<Rightarrow> ('pk, 'set, 'scheme) scheme_lib \<Rightarrow> network_config \<Rightarrow> 'sk node \<Rightarrow>
     ('scheme \<times> 'sk application) option" where
  "node_boot pr L K net n =
     (case credit_all pr (allocations (node_genesis n)) state_new of
        None \<Rightarrow> None
      | Some state \<Rightarrow>
          (let blocks = block_store_insert L genesis block_store_new
           in case seed_mempool L (node_initial_txs n) mempool_new of
                None \<Rightarrow> None
              | Some pool \<Rightarrow>
                  (let roster = map fst (net_peers net)
                   in case make_scheme K NAMESPACE roster (net_seed net) of
                        Ok (Some scheme) \<Rightarrow>
                          Some (scheme, app_new L state blocks pool
                            \<lparr>cfg_mailbox_size = MAILBOX_SIZE, cfg_signer = node_signer n,
                             cfg_genesis = genesis\<rparr>)
                      | Ok None \<Rightarrow> None
                      | Err _ \<Rightarrow> None
                      | Panic \<Rightarrow> None)))"

text \<open>\<open>main.rs\<close>: the roster, the demo node, and the command line.\<close>

definition devnet :: "(u64 \<times> string) list" where
  "devnet = [(1, ''127.0.0.1:4001''), (2, ''127.0.0.1:4002''), (3, ''127.0.0.1:4003'')]"

definition listen_address :: "u64 \<Rightarrow> string option" where
  "listen_address seed = map_option snd (find (\<lambda>(s, _). s = seed) devnet)"

definition devnet_config :: "u64 \<Rightarrow> network_config option" where
  "devnet_config seed =
     (case listen_address seed of
        None \<Rightarrow> None
      | Some listen \<Rightarrow> Some \<lparr>net_seed = seed, net_listen = listen, net_peers = devnet\<rparr>)"

definition demo_genesis :: "('sk, 'vk) libs \<Rightarrow> 'sk \<Rightarrow> genesis_config" where
  "demo_genesis L wallet = \<lparr>allocations = [(lib_public L wallet, 1000000)]\<rparr>"

definition demo_node :: "('sk, 'vk) libs \<Rightarrow> 'sk \<Rightarrow> 'sk \<Rightarrow> 'sk node" where
  "demo_node L wallet signer =
     queue_tx (tx_signed L wallet (repeat_byte 0xBB) 100 0) (node_new (demo_genesis L wallet) signer)"

text \<open>\<open>str::parse::<u64>\<close>: an optional sign and at least one digit, the value within 64 bits.\<close>

definition digit_value :: "char \<Rightarrow> nat option" where
  "digit_value c = (let n = of_char c :: nat in if 48 \<le> n \<and> n \<le> 57 then Some (n - 48) else None)"

fun parse_digits :: "nat \<Rightarrow> string \<Rightarrow> nat option" where
  "parse_digits acc [] = Some acc"
| "parse_digits acc (c # cs) =
     (case digit_value c of
        None \<Rightarrow> None
      | Some d \<Rightarrow> if acc * 10 + d < 2 ^ 64 then parse_digits (acc * 10 + d) cs else None)"

definition parse_u64 :: "string \<Rightarrow> u64 option" where
  "parse_u64 v =
     (let ds = (case v of [] \<Rightarrow> [] | c # cs \<Rightarrow> if c = CHR ''+'' then cs else v)
      in if ds = [] then None else map_option of_nat (parse_digits 0 ds))"

text \<open>The arguments after the program's name; \<open>None\<close> is a panic.\<close>

fun parse_seed :: "string list \<Rightarrow> u64 option" where
  "parse_seed [] = None"
| "parse_seed (arg # rest) =
     (if arg = ''--seed'' then (case rest of [] \<Rightarrow> None | v # _ \<Rightarrow> parse_u64 v)
      else parse_seed rest)"


section \<open>Allocations\<close>

definition allocated :: "(address \<times> u64) list \<Rightarrow> nat" where
  "allocated as = (\<Sum>(a, n) \<leftarrow> as. unat n)"

definition allocated_to :: "address \<Rightarrow> (address \<times> u64) list \<Rightarrow> nat" where
  "allocated_to a as = (\<Sum>(b, n) \<leftarrow> as. if b = a then unat n else 0)"

lemma allocated_simps [simp]:
  "allocated [] = 0" "allocated ((b, n) # as) = unat n + allocated as"
  "allocated_to a [] = 0"
  "allocated_to a ((b, n) # as) = (if b = a then unat n else 0) + allocated_to a as"
  by (simp_all add: allocated_def allocated_to_def)

lemma allocated_to_le: "allocated_to a as \<le> allocated as"
  by (induction as) auto

lemma credit_total:
  assumes "unat (get_balance s a) + unat n < 2 ^ 64"
  shows "\<exists>s'. credit pr a n s = (Ok (), s') \<and> total_supply s' = total_supply s + unat n \<and>
    (\<forall>b. unat (get_balance s' b) = unat (get_balance s b) + (if a = b then unat n else 0)) \<and>
    (\<forall>b. get_nonce s' b = get_nonce s b)"
proof -
  let ?s = "entry_update a (\<lambda>acc. acc\<lparr>acct_balance := acct_balance acc + n\<rparr>) s"
  let ?A = "insert a (fset (fmdom (accounts s)))"
  have bal: "unat (get_balance ?s b) = unat (get_balance s b) + (if a = b then unat n else 0)" for b
    using unat_add_u64 [OF assms] by (auto simp: get_balance_account)
  have "total_supply ?s = (\<Sum>b \<in> ?A. unat (get_balance ?s b))"
    by (rule total_supply_superset) auto
  also have "\<dots> = (\<Sum>b \<in> ?A. unat (get_balance s b)) + (\<Sum>b \<in> ?A. if a = b then unat n else 0)"
    unfolding bal by (rule sum.distrib)
  also have "(\<Sum>b \<in> ?A. unat (get_balance s b)) = total_supply s"
    by (rule total_supply_superset [symmetric]) auto
  finally have "total_supply ?s = total_supply s + unat n" by simp
  moreover have "get_nonce ?s b = get_nonce s b" for b by (simp add: get_nonce_account)
  ultimately show ?thesis using add_balance_ok [OF assms, of pr] bal by (auto simp: credit_def)
qed

lemma credit_all_total:
  "(\<And>a. unat (get_balance s a) + allocated_to a as < 2 ^ 64) \<Longrightarrow>
   \<exists>s'. credit_all pr as s = Some s' \<and> total_supply s' = total_supply s + allocated as \<and>
     (\<forall>a. unat (get_balance s' a) = unat (get_balance s a) + allocated_to a as) \<and>
     (\<forall>a. get_nonce s' a = get_nonce s a)"
proof (induction as arbitrary: s)
  case (Cons x as)
  obtain a n where x: "x = (a, n)" by (cases x)
  have "unat (get_balance s a) + unat n < 2 ^ 64" using Cons.prems [of a] x by simp
  from credit_total [OF this, of pr] obtain s1 where s1: "credit pr a n s = (Ok (), s1)"
    "total_supply s1 = total_supply s + unat n"
    "\<And>b. unat (get_balance s1 b) = unat (get_balance s b) + (if a = b then unat n else 0)"
    "\<And>b. get_nonce s1 b = get_nonce s b" by blast
  have "unat (get_balance s1 b) + allocated_to b as < 2 ^ 64" for b
    using Cons.prems [of b] s1(3) [of b] x by (simp split: if_splits)
  from Cons.IH [OF this] s1 x show ?case by (auto simp: algebra_simps)
qed simp

lemma seed_mempool_run:
  "seed_mempool L txs m = Some (fold (pool_op_run L) (map PoolInsert txs) m)"
  by (induction txs arbitrary: m) (auto split: prod.split res.split)

lemma pool_txs_seeded:
  "mempool_ok L m \<Longrightarrow>
   pool_txs (fold (pool_op_run L) (map PoolInsert txs) m) \<subseteq> pool_txs m \<union> set txs"
proof (induction txs arbitrary: m)
  case (Cons tx txs)
  have "pool_txs (snd (mempool_insert L tx m)) \<subseteq> insert tx (pool_txs m)"
    by (auto simp: mempool_insert_eq pool_txs_def split: option.splits if_splits)
  then show ?case using Cons.IH [OF mempool_ok_insert [OF Cons.prems]] by fastforce
qed simp


section \<open>Booting\<close>

lemma state_new_simps [simp]:
  "get_balance state_new a = 0" "get_nonce state_new a = 0" "total_supply state_new = 0"
  by (simp_all add: state_new_def get_balance_def get_nonce_def total_supply_def)

lemma mempool_new_simps [simp]:
  "mempool_ok L mempool_new" "pool_txs mempool_new = {}" "mp_capacity mempool_new = 1024"
  by (simp_all add: mempool_new_def DEFAULT_CAPACITY_def pool_txs_def)

lemma store_genesis_eq: "block_store_insert L genesis block_store_new = store_of L [genesis]"
  by (simp add: store_of_def)

text \<open>
  What the scheme library is documented to do: a set of keys is refused if it has duplicates,
  and a scheme exists for the seeds whose key is in the set.
\<close>

definition scheme_laws :: "('pk, 'set, 'scheme) scheme_lib \<Rightarrow> bool" where
  "scheme_laws K \<longleftrightarrow>
     (\<forall>ks. sl_collect K ks = None \<longleftrightarrow> \<not> distinct ks) \<and>
     (\<forall>ks vs ns seed. sl_collect K ks = Some vs \<longrightarrow>
        (sl_signer K ns vs seed = None \<longleftrightarrow> sl_key_of K seed \<notin> set ks))"

lemma scheme_laws_collect: "scheme_laws K \<Longrightarrow> sl_collect K ks = None \<longleftrightarrow> \<not> distinct ks"
  unfolding scheme_laws_def by blast

lemma make_scheme_found:
  assumes "scheme_laws K"
  shows "(\<exists>sch. make_scheme K ns roster seed = Ok (Some sch)) \<longleftrightarrow>
    distinct (map (sl_key_of K) roster) \<and> sl_key_of K seed \<in> sl_key_of K ` set roster"
proof (cases "sl_collect K (map (sl_key_of K) roster)")
  case None
  then have "\<not> distinct (map (sl_key_of K) roster)" using assms unfolding scheme_laws_def by blast
  with None show ?thesis by (simp add: make_scheme_def)
next
  case (Some vs)
  then have "distinct (map (sl_key_of K) roster)"
    using assms unfolding scheme_laws_def by (metis option.distinct(1))
  moreover have "sl_signer K ns vs seed = None \<longleftrightarrow> sl_key_of K seed \<notin> set (map (sl_key_of K) roster)"
    using assms Some unfolding scheme_laws_def by blast
  ultimately show ?thesis using Some by (auto simp: make_scheme_def)
qed

definition roster_ok :: "('pk, 'set, 'scheme) scheme_lib \<Rightarrow> network_config \<Rightarrow> bool" where
  "roster_ok K net \<longleftrightarrow>
     distinct (map (sl_key_of K) (map fst (net_peers net))) \<and> net_seed net \<in> fst ` set (net_peers net)"

lemma roster_ok_scheme:
  assumes "scheme_laws K" and "roster_ok K net"
  shows "\<exists>sch. make_scheme K NAMESPACE (map fst (net_peers net)) (net_seed net) = Ok (Some sch)"
proof -
  have "sl_key_of K (net_seed net) \<in> sl_key_of K ` set (map fst (net_peers net))"
    using assms(2) unfolding roster_ok_def by (intro imageI) simp
  then show ?thesis using make_scheme_found [OF assms(1)] assms(2) unfolding roster_ok_def by blast
qed

text \<open>The booted node, as a whole.\<close>

lemma node_boot_correct:
  assumes "scheme_laws K" and "roster_ok K net"
    and "\<And>a. allocated_to a (allocations (node_genesis n)) < 2 ^ 64"
  shows "\<exists>sch app. node_boot pr L K net n = Some (sch, app) \<and>
    (\<forall>a. unat (get_balance (app_state app) a) = allocated_to a (allocations (node_genesis n)) \<and>
         get_nonce (app_state app) a = 0) \<and>
    total_supply (app_state app) = allocated (allocations (node_genesis n)) \<and>
    app_blocks app = store_of L [genesis] \<and> app_genesis_digest app = block_hash L genesis \<and>
    app_signer app = node_signer n \<and> app_pending app = fmempty \<and>
    app_mempool app = fold (pool_op_run L) (map PoolInsert (node_initial_txs n)) mempool_new \<and>
    app_ok L app"
proof -
  obtain sch where "make_scheme K NAMESPACE (map fst (net_peers net)) (net_seed net) = Ok (Some sch)"
    using roster_ok_scheme [OF assms(1,2)] by blast
  moreover have "\<exists>s. credit_all pr (allocations (node_genesis n)) state_new = Some s \<and>
      total_supply s = total_supply state_new + allocated (allocations (node_genesis n)) \<and>
      (\<forall>a. unat (get_balance s a) =
         unat (get_balance state_new a) + allocated_to a (allocations (node_genesis n))) \<and>
      (\<forall>a. get_nonce s a = get_nonce state_new a)"
    by (rule credit_all_total) (use assms(3) in simp)
  moreover have "mempool_ok L (fold (pool_op_run L) (map PoolInsert (node_initial_txs n)) mempool_new)"
    by (rule mempool_ok_run) simp
  ultimately show ?thesis
    by (auto simp: node_boot_def Let_def seed_mempool_run app_new_def store_genesis_eq app_ok_def)
qed

lemma demo_node_simps [simp]:
  "allocations (node_genesis (demo_node L wallet signer)) = [(lib_public L wallet, 1000000)]"
  "node_initial_txs (demo_node L wallet signer) = [tx_signed L wallet (repeat_byte 0xBB) 100 0]"
  by (simp_all add: demo_node_def demo_genesis_def queue_tx_def node_new_def)

lemma demo_node_fits: "allocated_to a (allocations (node_genesis (demo_node L wallet signer))) < 2 ^ 64"
  by simp


section \<open>The demo node\<close>

lemma devnet_config_Some: "(\<exists>net. devnet_config seed = Some net) \<longleftrightarrow> seed \<in> {1, 2, 3}"
  by (auto simp: devnet_config_def listen_address_def devnet_def split: option.splits)

lemma devnet_config_seeds:
  "devnet_config seed = Some net \<Longrightarrow> net_seed net = seed \<and> net_peers net = devnet"
  by (auto simp: devnet_config_def split: option.splits)

lemma devnet_roster:
  assumes "distinct (map (sl_key_of K) [1, 2, 3])" and "devnet_config seed = Some net"
  shows "roster_ok K net"
proof -
  have "map fst devnet = [1, 2, 3]" by (simp add: devnet_def)
  moreover have "seed \<in> {1, 2, 3}" using assms(2) devnet_config_Some by blast
  moreover from calculation(1) have "fst ` set devnet = {1, 2, 3}" by (simp flip: set_map)
  ultimately show ?thesis
    using assms devnet_config_seeds [OF assms(2)] by (simp add: roster_ok_def)
qed

lemma demo_node_signer: "node_signer (demo_node L wallet signer) = signer"
  by (simp add: demo_node_def node_new_def queue_tx_def)

text \<open>The demo node, booted with a seed of the devnet.\<close>

lemma demo_boot:
  assumes "scheme_laws K" and "distinct (map (sl_key_of K) [1, 2, 3])" and "devnet_config seed = Some net"
  shows "\<exists>sch app. node_boot pr L K net (demo_node L wallet signer) = Some (sch, app) \<and> app_ok L app \<and>
    (\<forall>a. get_balance (app_state app) a = (if a = lib_public L wallet then 1000000 else 0)) \<and>
    (\<forall>a. get_nonce (app_state app) a = 0) \<and> app_blocks app = store_of L [genesis] \<and>
    app_pending app = fmempty \<and> app_signer app = signer \<and>
    app_mempool app = snd (mempool_insert L (tx_signed L wallet (repeat_byte 0xBB) 100 0) mempool_new)"
proof -
  obtain sch app where app: "node_boot pr L K net (demo_node L wallet signer) = Some (sch, app)" "app_ok L app"
    "\<And>a. unat (get_balance (app_state app) a) = allocated_to a [(lib_public L wallet, 1000000)]"
    "\<And>a. get_nonce (app_state app) a = 0" "app_blocks app = store_of L [genesis]"
    "app_pending app = fmempty" "app_signer app = signer"
    "app_mempool app = fold (pool_op_run L) [PoolInsert (tx_signed L wallet (repeat_byte 0xBB) 100 0)] mempool_new"
    using node_boot_correct [OF assms(1) devnet_roster [OF assms(2,3)]
        demo_node_fits [where L = L and wallet = wallet and signer = signer], of pr L]
    unfolding demo_node_simps demo_node_signer by (simp only: list.map) blast
  have "get_balance (app_state app) a = (if a = lib_public L wallet then 1000000 else 0)" for a
    using app(3) [of a] by (simp add: word_unat_eq_iff split: if_splits)
  then show ?thesis using app by simp
qed

lemma demo_pool:
  assumes "ed25519_laws L"
  shows "pool_txs (snd (mempool_insert L (tx_signed L wallet to 100 0) mempool_new)) = {tx_signed L wallet to 100 0}"
proof -
  let ?tx = "tx_signed L wallet to 100 0"
  have "insert_refused L ?tx mempool_new = None"
    using tx_signed_facts [OF assms, of wallet to 100 0]
    by (simp add: insert_refused_def mempool_new_def DEFAULT_CAPACITY_def)
  then show ?thesis by (simp add: mempool_insert_eq pool_txs_add insert_refused_def split: if_splits)
qed


section \<open>Command line\<close>

lemma digit_value_digit [simp]: "d < 10 \<Longrightarrow> digit_value (digit d) = Some d"
  by (simp add: digit_value_def digit_def Let_def)

lemma parse_digits_append:
  "parse_digits acc (xs @ ys) = (case parse_digits acc xs of None \<Rightarrow> None | Some a \<Rightarrow> parse_digits a ys)"
  by (induction acc xs rule: parse_digits.induct) (auto split: option.split)

lemma parse_digits_show: "n < 2 ^ 64 \<Longrightarrow> parse_digits 0 (show_nat n) = Some n"
proof (induction n rule: show_nat.induct)
  case (1 n)
  show ?case
  proof (cases "n < 10")
    case False
    have "parse_digits 0 (show_nat n) = parse_digits 0 (show_nat (n div 10) @ [digit (n mod 10)])"
      using False by (subst show_nat.simps) simp
    also have "\<dots> = Some n" using 1 False by (simp add: parse_digits_append)
    finally show ?thesis .
  qed (use 1 in simp)
qed

lemma show_nat_Cons: "\<exists>d cs. show_nat n = digit d # cs \<and> d < 10"
proof (induction n rule: show_nat.induct)
  case (1 n)
  then show ?case by (subst (1) show_nat.simps) (force intro: exI [of _ n])
qed

lemma digit_not_sign: "d < 10 \<Longrightarrow> digit d \<noteq> CHR ''+''"
  using digit_value_digit [of d] by (auto simp: digit_value_def)

lemma parse_u64_show: "n < 2 ^ 64 \<Longrightarrow> parse_u64 (show_nat n) = Some (of_nat n)"
  using show_nat_Cons [of n] parse_digits_show [of n] digit_not_sign
  by (auto simp: parse_u64_def Let_def)

lemma parse_seed_at: "''--seed'' \<notin> set pre \<Longrightarrow> parse_seed (pre @ ''--seed'' # v # post) = parse_u64 v"
  by (induction pre) auto

lemma parse_seed_Some:
  "parse_seed args = Some n \<longleftrightarrow>
     (\<exists>pre v post. args = pre @ ''--seed'' # v # post \<and> ''--seed'' \<notin> set pre \<and> parse_u64 v = Some n)"
    (is "_ \<longleftrightarrow> ?found args")
proof
  show "parse_seed args = Some n \<Longrightarrow> ?found args"
  proof (induction args)
    case (Cons arg rest)
    show ?case
    proof (cases "arg = ''--seed''")
      case True
      with Cons.prems obtain v post where "rest = v # post" "parse_u64 v = Some n"
        by (auto split: list.splits)
      with True have "arg # rest = [] @ ''--seed'' # v # post \<and> ''--seed'' \<notin> set [] \<and> parse_u64 v = Some n"
        by simp
      then show ?thesis by blast
    next
      case False
      with Cons obtain pre v post where "rest = pre @ ''--seed'' # v # post" "''--seed'' \<notin> set pre"
        "parse_u64 v = Some n" by auto
      with False have "arg # rest = (arg # pre) @ ''--seed'' # v # post \<and> ''--seed'' \<notin> set (arg # pre) \<and>
          parse_u64 v = Some n" by simp
      then show ?thesis by blast
    qed
  qed simp
qed (auto simp: parse_seed_at)


section \<open>Properties\<close>

text \<open>
  A validator boots whenever the keys of the roster are distinct and its own seed is among
  them and the allocations of each address fit 64 bits: every balance is
  what the genesis configuration allocates to the address, every nonce is 0, the genesis block
  is the tip and the answer to the engine, no block is pending, and the pool is in order and
  holds nothing but queued transactions.
\<close>

theorem node_boots:
  assumes "scheme_laws K" and "roster_ok K net"
    and "\<forall>a. allocated_to a (allocations (node_genesis n)) < 2 ^ 64"
  shows "\<exists>sch app. node_boot pr L K net n = Some (sch, app) \<and> app_ok L app \<and>
    (\<forall>a. unat (get_balance (app_state app) a) = allocated_to a (allocations (node_genesis n)) \<and>
         get_nonce (app_state app) a = 0) \<and>
    tip (app_blocks app) = Some genesis \<and> app_genesis_digest app = block_hash L genesis \<and>
    app_signer app = node_signer n \<and> app_pending app = fmempty \<and>
    pool_txs (app_mempool app) \<subseteq> set (node_initial_txs n)"
proof -
  obtain sch app where app: "node_boot pr L K net n = Some (sch, app)" "app_ok L app"
    "\<forall>a. unat (get_balance (app_state app) a) = allocated_to a (allocations (node_genesis n)) \<and>
         get_nonce (app_state app) a = 0"
    "app_blocks app = store_of L [genesis]" "app_genesis_digest app = block_hash L genesis"
    "app_signer app = node_signer n" "app_pending app = fmempty"
    "app_mempool app = fold (pool_op_run L) (map PoolInsert (node_initial_txs n)) mempool_new"
    using node_boot_correct [OF assms(1,2), of n pr L] assms(3) by blast
  moreover have "pool_txs (app_mempool app) \<subseteq> set (node_initial_txs n)"
    unfolding app(8) using pool_txs_seeded [of L mempool_new] by simp
  ultimately show ?thesis by auto
qed

text \<open>
  The whole life of a validator: whatever it handles after booting, the sum of all balances
  stays what the genesis configuration allocates, its state is the replay of the committed
  blocks on the genesis state, and its store holds exactly the genesis block and these.
\<close>

theorem booted_chain:
  assumes "channel_laws L" and "scheme_laws K" and "roster_ok K net"
    and "\<forall>a. allocated_to a (allocations (node_genesis n)) < 2 ^ 64"
    and "node_boot pr L K net n = Some (sch, app0)" and "app_reaches pr L app0 bs app"
  shows "total_supply (app_state app) = allocated (allocations (node_genesis n)) \<and>
    apply_blocks pr L bs (app_state app0) = (Ok (), app_state app) \<and>
    app_blocks app = store_of L (genesis # bs) \<and> app_ok L app"
proof -
  have boot: "total_supply (app_state app0) = allocated (allocations (node_genesis n))"
    "app_blocks app0 = store_of L [genesis]" "app_ok L app0"
    using node_boot_correct [OF assms(2,3), of n pr L] assms(4,5) by auto
  note replay = reaches_replay [OF assms(6)]
  then have "apply_txs pr L (concat (map blk_transactions bs)) (app_state app0) = (Ok (), app_state app)"
    by (simp add: apply_blocks_concat)
  from total_supply_apply_txs [OF this] have "total_supply (app_state app) = total_supply (app_state app0)" .
  moreover have "app_blocks app = store_of L (genesis # bs)" using replay boot(2) by (simp add: store_of_def)
  moreover have "app_ok L app"
    using app_steps.star_keeps [OF app_reaches_moves [OF assms(6)]] assms(1) boot(3) by blast
  ultimately show ?thesis using replay boot(1) by simp
qed

text \<open>
  C36: the demo node of \<open>main.rs\<close>, end to end: with a seed of the devnet roster it boots with a million in the wallet, it can
  propose on the genesis block, its proposal holds exactly the seeded transaction, and
  finalizing it makes it the tip and pays the recipient 100.
\<close>

theorem demo_node_first_block:
  assumes "ed25519_laws L" and "key_order it" and "lib_public L wallet \<noteq> repeat_byte 0xBB"
    and "scheme_laws K" and "distinct (map (sl_key_of K) [1, 2, 3])" and "devnet_config seed = Some net"
  shows "\<exists>sch app d app1 b app2.
    node_boot pr L K net (demo_node L wallet signer) = Some (sch, app) \<and>
    get_balance (app_state app) (lib_public L wallet) = 1000000 \<and>
    propose pr L it clock (block_hash L genesis) app = (Ok d, app1) \<and>
    fmlookup (app_pending app1) d = Some b \<and>
    blk_transactions b = [tx_signed L wallet (repeat_byte 0xBB) 100 0] \<and>
    finalize pr L d app1 = (Ok (), app2) \<and> tip (app_blocks app2) = Some b \<and>
    get_balance (app_state app2) (lib_public L wallet) = 999900 \<and>
    get_balance (app_state app2) (repeat_byte 0xBB) = 100"
proof -
  let ?tx = "tx_signed L wallet (repeat_byte 0xBB) 100 0"
  note tx = tx_signed_facts [OF assms(1), of wallet "repeat_byte 0xBB" 100 0]
  obtain sch app where app: "node_boot pr L K net (demo_node L wallet signer) = Some (sch, app)" "app_ok L app"
    "\<And>a. get_balance (app_state app) a = (if a = lib_public L wallet then 1000000 else 0)"
    "\<And>a. get_nonce (app_state app) a = 0" "app_blocks app = store_of L [genesis]"
    "app_pending app = fmempty" "app_mempool app = snd (mempool_insert L ?tx mempool_new)"
    using demo_boot [OF assms(4-6), of pr L wallet signer] by blast
  have ok: "mempool_ok L (app_mempool app)" using app(2) by (simp add: app_ok_def)
  have pool: "pool_txs (app_mempool app) = {?tx}" unfolding app(7) by (rule demo_pool [OF assms(1)])
  have adm: "tx_admissible L ?tx (app_state app)" using tx app(3,4) by (simp add: tx_admissible_def)
  have parent: "block_by_digest app (block_hash L genesis) = Some genesis"
    using app(5,6) by (simp add: block_by_digest_def)
  obtain d app1 where made: "propose pr L it clock (block_hash L genesis) app = (Ok d, app1)"
    using propose_succeeds [OF assms(1) ok assms(2) parent, of pr clock] pool tx by auto
  obtain b s where b: "fmlookup (app_pending app1) d = Some b"
    "app1 = app\<lparr>app_pending := fmupd d b (app_pending app)\<rparr>"
    "add_u64 pr (block_height genesis) 1 = Some (block_height b)"
    "apply_block pr L b (app_state app) = (Ok (), s)"
    using propose_block [OF ok assms(2) made] parent by auto
  have txs: "blk_transactions b = [?tx]" by (rule propose_single [OF ok assms(2) made b(1) pool adm])
  then have s: "s = transfer ?tx (app_state app)"
    using b(4) by (simp add: apply_block_Ok_iff apply_transaction_Ok_iff)
  have "get_balance s (lib_public L wallet) = 999900" "get_balance s (repeat_byte 0xBB) = 100"
    using get_balance_transfer [OF adm, of "lib_public L wallet"]
      get_balance_transfer [OF adm, of "repeat_byte 0xBB"] tx app(3) assms(3)
    unfolding s by (simp_all add: word_unat_eq_iff)
  moreover have "finalize pr L d app1 = (Ok (), committed L d b s app1)"
    unfolding finalize_Ok_iff using b by auto
  moreover have "tip (app_blocks (committed L d b s app1)) = Some b"
    using b(2,3) app(5) tip_insert_higher [of "store_of L [genesis]" genesis b L]
    by (simp add: add_u64_one split: if_splits)
  ultimately show ?thesis using app(1,3) made b(1) txs
    by (intro exI conjI) (assumption | simp)+
qed

text \<open>
  The command line: the seed is the number after the first \<open>--seed\<close> and nothing else
  yields one; every 64-bit number can be given in decimal.
\<close>

theorem parse_seed_correct:
  "(parse_seed args = Some n \<longleftrightarrow>
     (\<exists>pre v post. args = pre @ ''--seed'' # v # post \<and> ''--seed'' \<notin> set pre \<and> parse_u64 v = Some n)) \<and>
   parse_u64 (show_nat (unat n)) = Some n"
  using parse_seed_Some [of args n] parse_u64_show [of "unat n"] unat_u64_bound [of n] by simp


subsection \<open>Witnesses\<close>

definition sample_node :: "address node" where
  "sample_node = demo_node sample_libs (repeat_byte 7) (repeat_byte 3)"

lemma sample_node_fits: "allocated_to a (allocations (node_genesis sample_node)) < 2 ^ 64"
  unfolding sample_node_def by (rule demo_node_fits)

text \<open>Keys are the seeds themselves, and a scheme is the list of validators.\<close>

definition sample_schemes :: "(u64, u64 list, u64 list) scheme_lib" where
  "sample_schemes =
     \<lparr>sl_key_of = (\<lambda>s. s), sl_collect = (\<lambda>ks. if distinct ks then Some ks else None),
      sl_signer = (\<lambda>ns vs s. if s \<in> set vs then Some vs else None)\<rparr>"

lemma sample_schemes_laws: "scheme_laws sample_schemes"
  by (auto simp: scheme_laws_def sample_schemes_def split: if_splits)

definition sample_net :: network_config where
  "sample_net = \<lparr>net_seed = 2, net_listen = ''127.0.0.1:4002'', net_peers = devnet\<rparr>"

lemma sample_net_config: "devnet_config 2 = Some sample_net"
  by (simp add: devnet_config_def listen_address_def devnet_def sample_net_def)

lemma sample_roster: "roster_ok sample_schemes sample_net"
  by (simp add: roster_ok_def sample_schemes_def sample_net_def devnet_def)

theorem node_boots_witness:
  "\<exists>sch app. node_boot Debug sample_libs sample_schemes sample_net sample_node = Some (sch, app) \<and>
     app_ok sample_libs app \<and> tip (app_blocks app) = Some genesis"
  using node_boots [OF sample_schemes_laws sample_roster, of sample_node Debug sample_libs] sample_node_fits
  by blast

theorem booted_chain_witness:
  "\<exists>sch app. node_boot Debug sample_libs sample_schemes sample_net sample_node = Some (sch, app) \<and>
     total_supply (app_state app) = 1000000"
proof -
  obtain sch app where boot: "node_boot Debug sample_libs sample_schemes sample_net sample_node = Some (sch, app)"
    using node_boot_correct [OF sample_schemes_laws sample_roster sample_node_fits, of Debug sample_libs] by blast
  from booted_chain [OF sample_channel_laws sample_schemes_laws sample_roster _ boot reach_start] boot
    sample_node_fits
  show ?thesis by (auto simp: sample_node_def)
qed

theorem demo_node_first_block_witness:
  "\<exists>sch app d app1 app2.
     node_boot Debug sample_libs sample_schemes sample_net sample_node = Some (sch, app) \<and>
     propose Debug sample_libs sorted_list_of_fset None (block_hash sample_libs genesis) app = (Ok d, app1) \<and>
     finalize Debug sample_libs d app1 = (Ok (), app2) \<and>
     get_balance (app_state app2) (repeat_byte 0xBB) = 100"
proof -
  have "lib_public sample_libs (repeat_byte 7) \<noteq> repeat_byte 0xBB" by simp
  moreover have "distinct (map (sl_key_of sample_schemes) [1, 2, 3])" by (simp add: sample_schemes_def)
  ultimately show ?thesis
    using demo_node_first_block [OF sample_ed25519_laws key_order_sorted _ sample_schemes_laws _ sample_net_config,
        of "repeat_byte 7" Debug "repeat_byte 3" None]
    unfolding sample_node_def by blast
qed

end
