(* ===== verification/Validator.thy ===== *)
theory Validator
  imports Node Engine Commitments
begin

text \<open>
  \<open>crates/node/src/node.rs\<close>, the rest: a validator wires its application, its network and the
  engine together and runs four tasks that share nothing but the mailbox of the actor and its
  outbound queue. The runs of a validator interleave these tasks in any way.
\<close>

section \<open>Operations\<close>

definition CH_VOTE :: u64 where "CH_VOTE = 0"
definition CH_CERTIFICATE :: u64 where "CH_CERTIFICATE = 1"
definition CH_RESOLVER :: u64 where "CH_RESOLVER = 2"
definition CH_BLOCK :: u64 where "CH_BLOCK = 3"

text \<open>\<open>Quota::per_second(NZU32!(64))\<close>.\<close>

definition node_quota :: nat where
  "node_quota = 64"

record ('sk, 'snd, 'rcv, 'handle, 'engine) running =
  rn_app :: "'sk application"
  rn_block_tx :: "'snd channel_tx"
  rn_block_rx :: "'rcv channel_rx"
  rn_network :: 'handle
  rn_engine :: 'engine

text \<open>
  \<open>Node::run\<close>, up to the point where all tasks are spawned; \<open>None\<close> is a panic. The two handles on
  the mailbox that \<open>Application::new\<close> returns are arguments.
\<close>

definition node_run ::
  "profile \<Rightarrow> ('sk, 'vk) libs \<Rightarrow> ('pk, 'set, 'scheme) scheme_lib \<Rightarrow>
     ('key, 'pk, 'addr, 'peers, 'p2p, 'oracle, 'snd, 'rcv, 'handle, 'w) p2p_lib \<Rightarrow>
     (('scheme, 'oracle, 'mailbox, 'reporter) engine_config \<Rightarrow>
        'snd \<times> 'rcv \<Rightarrow> 'snd \<times> 'rcv \<Rightarrow> 'snd \<times> 'rcv \<Rightarrow> 'engine) \<Rightarrow>
     'mailbox \<Rightarrow> 'reporter \<Rightarrow> network_config \<Rightarrow> 'sk node \<Rightarrow>
     ('sk, 'snd, 'rcv, 'handle, 'engine) running option" where
  "node_run pr L K P new_engine mailbox reporter net n =
     (case node_boot pr L K net n of
        None \<Rightarrow> None
      | Some (scheme, app) \<Rightarrow>
          (case network_new P net of
             None \<Rightarrow> None
           | Some network \<Rightarrow>
               (let (vote, network) = register P CH_VOTE node_quota 256 network;
                    (certificate, network) = register P CH_CERTIFICATE node_quota 256 network;
                    (resolver, network) = register P CH_RESOLVER node_quota 256 network;
                    (block, network) = register P CH_BLOCK node_quota 256 network;
                    (block_tx, block_rx) = split_channel block;
                    oracle = nw_oracle network;
                    handle = network_start P network;
                    engine = start_engine new_engine scheme mailbox reporter oracle tuning_default
                      \<lparr>ec_vote = vote, ec_certificate = certificate, ec_resolver = resolver\<rparr>
                in Some \<lparr>rn_app = app, rn_block_tx = block_tx, rn_block_rx = block_rx,
                         rn_network = handle, rn_engine = engine\<rparr>)))"

text \<open>
  One round of the task \<open>block_out\<close>: the oldest queued bytes are broadcast; and of \<open>block_in\<close>:
  the bytes received go to the mailbox, or the loop ends (\<open>None\<close>).
\<close>

definition block_out_round ::
  "('key, 'pk, 'addr, 'peers, 'p2p, 'oracle, 'snd, 'rcv, 'handle, 'w) p2p_lib \<Rightarrow> 'snd channel_tx \<Rightarrow>
     u8 list list \<Rightarrow> 'w \<Rightarrow> (u8 list \<times> u8 list list \<times> 'w) option" where
  "block_out_round P block_tx blocks_out w =
     (case blocks_out of
        [] \<Rightarrow> None
      | bytes # rest \<Rightarrow> Some (bytes, rest, snd (tx_broadcast P block_tx bytes w)))"

definition block_in_round ::
  "('key, 'pk, 'addr, 'peers, 'p2p, 'oracle, 'snd, 'rcv, 'handle, 'w) p2p_lib \<Rightarrow> 'rcv channel_rx \<Rightarrow>
     ('q, 'f) mailbox_lib \<Rightarrow> 'q \<Rightarrow> 'w \<Rightarrow> ('q \<times> 'w) option" where
  "block_in_round P block_rx M inbound w =
     (case rx_recv P block_rx w of
        (Some bytes, w') \<Rightarrow> Some (store_peer_block M bytes inbound, w')
      | (None, _) \<Rightarrow> None)"


section \<open>Runs\<close>

text \<open>
  The state the tasks of a validator share, with the outputs so far: the replies of the actor and
  the bytes that have been broadcast.
\<close>

record ('q, 'sk) validator =
  vd_mailbox :: 'q
  vd_app :: "'sk application"
  vd_replies :: "reply list"
  vd_sent :: "u8 list list"

definition validator_new :: "'q \<Rightarrow> 'sk application \<Rightarrow> ('q, 'sk) validator" where
  "validator_new q app = \<lparr>vd_mailbox = q, vd_app = app, vd_replies = [], vd_sent = []\<rparr>"

text \<open>
  A round of one of the tasks: the engine or its reporter sends an event, the actor handles the
  next message, the two block tasks do a round. The peers and the other validators may change the
  world between any two rounds, so that each round of a block task has a world of its own. The loop of
  \<open>block_in\<close> ends for good when receiving fails; a run may go on with a later round of it, so that the
  runs include those of the code and what holds of all runs holds of these. The runs that progress
  theorems exhibit receive successfully each time.
\<close>

datatype 'w task =
    EngineSends event
  | ActorTurn environment
  | BlockOut 'w
  | BlockIn 'w

text \<open>The library functions and channel ends that a running validator uses.\<close>

record ('pk, 'key, 'addr, 'peers, 'p2p, 'oracle, 'snd, 'rcv, 'handle, 'w, 'q, 'f) wiring =
  wr_p2p :: "('key, 'pk, 'addr, 'peers, 'p2p, 'oracle, 'snd, 'rcv, 'handle, 'w) p2p_lib"
  wr_tx :: "'snd channel_tx"
  wr_rx :: "'rcv channel_rx"
  wr_mailbox :: "('q, 'f) mailbox_lib"
  wr_recv :: "'q \<Rightarrow> (message \<times> 'q) option"

fun validator_step ::
  "profile \<Rightarrow> ('sk, 'vk) libs \<Rightarrow>
     ('pk, 'key, 'addr, 'peers, 'p2p, 'oracle, 'snd, 'rcv, 'handle, 'w, 'q, 'f) wiring \<Rightarrow>
     'w task \<Rightarrow> ('q, 'sk) validator \<Rightarrow> ('q, 'sk) validator option" where
  "validator_step pr L W (EngineSends e) v =
     (case send (wr_mailbox W) e (vd_mailbox v) of
        None \<Rightarrow> None
      | Some q \<Rightarrow> Some (v\<lparr>vd_mailbox := q\<rparr>))"
| "validator_step pr L W (ActorTurn env) v =
     (case wr_recv W (vd_mailbox v) of
        None \<Rightarrow> Some v
      | Some (msg, q) \<Rightarrow>
          (case handle_message pr L env msg (vd_app v) of
             None \<Rightarrow> None
           | Some (r, app) \<Rightarrow>
               Some (v\<lparr>vd_mailbox := q, vd_app := app, vd_replies := vd_replies v @ [r]\<rparr>)))"
| "validator_step pr L W (BlockOut w) v =
     (case block_out_round (wr_p2p W) (wr_tx W) (app_blocks_out (vd_app v)) w of
        None \<Rightarrow> Some v
      | Some (bytes, rest, _) \<Rightarrow>
          Some (v\<lparr>vd_app := (vd_app v)\<lparr>app_blocks_out := rest\<rparr>, vd_sent := vd_sent v @ [bytes]\<rparr>))"
| "validator_step pr L W (BlockIn w) v =
     (case block_in_round (wr_p2p W) (wr_rx W) (wr_mailbox W) (vd_mailbox v) w of
        None \<Rightarrow> Some v
      | Some (q, _) \<Rightarrow> Some (v\<lparr>vd_mailbox := q\<rparr>))"

fun validator_run ::
  "profile \<Rightarrow> ('sk, 'vk) libs \<Rightarrow>
     ('pk, 'key, 'addr, 'peers, 'p2p, 'oracle, 'snd, 'rcv, 'handle, 'w, 'q, 'f) wiring \<Rightarrow>
     'w task list \<Rightarrow> ('q, 'sk) validator \<Rightarrow> ('q, 'sk) validator option" where
  "validator_run pr L W [] v = Some v"
| "validator_run pr L W (t # ts) v =
     (case validator_step pr L W t v of
        None \<Rightarrow> None
      | Some v' \<Rightarrow> validator_run pr L W ts v')"

text \<open>The blocks that a round commits, and those that a run commits, in order.\<close>

definition step_commits ::
  "profile \<Rightarrow> ('sk, 'vk) libs \<Rightarrow>
     ('pk, 'key, 'addr, 'peers, 'p2p, 'oracle, 'snd, 'rcv, 'handle, 'w, 'q, 'f) wiring \<Rightarrow>
     'w task \<Rightarrow> ('q, 'sk) validator \<Rightarrow> block list" where
  "step_commits pr L W t v =
     (case t of
        ActorTurn env \<Rightarrow>
          (case wr_recv W (vd_mailbox v) of None \<Rightarrow> [] | Some (msg, _) \<Rightarrow> commits pr L msg (vd_app v))
      | _ \<Rightarrow> [])"

fun validator_commits ::
  "profile \<Rightarrow> ('sk, 'vk) libs \<Rightarrow>
     ('pk, 'key, 'addr, 'peers, 'p2p, 'oracle, 'snd, 'rcv, 'handle, 'w, 'q, 'f) wiring \<Rightarrow>
     'w task list \<Rightarrow> ('q, 'sk) validator \<Rightarrow> block list" where
  "validator_commits pr L W [] v = []"
| "validator_commits pr L W (t # ts) v =
     step_commits pr L W t v @
     (case validator_step pr L W t v of None \<Rightarrow> [] | Some v' \<Rightarrow> validator_commits pr L W ts v')"

text \<open>What a task means for the actor: the messages it sends, in the order of the tasks.\<close>

fun task_meant ::
  "('pk, 'key, 'addr, 'peers, 'p2p, 'oracle, 'snd, 'rcv, 'handle, 'w, 'q, 'f) wiring \<Rightarrow>
     'w task \<Rightarrow> message list" where
  "task_meant W (EngineSends e) = meant e"
| "task_meant W (ActorTurn env) = []"
| "task_meant W (BlockOut w) = []"
| "task_meant W (BlockIn w) =
     (case fst (rx_recv (wr_p2p W) (wr_rx W) w) of None \<Rightarrow> [] | Some bytes \<Rightarrow> [StoreBlock bytes])"

text \<open>The mailbox at its receiving end: it yields the oldest message it holds.\<close>

definition recv_laws ::
  "('q \<Rightarrow> (message \<times> 'q) option) \<Rightarrow> ('q \<Rightarrow> message list) \<Rightarrow> ('q \<Rightarrow> message list) \<Rightarrow> bool" where
  "recv_laws recv buf over \<longleftrightarrow>
     (\<forall>q. case recv q of
            None \<Rightarrow> buf q @ over q = []
          | Some (msg, q') \<Rightarrow> buf q @ over q = msg # buf q' @ over q')"


section \<open>The actor inside a validator\<close>

text \<open>
  What the outbound queue holds does not influence the actor, except for what it appends: the rest
  of its state is its core.
\<close>

definition core :: "'sk application \<Rightarrow> 'sk application" where
  "core app = app\<lparr>app_blocks_out := []\<rparr>"

lemma core_simps [simp]:
  "app_signer (core app) = app_signer app" "app_state (core app) = app_state app"
  "app_blocks (core app) = app_blocks app" "app_mempool (core app) = app_mempool app"
  "app_pending (core app) = app_pending app"
  "app_genesis_digest (core app) = app_genesis_digest app" "app_blocks_out (core app) = []"
  "core (app\<lparr>app_blocks_out := q\<rparr>) = core app"
  by (simp_all add: core_def)

lemma core_eq_requeue: "core app1 = core app \<Longrightarrow> app1 = app\<lparr>app_blocks_out := app_blocks_out app1\<rparr>"
  by (cases app; cases app1) (simp add: core_def)

lemma block_by_digest_requeue [simp]:
  "block_by_digest (app\<lparr>app_blocks_out := q\<rparr>) d = block_by_digest app d"
  by (simp add: block_by_digest_def split: option.split)

lemma propose_requeue:
  "propose pr L it c p app = (r, app') \<Longrightarrow>
   propose pr L it c p (app\<lparr>app_blocks_out := q\<rparr>) = (r, app'\<lparr>app_blocks_out := q\<rparr>)"
  by (auto simp: propose_def Let_def split: option.splits res.splits sum.splits)

lemma requeue_selectors:
  "app_state (app\<lparr>app_blocks_out := q\<rparr>) = app_state app"
  "app_blocks (app\<lparr>app_blocks_out := q\<rparr>) = app_blocks app"
  "app_pending (app\<lparr>app_blocks_out := q\<rparr>) = app_pending app"
  by simp_all

lemma verify_requeue [simp]: "verify pr L p d (app\<lparr>app_blocks_out := q\<rparr>) = verify pr L p d app"
  unfolding verify_def requeue_selectors block_by_digest_requeue by (rule refl)

lemma finalize_requeue:
  "finalize pr L d app = (r, app') \<Longrightarrow>
   finalize pr L d (app\<lparr>app_blocks_out := q\<rparr>) = (r, app'\<lparr>app_blocks_out := q\<rparr>)"
  by (auto simp: finalize_def Let_def split: option.splits res.splits prod.splits)

lemma core_broadcast_block [simp]: "core (broadcast_block L d app) = core app"
  by (simp add: broadcast_block_def split: option.split)

lemma store_block_requeue:
  "store_block L bytes (app\<lparr>app_blocks_out := q\<rparr>) = (store_block L bytes app)\<lparr>app_blocks_out := q\<rparr>"
  by (simp add: store_block_def split: sum.split)

lemma handle_message_core:
  assumes "handle_message pr L env msg app = Some (r, app')" and "core app1 = core app"
  shows "\<exists>app1'. handle_message pr L env msg app1 = Some (r, app1') \<and> core app1' = core app'"
proof -
  define q where "q = app_blocks_out app1"
  have app1: "app1 = app\<lparr>app_blocks_out := q\<rparr>"
    unfolding q_def by (rule core_eq_requeue [OF assms(2)])
  show ?thesis
  proof (cases msg)
    case (Propose p)
    with assms(1) obtain res where "propose pr L (env_senders env) (env_clock env) p app = (res, app')"
      and "res \<noteq> Panic" by (auto simp: handle_message_def split: prod.splits res.splits)
    with assms(1) Propose propose_requeue [OF this(1), of q] show ?thesis
      by (cases res) (auto simp: handle_message_def app1)
  next
    case (Finalize d)
    with assms(1) obtain res where "finalize pr L d app = (res, app')" and "res \<noteq> Panic"
      by (auto simp: handle_message_def split: prod.splits res.splits)
    with assms(1) Finalize finalize_requeue [OF this(1), of q] show ?thesis
      by (cases res) (auto simp: handle_message_def app1)
  qed (use assms(1) in \<open>auto simp: handle_message_def app1 store_block_requeue split: if_splits option.splits\<close>)
qed

text \<open>A run of the actor alone, seen step by step from the end.\<close>

lemma app_run_snoc:
  assumes "app_run pr L steps app0 = Some (rs, app)" and "handle_message pr L env msg app = Some (r, app')"
  shows "app_run pr L (steps @ [(env, msg)]) app0 = Some (rs @ [r], app')"
  using assms by (simp add: app_run_append)

text \<open>
  How a validator relates to a run of its actor alone: the messages handled so far and those the
  mailbox holds are those sent, the replies are those of the run, and so is the core.
\<close>

definition follows ::
  "profile \<Rightarrow> ('sk, 'vk) libs \<Rightarrow> ('q \<Rightarrow> message list) \<Rightarrow> 'sk application \<Rightarrow> message list \<Rightarrow>
     (environment \<times> message) list \<Rightarrow> ('q, 'sk) validator \<Rightarrow> bool" where
  "follows pr L holds app0 sent handled v \<longleftrightarrow>
     map snd handled @ holds (vd_mailbox v) = sent \<and>
     (\<exists>app. app_run pr L handled app0 = Some (vd_replies v, app) \<and> core app = core (vd_app v))"

lemma followsI:
  "map snd handled @ holds (vd_mailbox v) = sent \<Longrightarrow>
   app_run pr L handled app0 = Some (vd_replies v, app) \<Longrightarrow> core app = core (vd_app v) \<Longrightarrow>
   follows pr L holds app0 sent handled v"
  unfolding follows_def by blast

lemma enqueue_ignored_delivers:
  assumes "mailbox_laws M buf over"
  shows "buf (enqueue_ignored M msg q) @ over (enqueue_ignored M msg q) = buf q @ over q @ [msg]"
  using mailbox_lawsD(2) [OF assms] by (simp add: enqueue_ignored_def)

definition wiring_laws ::
  "('pk, 'key, 'addr, 'peers, 'p2p, 'oracle, 'snd, 'rcv, 'handle, 'w, 'q, 'f) wiring \<Rightarrow>
     ('q \<Rightarrow> message list) \<Rightarrow> ('q \<Rightarrow> message list) \<Rightarrow> bool" where
  "wiring_laws W buf over \<longleftrightarrow>
     mailbox_laws (wr_mailbox W) buf over \<and> recv_laws (wr_recv W) buf over"

lemma recv_lawsD:
  "recv_laws recv buf over \<Longrightarrow> recv q = Some (msg, q') \<Longrightarrow> buf q @ over q = msg # buf q' @ over q'"
  unfolding recv_laws_def by (drule spec [of _ q]) simp

lemma recv_lawsN: "recv_laws recv buf over \<Longrightarrow> recv q = None \<Longrightarrow> buf q @ over q = []"
  unfolding recv_laws_def by (drule spec [of _ q]) simp

lemma follows_step:
  assumes "wiring_laws W buf over" and "follows pr L (\<lambda>q. buf q @ over q) app0 sent handled v"
    and "validator_step pr L W t v = Some v'"
  shows "\<exists>handled'. follows pr L (\<lambda>q. buf q @ over q) app0 (sent @ task_meant W t) handled' v' \<and>
    (handled' = handled \<or> (\<exists>env msg. t = ActorTurn env \<and> handled' = handled @ [(env, msg)]))"
proof -
  note mbx = assms(1) [unfolded wiring_laws_def, THEN conjunct1]
    and rcv = assms(1) [unfolded wiring_laws_def, THEN conjunct2]
  obtain app where sent: "map snd handled @ buf (vd_mailbox v) @ over (vd_mailbox v) = sent"
    and run: "app_run pr L handled app0 = Some (vd_replies v, app)" and core: "core app = core (vd_app v)"
    using assms(2) unfolding follows_def by blast
  show ?thesis
  proof (cases t)
    case (EngineSends e)
    obtain q where "send (wr_mailbox W) e (vd_mailbox v) = Some q"
      "buf q @ over q = buf (vd_mailbox v) @ over (vd_mailbox v) @ meant e"
      using send_delivers [OF mbx] by blast
    then show ?thesis using EngineSends assms(3) sent run core
      by (intro exI [of _ handled] conjI disjI1 followsI [of _ _ _ _ _ _ _ app]) auto
  next
    case (ActorTurn env)
    show ?thesis
    proof (cases "wr_recv W (vd_mailbox v)")
      case None
      with ActorTurn assms(2,3) show ?thesis by (intro exI [of _ handled]) simp
    next
      case (Some mq)
      obtain msg q where mq: "mq = (msg, q)" by (cases mq)
      obtain r app2 where one: "handle_message pr L env msg (vd_app v) = Some (r, app2)"
        and v': "v' = v\<lparr>vd_mailbox := q, vd_app := app2, vd_replies := vd_replies v @ [r]\<rparr>"
        using assms(3) ActorTurn Some mq by (auto split: option.splits)
      have "buf (vd_mailbox v) @ over (vd_mailbox v) = msg # buf q @ over q"
        using recv_lawsD [OF rcv] Some mq by simp
      moreover obtain app3 where "handle_message pr L env msg app = Some (r, app3)" "core app3 = core app2"
        using handle_message_core [OF one core] by blast
      ultimately show ?thesis using ActorTurn sent v' app_run_snoc [OF run]
        by (intro exI [of _ "handled @ [(env, msg)]"] conjI followsI [of _ _ _ _ _ _ _ app3]) auto
    qed
  next
    case (BlockOut w)
    with assms(3) have "v' = v \<or> (\<exists>bytes rest. v' = v\<lparr>vd_app := (vd_app v)\<lparr>app_blocks_out := rest\<rparr>,
        vd_sent := vd_sent v @ [bytes]\<rparr>)"
      by (auto split: option.splits)
    then show ?thesis using BlockOut sent run core
      by (intro exI [of _ handled] conjI disjI1 followsI [of _ _ _ _ _ _ _ app]) auto
  next
    case (BlockIn w)
    then show ?thesis using assms(3) sent run core enqueue_ignored_delivers [OF mbx]
      by (intro exI [of _ handled] conjI disjI1 followsI [of _ _ _ _ _ _ _ app])
        (auto simp: block_in_round_def store_peer_block_def split: option.splits prod.splits)
  qed
qed


text \<open>The environment of each turn of the actor yields the keys of a map in some order.\<close>

definition tasks_ok :: "'w task list \<Rightarrow> bool" where
  "tasks_ok ts \<longleftrightarrow> (\<forall>env. ActorTurn env \<in> set ts \<longrightarrow> key_order (env_senders env))"

lemma tasks_ok_Cons: "tasks_ok (t # ts) \<longleftrightarrow> tasks_ok [t] \<and> tasks_ok ts"
  by (auto simp: tasks_ok_def)

lemma follows_run:
  assumes "wiring_laws W buf over"
  shows "follows pr L (\<lambda>q. buf q @ over q) app0 sent handled v \<Longrightarrow>
    \<forall>(env, msg) \<in> set handled. key_order (env_senders env) \<Longrightarrow> tasks_ok ts \<Longrightarrow>
    validator_run pr L W ts v = Some v' \<Longrightarrow>
    \<exists>handled'. follows pr L (\<lambda>q. buf q @ over q) app0 (sent @ concat (map (task_meant W) ts)) handled' v' \<and>
      (\<forall>(env, msg) \<in> set handled'. key_order (env_senders env))"
proof (induction ts arbitrary: sent handled v)
  case (Cons t ts)
  obtain v1 where step: "validator_step pr L W t v = Some v1" and rest: "validator_run pr L W ts v1 = Some v'"
    using Cons.prems(4) by (auto split: option.splits)
  obtain handled1 where "follows pr L (\<lambda>q. buf q @ over q) app0 (sent @ task_meant W t) handled1 v1"
    and "handled1 = handled \<or> (\<exists>env msg. t = ActorTurn env \<and> handled1 = handled @ [(env, msg)])"
    using follows_step [OF assms Cons.prems(1) step] by blast
  moreover from this(2) have "\<forall>(env, msg) \<in> set handled1. key_order (env_senders env)"
    using Cons.prems(2,3) by (auto simp: tasks_ok_def)
  moreover have "tasks_ok ts" using Cons.prems(3) by (simp add: tasks_ok_Cons [of t ts])
  ultimately show ?case using Cons.IH [OF _ _ _ rest, of "sent @ task_meant W t" handled1] by simp
qed auto

lemma follows_new:
  "buf q @ over q = [] \<Longrightarrow> follows pr L (\<lambda>q. buf q @ over q) app0 [] [] (validator_new q app0)"
  by (intro followsI [where app = app0]) (simp_all add: validator_new_def)

lemma app_run_commits:
  "app_run pr L steps app0 = Some (rs, app) \<Longrightarrow> \<forall>(env, msg) \<in> set steps. key_order (env_senders env) \<Longrightarrow>
   app_reaches pr L app0 (run_commits pr L steps app0) app"
proof (induction steps arbitrary: rs app rule: rev_induct)
  case Nil
  then show ?case by (auto intro: reach_start)
next
  case (snoc step steps)
  obtain env msg where step: "step = (env, msg)" by (cases step)
  obtain rs1 app1 r where run: "app_run pr L steps app0 = Some (rs1, app1)"
    and one: "handle_message pr L env msg app1 = Some (r, app)"
    using snoc.prems(1) by (auto simp: app_run_append step split: option.splits)
  have "run_commits pr L (steps @ [(env, msg)]) app0 = run_commits pr L steps app0 @ commits pr L msg app1"
    using run by (induction steps arbitrary: app0 rs1) (auto simp: one split: option.splits)
  moreover have "app_reaches pr L app0 (run_commits pr L steps app0) app1"
    using snoc.IH [OF run] snoc.prems(2) by auto
  ultimately show ?case using one snoc.prems(2) step by (auto intro: reach_step)
qed

text \<open>Only the engine's reports ask for a commit.\<close>

fun reported :: "'w task \<Rightarrow> digest list" where
  "reported (EngineSends (Activity (Finalization d))) = [d]"
| "reported t = []"

lemma requested_tasks:
  "concat (map requested (concat (map (task_meant W) ts))) = concat (map reported ts)"
proof (induction ts)
  case (Cons t ts)
  have "concat (map requested (task_meant W t)) = reported t"
    by (cases t rule: reported.cases) (auto simp: requested_def split: option.split)
  with Cons show ?case by simp
qed simp

lemma prefix_requested: "prefix xs ys \<Longrightarrow> subseq (concat (map requested xs)) (concat (map requested ys))"
  by (auto simp: prefix_def)

text \<open>The chain of a validator, whatever its tasks do.\<close>

lemma validator_chain:
  assumes "channel_laws L" and "app_ok L app0" and "wiring_laws W buf over" and "buf q @ over q = []"
    and "tasks_ok ts" and "validator_run pr L W ts (validator_new q app0) = Some v"
  shows "\<exists>bs app. app_reaches pr L app0 bs app \<and> core app = core (vd_app v) \<and>
    subseq (map (block_hash L) bs) (concat (map reported ts))"
proof -
  obtain handled where "follows pr L (\<lambda>q. buf q @ over q) app0 (concat (map (task_meant W) ts)) handled v"
    and ok: "\<forall>(env, msg) \<in> set handled. key_order (env_senders env)"
    using follows_run [OF assms(3) follows_new [of buf q over, OF assms(4)] _ assms(5,6)] by auto
  then obtain app where sent: "map snd handled @ buf (vd_mailbox v) @ over (vd_mailbox v) =
      concat (map (task_meant W) ts)" and run: "app_run pr L handled app0 = Some (vd_replies v, app)"
    and core: "core app = core (vd_app v)"
    unfolding follows_def by blast
  have "prefix (map snd handled) (concat (map (task_meant W) ts))"
    by (rule prefixI [OF sent [symmetric]])
  from prefix_requested [OF this] have "subseq (concat (map requested (map snd handled))) (concat (map reported ts))"
    by (simp add: requested_tasks)
  moreover have "subseq (map (block_hash L) (run_commits pr L handled app0)) (concat (map requested (map snd handled)))"
    by (rule run_commits_requested [OF assms(1,2) ok])
  ultimately have "subseq (map (block_hash L) (run_commits pr L handled app0)) (concat (map reported ts))"
    by (meson subseq_order.trans)
  then show ?thesis using app_run_commits [OF run ok] core by blast
qed


section \<open>Progress\<close>

text \<open>No message of another epoch is on its way to the actor.\<close>

definition first_epoch :: "message list \<Rightarrow> bool" where
  "first_epoch ms \<longleftrightarrow> (\<forall>e. Genesis e \<in> set ms \<longrightarrow> e = 0)"

lemma first_epoch_simps [simp]:
  "first_epoch []" "first_epoch (xs @ ys) \<longleftrightarrow> first_epoch xs \<and> first_epoch ys"
  "first_epoch (m # ms) \<longleftrightarrow> (\<forall>e. m = Genesis e \<longrightarrow> e = 0) \<and> first_epoch ms"
  by (auto simp: first_epoch_def)

lemma app_ok_dequeue: "app_ok L app \<Longrightarrow> app_blocks_out app = b # rest \<Longrightarrow> app_ok L (app\<lparr>app_blocks_out := rest\<rparr>)"
  by (simp add: app_ok_def)

lemma first_epoch_store:
  assumes "mailbox_laws M buf over" and "first_epoch (buf q @ over q)"
  shows "first_epoch (buf (store_peer_block M bytes q) @ over (store_peer_block M bytes q))"
  unfolding store_peer_block_def enqueue_ignored_delivers [OF assms(1)] using assms(2) by simp

lemma validator_step_progress:
  assumes "channel_laws L" and "wiring_laws W buf over"
    and "app_ok L (vd_app v)" and "first_epoch (buf (vd_mailbox v) @ over (vd_mailbox v))"
    and "tasks_ok [t]" and "first_epoch (task_meant W t)"
  shows "\<exists>v'. validator_step Release L W t v = Some v' \<and> app_ok L (vd_app v') \<and>
    first_epoch (buf (vd_mailbox v') @ over (vd_mailbox v'))"
proof -
  note mbx = assms(2) [unfolded wiring_laws_def, THEN conjunct1]
    and rcv = assms(2) [unfolded wiring_laws_def, THEN conjunct2]
  show ?thesis
  proof (cases t)
    case (EngineSends e)
    obtain q where q: "send (wr_mailbox W) e (vd_mailbox v) = Some q"
      and held: "buf q @ over q = buf (vd_mailbox v) @ over (vd_mailbox v) @ meant e"
      using send_delivers [OF mbx] by blast
    have "first_epoch (buf q @ over q)" unfolding held using EngineSends assms(4,6) by simp
    then show ?thesis using EngineSends assms(3) q by simp
  next
    case (ActorTurn env)
    show ?thesis
    proof (cases "wr_recv W (vd_mailbox v)")
      case None
      with ActorTurn assms(3,4) show ?thesis by simp
    next
      case (Some mq)
      obtain msg q where mq: "mq = (msg, q)" by (cases mq)
      have held: "buf (vd_mailbox v) @ over (vd_mailbox v) = msg # buf q @ over q"
        using recv_lawsD [OF rcv] Some mq by simp
      have it: "key_order (env_senders env)" using assms(5) ActorTurn by (simp add: tasks_ok_def)
      have "first_epoch (msg # buf q @ over q)" using assms(4) unfolding held .
      then have "handle_message Release L env msg (vd_app v) \<noteq> None"
        by (intro handle_message_Release [OF assms(3) it]) simp
      then obtain r app where one: "handle_message Release L env msg (vd_app v) = Some (r, app)" by auto
      then have "app_moves Release L (vd_app v) app" using it unfolding app_moves_def by blast
      then have "app_ok L app" by (rule app_ok_move [OF assms(1,3)])
      then show ?thesis using ActorTurn Some mq one assms(4) unfolding held by simp
    qed
  next
    case (BlockOut w)
    then show ?thesis using assms(3,4) app_ok_dequeue [OF assms(3)]
      by (auto simp: block_out_round_def split: list.split)
  next
    case (BlockIn w)
    then show ?thesis using assms(3,4) first_epoch_store [OF mbx assms(4)]
      by (cases "rx_recv (wr_p2p W) (wr_rx W) w"; cases "fst (rx_recv (wr_p2p W) (wr_rx W) w)")
        (auto simp: block_in_round_def)
  qed
qed

lemma validator_run_progress:
  assumes "channel_laws L" and "wiring_laws W buf over"
  shows "app_ok L (vd_app v) \<Longrightarrow> first_epoch (buf (vd_mailbox v) @ over (vd_mailbox v)) \<Longrightarrow> tasks_ok ts \<Longrightarrow>
    \<forall>t \<in> set ts. first_epoch (task_meant W t) \<Longrightarrow>
    \<exists>v'. validator_run Release L W ts v = Some v' \<and> app_ok L (vd_app v')"
proof (induction ts arbitrary: v)
  case (Cons t ts)
  have ok: "tasks_ok [t]" "tasks_ok ts" using Cons.prems(3) by (simp_all add: tasks_ok_Cons [of t ts])
  obtain v1 where "validator_step Release L W t v = Some v1" "app_ok L (vd_app v1)"
    "first_epoch (buf (vd_mailbox v1) @ over (vd_mailbox v1))"
    using validator_step_progress [OF assms Cons.prems(1,2) ok(1)] Cons.prems(4) by auto
  with Cons.IH [OF _ _ ok(2)] Cons.prems(4) show ?case by simp
qed simp


section \<open>Relayed bytes\<close>

text \<open>What a validator has broadcast and what it has queued fits the wire format.\<close>

definition relay_ok :: "('sk, 'vk) libs \<Rightarrow> ('q, 'sk) validator \<Rightarrow> bool" where
  "relay_ok L v \<longleftrightarrow> app_ok L (vd_app v) \<and> wire_ok L (vd_app v) \<and>
     (\<forall>bytes \<in> set (vd_sent v). \<exists>b. encodable b \<and> bytes = block_encode L b)"

lemma relay_ok_step:
  assumes "channel_laws L" and "codec_laws L" and "relay_ok L v" and "tasks_ok [t]"
    and "validator_step pr L W t v = Some v'"
  shows "relay_ok L v'"
proof (cases t)
  case (EngineSends e)
  with assms(3,5) show ?thesis by (auto simp: relay_ok_def split: option.splits)
next
  case (ActorTurn env)
  have "key_order (env_senders env)" using assms(4) ActorTurn by (simp add: tasks_ok_def)
  then have "v' = v \<or> vd_sent v' = vd_sent v \<and> app_moves pr L (vd_app v) (vd_app v')"
    using assms(5) ActorTurn by (auto simp: app_moves_def split: option.splits) blast
  then show ?thesis using assms(3) app_ok_move [OF assms(1)] wire_ok_move [OF assms(2)]
    unfolding relay_ok_def by metis
next
  case (BlockOut w)
  with assms(3,5) show ?thesis using app_ok_dequeue [of L "vd_app v"]
    by (auto simp: relay_ok_def wire_ok_def block_out_round_def split: list.splits)
next
  case (BlockIn w)
  with assms(3,5) show ?thesis by (auto simp: relay_ok_def split: option.splits)
qed

interpretation relay_steps: stepwise
    "\<lambda>v v'. \<exists>t. tasks_ok [t] \<and> validator_step pr L W t v = Some v'"
    "\<lambda>v. channel_laws L \<and> codec_laws L \<and> relay_ok L v"
  for pr and L :: "('sk, 'vk) libs"
    and W :: "('pk, 'key, 'addr, 'peers, 'p2p, 'oracle, 'snd, 'rcv, 'handle, 'w, 'q, 'f) wiring"
  by unfold_locales (auto intro: relay_ok_step)

lemma validator_run_star:
  "validator_run pr L W ts v = Some v' \<Longrightarrow> tasks_ok ts \<Longrightarrow>
   (\<lambda>v v'. \<exists>t. tasks_ok [t] \<and> validator_step pr L W t v = Some v')\<^sup>*\<^sup>* v v'"
proof (induction ts arbitrary: v)
  case (Cons t ts)
  then show ?case
    by (auto simp: tasks_ok_Cons [of t ts] split: option.splits intro: converse_rtranclp_into_rtranclp)
qed simp

text \<open>First in, first out: the bytes broadcast and those queued are those the actor queued.\<close>

lemma validator_run_append:
  "validator_run pr L W (ts @ us) v =
     (case validator_run pr L W ts v of None \<Rightarrow> None | Some v' \<Rightarrow> validator_run pr L W us v')"
  by (induction ts arbitrary: v) (auto split: option.split)

lemma validator_commits_append:
  "validator_run pr L W ts v = Some v' \<Longrightarrow>
   validator_commits pr L W (ts @ us) v = validator_commits pr L W ts v @ validator_commits pr L W us v'"
  by (induction ts arbitrary: v) (auto split: option.splits)


section \<open>A block from its proposer to its peers\<close>

text \<open>An event reaches the actor in its next turn, if the mailbox is empty.\<close>

definition idle :: "('q \<Rightarrow> message list) \<Rightarrow> ('q \<Rightarrow> message list) \<Rightarrow> ('q, 'sk) validator \<Rightarrow> bool" where
  "idle buf over v \<longleftrightarrow> buf (vd_mailbox v) @ over (vd_mailbox v) = []"

lemma turn_after_delivery:
  assumes "recv_laws (wr_recv W) buf over" and "buf (vd_mailbox v) @ over (vd_mailbox v) = [msg]"
    and "handle_message pr L env msg (vd_app v) = Some (r, app)"
  shows "\<exists>v'. validator_step pr L W (ActorTurn env) v = Some v' \<and> idle buf over v' \<and> vd_app v' = app \<and>
    vd_replies v' = vd_replies v @ [r] \<and> vd_sent v' = vd_sent v \<and>
    step_commits pr L W (ActorTurn env) v = commits pr L msg (vd_app v)"
proof (cases "wr_recv W (vd_mailbox v)")
  case None
  then show ?thesis using recv_lawsN [OF assms(1)] assms(2) by simp
next
  case (Some mq)
  obtain m q where mq: "mq = (m, q)" by (cases mq)
  have "m # buf q @ over q = [msg]"
    using recv_lawsD [OF assms(1)] Some mq assms(2) by metis
  then show ?thesis using Some mq assms(3) by (simp add: idle_def step_commits_def)
qed

lemma event_turn:
  assumes "wiring_laws W buf over" and "idle buf over v" and "meant e = [msg]"
    and "handle_message pr L env msg (vd_app v) = Some (r, app)"
  shows "\<exists>v'. validator_run pr L W [EngineSends e, ActorTurn env] v = Some v' \<and> idle buf over v' \<and>
    vd_app v' = app \<and> vd_replies v' = vd_replies v @ [r] \<and> vd_sent v' = vd_sent v \<and>
    validator_commits pr L W [EngineSends e, ActorTurn env] v = commits pr L msg (vd_app v)"
proof -
  obtain q where q: "send (wr_mailbox W) e (vd_mailbox v) = Some q"
    and "buf q @ over q = buf (vd_mailbox v) @ over (vd_mailbox v) @ meant e"
    using send_delivers [of "wr_mailbox W" buf over e "vd_mailbox v"] assms(1)
    unfolding wiring_laws_def by blast
  with assms(2,3) have held: "buf q @ over q = [msg]" by (simp add: idle_def)
  have rcv: "recv_laws (wr_recv W) buf over" using assms(1) unfolding wiring_laws_def by blast
  from turn_after_delivery [where v = "v\<lparr>vd_mailbox := q\<rparr>", OF rcv] held assms(4) q
  show ?thesis by (fastforce simp: step_commits_def [of _ _ _ "EngineSends e"])
qed

lemma bytes_turn:
  assumes "wiring_laws W buf over" and "idle buf over v"
    and "fst (rx_recv (wr_p2p W) (wr_rx W) w) = Some bytes"
  shows "\<exists>v'. validator_run pr L W [BlockIn w, ActorTurn env] v = Some v' \<and> idle buf over v' \<and>
    vd_app v' = store_block L bytes (vd_app v) \<and> vd_replies v' = vd_replies v @ [NoReply] \<and>
    vd_sent v' = vd_sent v \<and> validator_commits pr L W [BlockIn w, ActorTurn env] v = []"
proof -
  let ?q = "store_peer_block (wr_mailbox W) bytes (vd_mailbox v)"
  have "mailbox_laws (wr_mailbox W) buf over" and rcv: "recv_laws (wr_recv W) buf over"
    using assms(1) unfolding wiring_laws_def by blast+
  then have held: "buf ?q @ over ?q = [StoreBlock bytes]"
    using enqueue_ignored_delivers [of "wr_mailbox W" buf over "StoreBlock bytes" "vd_mailbox v"] assms(2)
    by (simp add: store_peer_block_def idle_def)
  have "validator_step pr L W (BlockIn w) v = Some (v\<lparr>vd_mailbox := ?q\<rparr>)"
    using assms(3) by (cases "rx_recv (wr_p2p W) (wr_rx W) w") (simp add: block_in_round_def)
  moreover have "handle_message pr L env (StoreBlock bytes) (vd_app v) =
      Some (NoReply, store_block L bytes (vd_app v))" by (simp add: handle_message_def)
  ultimately show ?thesis
    using turn_after_delivery [where v = "v\<lparr>vd_mailbox := ?q\<rparr>", OF rcv, of "StoreBlock bytes"] held
    by (fastforce simp: step_commits_def [of _ _ _ "BlockIn w"] commits_def)
qed

text \<open>What the proposer of a block and a follower do for it.\<close>

definition proposer_tasks ::
  "consensus_context \<Rightarrow> digest \<Rightarrow> environment \<Rightarrow> environment \<Rightarrow> 'w \<Rightarrow> environment \<Rightarrow> 'w task list" where
  "proposer_tasks ctx d e1 e2 w e3 =
     [EngineSends (AskProposal ctx), ActorTurn e1] @ [EngineSends (Relayed d), ActorTurn e2] @
     [BlockOut w] @ [EngineSends (Activity (Finalization d)), ActorTurn e3]"

definition follower_tasks ::
  "consensus_context \<Rightarrow> digest \<Rightarrow> 'w \<Rightarrow> environment \<Rightarrow> environment \<Rightarrow> environment \<Rightarrow> 'w task list" where
  "follower_tasks ctx d w e1 e2 e3 =
     [BlockIn w, ActorTurn e1] @ [EngineSends (AskVerdict ctx d), ActorTurn e2] @
     [EngineSends (Activity (Finalization d)), ActorTurn e3]"

text \<open>Everything about a block proposed on the genesis block by a fresh actor.\<close>

definition fresh :: "('sk, 'vk) libs \<Rightarrow> state_store \<Rightarrow> 'sk application \<Rightarrow> bool" where
  "fresh L s app \<longleftrightarrow> app_ok L app \<and> app_state app = s \<and> app_blocks app = store_of L [genesis] \<and>
     app_pending app = fmempty \<and> app_blocks_out app = []"

lemma fresh_propose:
  assumes "ed25519_laws L" and "fresh L s app" and "key_order it"
    and "nonce_room s APP_MAX_TXS_PER_BLOCK"
  shows "\<exists>d b s'. propose pr L it clock (block_hash L genesis) app =
      (Ok d, app\<lparr>app_pending := fmupd d b fmempty\<rparr>) \<and> d = block_hash L b \<and>
    block_parent b = block_hash L genesis \<and> block_height b = 1 \<and> apply_block pr L b s = (Ok (), s') \<and>
    encodable b"
proof -
  have ok: "mempool_ok L (app_mempool app)" using assms(2) by (simp add: fresh_def app_ok_def)
  have parent: "block_by_digest app (block_hash L genesis) = Some genesis"
    using assms(2) by (simp add: block_by_digest_def fresh_def)
  obtain d app1 where made: "propose pr L it clock (block_hash L genesis) app = (Ok d, app1)"
    using propose_with_room [OF assms(1) parent, of pr it clock] assms(2,4) by (auto simp: fresh_def)
  from propose_block [OF ok assms(3) made] parent assms(2)
  obtain b s' where "app1 = app\<lparr>app_pending := fmupd d b fmempty\<rparr>" "d = block_hash L b"
    "block_parent b = block_hash L genesis" "add_u64 pr (block_height genesis) 1 = Some (block_height b)"
    "apply_block pr L b s = (Ok (), s')" "length (blk_transactions b) \<le> APP_MAX_TXS_PER_BLOCK"
    by (auto simp: fresh_def)
  then show ?thesis using made
    by (auto simp: encodable_def APP_MAX_TXS_PER_BLOCK_def MAX_TXS_PER_BLOCK_def dest!: add_u64_Some)
qed

lemma fresh_verify:
  assumes "fresh L s app" and "block_parent b = block_hash L genesis" and "block_height b = 1"
    and "apply_block pr L b s = (Ok (), s')" and "d = block_hash L b" and "d \<noteq> block_hash L genesis"
  shows "verify pr L (block_hash L genesis) d (app\<lparr>app_pending := fmupd d b fmempty\<rparr>) = Some True"
  using assms
  by (subst verify_at_tip_iff [of _ genesis _ genesis])
    (simp_all add: fresh_def block_by_digest_def add_u64_one)

lemma fresh_finalize:
  assumes "fresh L s app" and "app_pending app1 = fmupd d b fmempty" and "app_state app1 = app_state app"
    and "app_blocks app1 = app_blocks app" and "apply_block pr L b s = (Ok (), s')" and "block_height b = 1"
  shows "handle_message pr L env (Finalize d) app1 = Some (NoReply, committed L d b s' app1) \<and>
    app_state (committed L d b s' app1) = s' \<and>
    app_blocks (committed L d b s' app1) = store_of L [genesis, b] \<and>
    tip (app_blocks (committed L d b s' app1)) = Some b \<and> commits pr L (Finalize d) app1 = [b]"
proof -
  have "finalize pr L d app1 = (Ok (), committed L d b s' app1)"
    unfolding finalize_Ok_iff using assms by (auto simp: fresh_def)
  moreover have "app_blocks app1 = store_of L [genesis]" using assms(1,4) by (simp add: fresh_def)
  moreover have "store_of L [genesis, b] = block_store_insert L b (store_of L [genesis])"
    by (simp add: store_of_def)
  ultimately show ?thesis
    using tip_insert_higher [of "store_of L [genesis]" genesis b L] assms(6)
    by (simp add: handle_message_def commits_def assms(2))
qed


text \<open>The actor of a validator that has just started.\<close>

lemma node_boot_fresh:
  assumes "scheme_laws K" and "roster_ok K net" and "\<forall>a. allocated_to a (allocations (node_genesis n)) < 2 ^ 64"
    and "node_boot pr L K net n = Some (sch, app)"
  shows "\<exists>s. credit_all pr (allocations (node_genesis n)) state_new = Some s \<and> fresh L s app \<and>
    (\<forall>a. get_nonce s a = 0)"
proof -
  have app: "app_blocks app = store_of L [genesis]" "app_pending app = fmempty" "app_ok L app"
    "\<forall>a. get_nonce (app_state app) a = 0"
    using node_boot_correct [OF assms(1,2), of n pr L] assms(3,4) by auto
  have "credit_all pr (allocations (node_genesis n)) state_new = Some (app_state app)"
    and "app_blocks_out app = []"
    using assms(4) by (auto simp: node_boot_def app_new_def Let_def split: option.splits res.splits)
  then show ?thesis using app by (auto simp: fresh_def)
qed

lemma nonces_zero_room: "\<forall>a. get_nonce s a = 0 \<Longrightarrow> nonce_room s APP_MAX_TXS_PER_BLOCK"
  by (simp add: nonce_room_def APP_MAX_TXS_PER_BLOCK_def)

lemma proposer_run:
  assumes "wiring_laws W buf over" and "buf q @ over q = []" and "fresh L s app0"
    and made: "propose pr L (env_senders e1) (env_clock e1) (block_hash L genesis) app0 =
      (Ok d, app0\<lparr>app_pending := fmupd d b fmempty\<rparr>)"
    and b: "block_height b = 1" "apply_block pr L b s = (Ok (), s')"
    and "lib_accepts L BLOCKS_OUT_CAPACITY []" and "snd (ctx_parent ctx) = block_hash L genesis"
  shows "\<exists>v. validator_run pr L W (proposer_tasks ctx d e1 e2 w e3) (validator_new q app0) = Some v \<and>
    vd_replies v = [ReplyDigest d, NoReply, NoReply] \<and> vd_sent v = [block_encode L b] \<and>
    app_state (vd_app v) = s' \<and> app_blocks (vd_app v) = store_of L [genesis, b] \<and> tip (app_blocks (vd_app v)) = Some b \<and>
    validator_commits pr L W (proposer_tasks ctx d e1 e2 w e3) (validator_new q app0) = [b]"
proof -
  let ?app1 = "app0\<lparr>app_pending := fmupd d b fmempty\<rparr>"
  have start: "idle buf over (validator_new q app0)" using assms(2) by (simp add: idle_def validator_new_def)
  have "handle_message pr L e1 (Propose (snd (ctx_parent ctx))) (vd_app (validator_new q app0)) =
      Some (ReplyDigest d, ?app1)"
    using made assms(8) by (simp add: handle_message_def validator_new_def)
  from event_turn [where e = "AskProposal ctx", OF assms(1) start _ this]
  obtain v1 where v1: "validator_run pr L W [EngineSends (AskProposal ctx), ActorTurn e1] (validator_new q app0) = Some v1"
    "idle buf over v1" "vd_app v1 = ?app1" "vd_replies v1 = [ReplyDigest d]" "vd_sent v1 = []"
    "validator_commits pr L W [EngineSends (AskProposal ctx), ActorTurn e1] (validator_new q app0) = []"
    by (auto simp: validator_new_def commits_def)
  let ?app2 = "?app1\<lparr>app_blocks_out := [block_encode L b]\<rparr>"
  have "handle_message pr L e2 (Broadcast d) (vd_app v1) = Some (NoReply, ?app2)"
    using assms(3,7) v1(3) by (simp add: handle_message_def broadcast_block_def fresh_def)
  from event_turn [where e = "Relayed d", OF assms(1) v1(2) _ this]
  obtain v2 where v2: "validator_run pr L W [EngineSends (Relayed d), ActorTurn e2] v1 = Some v2"
    "idle buf over v2" "vd_app v2 = ?app2" "vd_replies v2 = [ReplyDigest d, NoReply]" "vd_sent v2 = []"
    "validator_commits pr L W [EngineSends (Relayed d), ActorTurn e2] v1 = []"
    using v1(4,5) by (auto simp: commits_def)
  let ?v3 = "v2\<lparr>vd_app := ?app1\<lparr>app_blocks_out := []\<rparr>, vd_sent := [block_encode L b]\<rparr>"
  have v3: "validator_run pr L W [BlockOut w] v2 = Some ?v3" "idle buf over ?v3"
    "validator_commits pr L W [BlockOut w] v2 = []"
    using v2 by (simp_all add: block_out_round_def idle_def step_commits_def)
  note fin = fresh_finalize [where L = L and s = s and ?app1.0 = "vd_app ?v3" and d = d and b = b and pr = pr and env = e3,
      OF assms(3) _ _ _ b(2,1)]
  from event_turn [where e = "Activity (Finalization d)", OF assms(1) v3(2) _ conjunct1 [OF fin]]
  obtain v4 where v4: "validator_run pr L W [EngineSends (Activity (Finalization d)), ActorTurn e3] ?v3 = Some v4"
    "vd_app v4 = committed L d b s' (vd_app ?v3)" "vd_replies v4 = [ReplyDigest d, NoReply, NoReply]"
    "vd_sent v4 = [block_encode L b]"
    "validator_commits pr L W [EngineSends (Activity (Finalization d)), ActorTurn e3] ?v3 = [b]"
    using v2(4) fin by auto
  have "validator_run pr L W (proposer_tasks ctx d e1 e2 w e3) (validator_new q app0) = Some v4"
    unfolding proposer_tasks_def using v1(1) v2(1) v3(1) v4(1)
    by (simp only: validator_run_append option.simps)
  moreover have "validator_commits pr L W (proposer_tasks ctx d e1 e2 w e3) (validator_new q app0) = [b]"
    unfolding proposer_tasks_def validator_commits_append [OF v1(1)] validator_commits_append [OF v2(1)]
      validator_commits_append [OF v3(1)] v1(6) v2(6) v3(3) v4(5) by simp
  moreover have "app_state (vd_app v4) = s' \<and> app_blocks (vd_app v4) = store_of L [genesis, b] \<and>
      tip (app_blocks (vd_app v4)) = Some b"
    unfolding v4(2) using fin by (auto simp del: committed_simps)
  ultimately show ?thesis using v4(3,4) by blast
qed

lemma follower_run:
  assumes "wiring_laws W buf over" and "buf q @ over q = []" and "fresh L s app0" and "codec_laws L"
    and "d = block_hash L b" and "block_parent b = block_hash L genesis" and "block_height b = 1" and "encodable b"
    and "apply_block pr L b s = (Ok (), s')" and "d \<noteq> block_hash L genesis"
    and "snd (ctx_parent ctx) = block_hash L genesis"
    and "fst (rx_recv (wr_p2p W) (wr_rx W) w) = Some (block_encode L b)"
  shows "\<exists>v. validator_run pr L W (follower_tasks ctx d w e1 e2 e3) (validator_new q app0) = Some v \<and>
    vd_replies v = [NoReply, ReplyBool True, NoReply] \<and> app_state (vd_app v) = s' \<and>
    app_blocks (vd_app v) = store_of L [genesis, b] \<and>
    validator_commits pr L W (follower_tasks ctx d w e1 e2 e3) (validator_new q app0) = [b]"
proof -
  let ?app1 = "app0\<lparr>app_pending := fmupd d b fmempty\<rparr>"
  have "block_decode L (block_encode L b) = Inr b"
    using assms(8) by (intro block_decode_encode [OF assms(4)]) (simp add: encodable_def)
  then have stored: "store_block L (block_encode L b) app0 = ?app1"
    using assms(3,5) by (simp add: store_block_def fresh_def)
  have start: "idle buf over (validator_new q app0)" using assms(2) by (simp add: idle_def validator_new_def)
  from bytes_turn [OF assms(1) start assms(12), of pr L e1]
  obtain v1 where v1: "validator_run pr L W [BlockIn w, ActorTurn e1] (validator_new q app0) = Some v1"
    "idle buf over v1" "vd_app v1 = ?app1" "vd_replies v1 = [NoReply]"
    "validator_commits pr L W [BlockIn w, ActorTurn e1] (validator_new q app0) = []"
    using stored by (auto simp: validator_new_def)
  have "handle_message pr L e2 (Verify (snd (ctx_parent ctx)) d) (vd_app v1) = Some (ReplyBool True, ?app1)"
    using fresh_verify [OF assms(3,6,7,9,5,10)] v1(3) assms(11) by (simp add: handle_message_def)
  from event_turn [where e = "AskVerdict ctx d", OF assms(1) v1(2) _ this]
  obtain v2 where v2: "validator_run pr L W [EngineSends (AskVerdict ctx d), ActorTurn e2] v1 = Some v2"
    "idle buf over v2" "vd_app v2 = ?app1" "vd_replies v2 = [NoReply, ReplyBool True]"
    "validator_commits pr L W [EngineSends (AskVerdict ctx d), ActorTurn e2] v1 = []"
    using v1(4) by (auto simp: commits_def)
  note fin = fresh_finalize [where L = L and s = s and ?app1.0 = "vd_app v2" and d = d and b = b and pr = pr and env = e3,
      OF assms(3) _ _ _ assms(9,7)]
  from event_turn [where e = "Activity (Finalization d)", OF assms(1) v2(2) _ conjunct1 [OF fin]]
  obtain v3 where v3: "validator_run pr L W [EngineSends (Activity (Finalization d)), ActorTurn e3] v2 = Some v3"
    "vd_app v3 = committed L d b s' (vd_app v2)" "vd_replies v3 = [NoReply, ReplyBool True, NoReply]"
    "validator_commits pr L W [EngineSends (Activity (Finalization d)), ActorTurn e3] v2 = [b]"
    using v2(3,4) fin by auto
  have "validator_run pr L W (follower_tasks ctx d w e1 e2 e3) (validator_new q app0) = Some v3"
    unfolding follower_tasks_def using v1(1) v2(1) v3(1) by (simp only: validator_run_append option.simps)
  moreover have "validator_commits pr L W (follower_tasks ctx d w e1 e2 e3) (validator_new q app0) = [b]"
    unfolding follower_tasks_def validator_commits_append [OF v1(1)] validator_commits_append [OF v2(1)]
      v1(5) v2(5) v3(4) by simp
  ultimately show ?thesis using v3(2,3) fin v2(3) by (intro exI [of _ v3]) simp
qed


section \<open>Properties\<close>

lemma node_boot_keys:
  assumes "scheme_laws K" and "node_boot pr L K net n = Some (sch, app)"
  shows "distinct (map (sl_key_of K) (map fst (net_peers net)))"
proof -
  have "make_scheme K NAMESPACE (map fst (net_peers net)) (net_seed net) = Ok (Some sch)"
    using assms(2) by (auto simp: node_boot_def Let_def split: option.splits res.splits)
  then show ?thesis using make_scheme_found [OF assms(1)] by blast
qed

lemma node_run_app:
  "node_run pr L K P new_engine mailbox reporter net n = Some rn \<Longrightarrow>
   \<exists>sch. node_boot pr L K net n = Some (sch, rn_app rn)"
  by (auto simp: node_run_def Let_def split: option.splits prod.splits)

lemma node_run_boot:
  assumes "scheme_laws K" and "peer_map_laws P" and "sl_key_of K = (\<lambda>s. pl_public_key P (pl_from_seed P s))"
    and "node_boot pr L K net n = Some (sch, app)"
  shows "\<exists>rn. node_run pr L K P new_engine mailbox reporter net n = Some rn \<and> rn_app rn = app"
proof -
  have "network_new P net \<noteq> None"
    using node_boot_keys [OF assms(1,4)] unfolding network_new_panics [OF assms(2)] assms(3) by simp
  then show ?thesis
    by (auto simp: node_run_def assms(4) Let_def split: prod.split)
qed

text \<open>
  Starting a validator. Wiring the network never stops it: once the chain state is built and
  the signing scheme found, the peer map has no duplicate keys, so that a node runs exactly if it
  boots; and it does so if the keys of the roster are distinct, its seed is among them and the
  allocations fit.
\<close>

theorem node_starts:
  assumes "scheme_laws K" and "peer_map_laws P" and "sl_key_of K = (\<lambda>s. pl_public_key P (pl_from_seed P s))"
  shows "(node_run pr L K P new_engine mailbox reporter net n = None \<longleftrightarrow> node_boot pr L K net n = None) \<and>
    (roster_ok K net \<and> (\<forall>a. allocated_to a (allocations (node_genesis n)) < 2 ^ 64) \<longrightarrow>
       (\<exists>rn. node_run pr L K P new_engine mailbox reporter net n = Some rn \<and> app_ok L (rn_app rn) \<and>
          tip (app_blocks (rn_app rn)) = Some genesis))"
proof
  show "node_run pr L K P new_engine mailbox reporter net n = None \<longleftrightarrow> node_boot pr L K net n = None"
    using node_run_boot [OF assms, of pr L net n _ _ new_engine mailbox reporter]
      node_run_app [of pr L K P new_engine mailbox reporter net n]
    by (cases "node_boot pr L K net n"; cases "node_run pr L K P new_engine mailbox reporter net n") auto
  show "roster_ok K net \<and> (\<forall>a. allocated_to a (allocations (node_genesis n)) < 2 ^ 64) \<longrightarrow>
       (\<exists>rn. node_run pr L K P new_engine mailbox reporter net n = Some rn \<and> app_ok L (rn_app rn) \<and>
          tip (app_blocks (rn_app rn)) = Some genesis)"
  proof
    assume net: "roster_ok K net \<and> (\<forall>a. allocated_to a (allocations (node_genesis n)) < 2 ^ 64)"
    obtain sch app where "node_boot pr L K net n = Some (sch, app)" "app_ok L app"
      "app_blocks app = store_of L [genesis]"
      using node_boot_correct [OF assms(1) conjunct1 [OF net], of n pr L] net by blast
    with node_run_boot [OF assms, of pr L net n sch app new_engine mailbox reporter]
    show "\<exists>rn. node_run pr L K P new_engine mailbox reporter net n = Some rn \<and> app_ok L (rn_app rn) \<and>
        tip (app_blocks (rn_app rn)) = Some genesis"
      by auto
  qed
qed

text \<open>
  C14: the tasks of a validator do not disturb each other. However they are interleaved, and
  whatever the network does meanwhile, the actor has handled a prefix of the messages meant by
  the tasks, in their order, the mailbox holds the rest, and the replies and the state are those of a
  run of the actor alone on that prefix (its outbound queue apart, which is drained meanwhile).
\<close>

theorem validator_refines_actor:
  assumes "wiring_laws W buf over" and "buf q @ over q = []" and "tasks_ok ts"
    and "validator_run pr L W ts (validator_new q app0) = Some v"
  shows "\<exists>handled app. app_run pr L handled app0 = Some (vd_replies v, app) \<and> core app = core (vd_app v) \<and>
    map snd handled @ buf (vd_mailbox v) @ over (vd_mailbox v) = concat (map (task_meant W) ts)"
  using follows_run [OF assms(1) follows_new [of buf q over, OF assms(2)] _ assms(3,4)]
  by (auto simp: follows_def)

text \<open>
  C2: the life of a validator. Whatever its engine, its peers and the network do after it has
  started, its state is the replay of some blocks on the genesis state, it stores exactly these on
  top of the genesis block, the sum of all balances is what the genesis configuration allocates, and
  the digests of these blocks are among the finalizations its own engine reported, in their order.
\<close>

theorem validator_life:
  assumes "channel_laws L" and "scheme_laws K" and "roster_ok K net"
    and "\<forall>a. allocated_to a (allocations (node_genesis n)) < 2 ^ 64"
    and "node_run pr L K P new_engine mailbox reporter net n = Some rn"
    and "wiring_laws W buf over" and "buf q @ over q = []" and "tasks_ok ts"
    and "validator_run pr L W ts (validator_new q (rn_app rn)) = Some v"
  shows "\<exists>bs. apply_blocks pr L bs (app_state (rn_app rn)) = (Ok (), app_state (vd_app v)) \<and>
    app_blocks (vd_app v) = store_of L (genesis # bs) \<and>
    total_supply (app_state (vd_app v)) = allocated (allocations (node_genesis n)) \<and>
    subseq (map (block_hash L) bs) (concat (map reported ts))"
proof -
  obtain sch where "node_boot pr L K net n = Some (sch, rn_app rn)" using node_run_app [OF assms(5)] by blast
  then have boot: "total_supply (app_state (rn_app rn)) = allocated (allocations (node_genesis n))"
    "app_blocks (rn_app rn) = store_of L [genesis]" "app_ok L (rn_app rn)"
    using node_boot_correct [OF assms(2,3), of n pr L] assms(4) by auto
  obtain bs app where reach: "app_reaches pr L (rn_app rn) bs app" and core: "core app = core (vd_app v)"
    and sub: "subseq (map (block_hash L) bs) (concat (map reported ts))"
    using validator_chain [OF assms(1) boot(3) assms(6-9)] by blast
  have same: "app_state app = app_state (vd_app v)" "app_blocks app = app_blocks (vd_app v)"
    using arg_cong [OF core, of app_state] arg_cong [OF core, of app_blocks] by simp_all
  note replay = reaches_replay [OF reach]
  then have "apply_txs pr L (concat (map blk_transactions bs)) (app_state (rn_app rn)) = (Ok (), app_state app)"
    by (simp add: apply_blocks_concat)
  from total_supply_apply_txs [OF this] replay boot(1,2) sub show ?thesis
    unfolding same [symmetric] by (auto simp: store_of_def)
qed

text \<open>
  C15: in a build without overflow checks no interleaving of the tasks stops a validator, as long
  as its engine asks for no epoch but the one it is configured with, which is 0.
\<close>

theorem validator_never_stops:
  assumes "channel_laws L" and "wiring_laws W buf over" and "buf q @ over q = []" and "app_ok L app0"
    and "tasks_ok ts" and "\<forall>e. EngineSends (AskGenesis e) \<in> set ts \<longrightarrow> e = 0"
  shows "\<exists>v. validator_run Release L W ts (validator_new q app0) = Some v \<and> app_ok L (vd_app v)"
proof -
  have "first_epoch (task_meant W t)" if "t \<in> set ts" for t
  proof (cases t)
    case (EngineSends e)
    with that assms(6) show ?thesis by (cases e rule: meant.cases) auto
  qed (simp_all split: option.split)
  then show ?thesis
    using validator_run_progress [OF assms(1,2), of "validator_new q app0" ts] assms(3-5)
    by (simp add: validator_new_def)
qed

text \<open>
  C31: what a validator sends, its peers can read: whatever its tasks do, every byte string it has
  broadcast or queued decodes to a block whose encoding it is.
\<close>

theorem broadcast_bytes_decode:
  assumes "channel_laws L" and "codec_laws L" and "app_ok L app0" and "wire_ok L app0" and "tasks_ok ts"
    and "validator_run pr L W ts (validator_new q app0) = Some v"
    and "bytes \<in> set (vd_sent v) \<union> set (app_blocks_out (vd_app v))"
  shows "\<exists>b. block_decode L bytes = Inr b \<and> block_encode L b = bytes \<and> length (blk_transactions b) \<le> 16384"
proof -
  have "relay_ok L (validator_new q app0)" using assms(3,4) by (simp add: relay_ok_def validator_new_def)
  then have "relay_ok L v"
    using relay_steps.star_keeps [OF validator_run_star [OF assms(6,5)]] assms(1,2) by blast
  then obtain b where "encodable b" "bytes = block_encode L b"
    using assms(7) unfolding relay_ok_def wire_ok_def by blast
  then show ?thesis using block_decode_encode [OF assms(2), of b]
    by (auto simp: encodable_def MAX_TXS_PER_BLOCK_def)
qed


text \<open>
  C5: a block travels from its proposer to any peer. Let the allocations of each address in the genesis
  configuration fit 64 bits. A validator that has just started and is asked to propose
  on the genesis block, to relay its proposal and to finalize it answers with the digest of a block
  of height 1, broadcasts one byte string and commits the block. Any validator started from the same
  genesis configuration that receives this byte string accepts the proposal, and once it has
  finalized the digest too it holds the same state and the same blocks - unless the digest is that of
  the genesis block. All this holds whatever transactions are queued at the two nodes, with any keys,
  clocks and orders of the maps.
\<close>

theorem block_travels:
  assumes "codec_laws L" and "ed25519_laws L" and "lib_accepts L BLOCKS_OUT_CAPACITY []" and "scheme_laws K"
    and "roster_ok K net" and "node_run pr L K P new_engine mailbox reporter net n = Some rn"
    and "roster_ok K net'" and "node_run pr L K P new_engine mailbox reporter net' n' = Some rn'"
    and "allocations (node_genesis n') = allocations (node_genesis n)"
    and "\<forall>a. allocated_to a (allocations (node_genesis n)) < 2 ^ 64"
    and "wiring_laws W buf over" and "buf q @ over q = []" and "wiring_laws W' buf over" and "buf q' @ over q' = []"
    and "key_order (env_senders e1)" and "ctx_parent ctx = (0, block_hash L genesis)"
  shows "\<exists>d b bytes v.
    validator_run pr L W (proposer_tasks ctx d e1 e2 w e3) (validator_new q (rn_app rn)) = Some v \<and>
    vd_replies v = [ReplyDigest d, NoReply, NoReply] \<and> vd_sent v = [bytes] \<and>
    d = block_hash L b \<and> block_height b = 1 \<and> tip (app_blocks (vd_app v)) = Some b \<and>
    (\<forall>w' f1 f2 f3. d \<noteq> block_hash L genesis \<and> fst (rx_recv (wr_p2p W') (wr_rx W') w') = Some bytes \<longrightarrow>
       (\<exists>v'. validator_run pr L W' (follower_tasks ctx d w' f1 f2 f3) (validator_new q' (rn_app rn')) = Some v' \<and>
          vd_replies v' = [NoReply, ReplyBool True, NoReply] \<and>
          app_state (vd_app v') = app_state (vd_app v) \<and> app_blocks (vd_app v') = app_blocks (vd_app v)))"
proof -
  obtain sch where boot: "node_boot pr L K net n = Some (sch, rn_app rn)" using node_run_app [OF assms(6)] by blast
  obtain sch' where boot': "node_boot pr L K net' n' = Some (sch', rn_app rn')" using node_run_app [OF assms(8)] by blast
  obtain s where s: "credit_all pr (allocations (node_genesis n)) state_new = Some s" "fresh L s (rn_app rn)"
    "\<forall>a. get_nonce s a = 0"
    using node_boot_fresh [OF assms(4,5,10) boot] by blast
  have fresh': "fresh L s (rn_app rn')"
    using node_boot_fresh [OF assms(4,7) _ boot'] s(1) assms(9,10) by auto
  have parent: "snd (ctx_parent ctx) = block_hash L genesis" using assms(16) by simp
  obtain d b s' where made: "propose pr L (env_senders e1) (env_clock e1) (block_hash L genesis) (rn_app rn) =
      (Ok d, (rn_app rn)\<lparr>app_pending := fmupd d b fmempty\<rparr>)"
    and b: "d = block_hash L b" "block_parent b = block_hash L genesis" "block_height b = 1" "encodable b"
    "apply_block pr L b s = (Ok (), s')"
    using fresh_propose [OF assms(2) s(2) assms(15), of pr "env_clock e1"] nonces_zero_room [OF s(3)] by blast
  obtain v where v: "validator_run pr L W (proposer_tasks ctx d e1 e2 w e3) (validator_new q (rn_app rn)) = Some v"
    "vd_replies v = [ReplyDigest d, NoReply, NoReply]" "vd_sent v = [block_encode L b]" "tip (app_blocks (vd_app v)) = Some b"
    "app_state (vd_app v) = s'" "app_blocks (vd_app v) = store_of L [genesis, b]"
    using proposer_run [OF assms(11,12) s(2) made b(3,5) assms(3) parent, of e2 w e3] by blast
  have "\<exists>v'. validator_run pr L W' (follower_tasks ctx d w' f1 f2 f3) (validator_new q' (rn_app rn')) = Some v' \<and>
      vd_replies v' = [NoReply, ReplyBool True, NoReply] \<and>
      app_state (vd_app v') = app_state (vd_app v) \<and> app_blocks (vd_app v') = app_blocks (vd_app v)"
    if "d \<noteq> block_hash L genesis" "fst (rx_recv (wr_p2p W') (wr_rx W') w') = Some (block_encode L b)" for w' f1 f2 f3
    using follower_run [OF assms(13,14) fresh' assms(1) b that(1) parent that(2), of f1 f2 f3] v(5,6) by auto
  with v(1-4) b show ?thesis by blast
qed



subsection \<open>Witnesses\<close>

text \<open>A network in which keys are seeds and the world is the list of the bytes under way.\<close>

definition sample_p2p ::
  "(u64, u64, string, (u64 \<times> string) list, unit, unit, unit, unit, unit, u8 list list) p2p_lib" where
  "sample_p2p =
     \<lparr>pl_from_seed = (\<lambda>s. s), pl_public_key = (\<lambda>k. k), pl_address = (\<lambda>a. a),
      pl_map = (\<lambda>es. if distinct (map fst es) then Some es else None),
      pl_new = (\<lambda>_ _ _ _. ((), ())), pl_track = (\<lambda>_ _ o1. o1), pl_register = (\<lambda>_ _ _ _. (((), ()), ())),
      pl_start = (\<lambda>_. ()), pl_send = (\<lambda>bs _ _ w. (Inr [0], w @ [bs])),
      pl_recv = (\<lambda>_ w. case w of [] \<Rightarrow> (Inl ''closed'', []) | m # ms \<Rightarrow> (Inr (0, m), ms))\<rparr>"

definition sample_recv :: "message list \<times> message list \<Rightarrow> (message \<times> message list \<times> message list) option" where
  "sample_recv q =
     (case fst q @ snd q of
        [] \<Rightarrow> None
      | m # ms \<Rightarrow> Some (m, (drop 1 (fst q), if fst q = [] then ms else snd q)))"

definition sample_wiring ::
  "(u64, u64, string, (u64 \<times> string) list, unit, unit, unit, unit, unit, u8 list list,
     message list \<times> message list, bool) wiring" where
  "sample_wiring =
     \<lparr>wr_p2p = sample_p2p, wr_tx = \<lparr>tx_end = ()\<rparr>, wr_rx = \<lparr>rx_end = ()\<rparr>,
      wr_mailbox = sample_mailbox, wr_recv = sample_recv\<rparr>"

lemma sample_peer_map_laws: "peer_map_laws sample_p2p"
  by (simp add: peer_map_laws_def sample_p2p_def)

lemma sample_keys: "sl_key_of sample_schemes = (\<lambda>s. pl_public_key sample_p2p (pl_from_seed sample_p2p s))"
  by (simp add: sample_schemes_def sample_p2p_def)

lemma sample_recv_laws: "recv_laws sample_recv fst snd"
  by (auto simp: recv_laws_def sample_recv_def neq_Nil_conv split: list.split)

lemma sample_wiring_laws: "wiring_laws sample_wiring fst snd"
  using sample_mailbox_laws sample_recv_laws by (simp add: wiring_laws_def sample_wiring_def)

definition sample_run ::
  "(address, unit, unit, unit, (u64 list, unit, unit, unit) engine_config) running option" where
  "sample_run = node_run Debug sample_libs sample_schemes sample_p2p (\<lambda>cfg _ _ _. cfg) () () sample_net sample_node"

lemma sample_run_starts:
  "\<exists>rn sch. sample_run = Some rn \<and> node_boot Debug sample_libs sample_schemes sample_net sample_node = Some (sch, rn_app rn)"
proof -
  obtain sch app where "node_boot Debug sample_libs sample_schemes sample_net sample_node = Some (sch, app)"
    using node_boot_correct [OF sample_schemes_laws sample_roster sample_node_fits, of Debug sample_libs] by blast
  with node_run_boot [OF sample_schemes_laws sample_peer_map_laws sample_keys this, of "\<lambda>cfg _ _ _. cfg" "()" "()"]
  show ?thesis unfolding sample_run_def by auto
qed

theorem node_starts_witness: "\<exists>rn. sample_run = Some rn \<and> tip (app_blocks (rn_app rn)) = Some genesis"
  using node_starts [OF sample_schemes_laws sample_peer_map_laws sample_keys, where pr = Debug and L = sample_libs
      and new_engine = "\<lambda>cfg _ _ _. cfg" and mailbox = "()" and reporter = "()" and net = sample_net and n = sample_node]
    sample_roster sample_node_fits
  unfolding sample_run_def by blast

definition sample_tasks :: "u8 list list task list" where
  "sample_tasks =
     [EngineSends (AskGenesis 0), BlockIn [[1, 2, 3]],
      EngineSends (AskProposal \<lparr>ctx_parent = (0, block_hash sample_libs genesis)\<rparr>),
      ActorTurn sample_env, ActorTurn sample_env, ActorTurn sample_env, BlockOut []]"

lemma sample_tasks_ok: "tasks_ok sample_tasks"
  by (auto simp: tasks_ok_def sample_tasks_def)

lemma sample_tasks_meant:
  "concat (map (task_meant sample_wiring) sample_tasks) =
     [Genesis 0, StoreBlock [1, 2, 3], Propose (block_hash sample_libs genesis)]"
  by (simp add: sample_tasks_def sample_wiring_def sample_p2p_def rx_recv_def recv_bytes_def)

theorem validator_never_stops_witness:
  "validator_run Release sample_libs sample_wiring sample_tasks (validator_new ([], []) sample_app) \<noteq> None"
  using validator_never_stops [OF sample_channel_laws sample_wiring_laws _ sample_app_ok sample_tasks_ok, where q = "([], [])"]
  by (auto simp: sample_tasks_def simp del: validator_run.simps)

lemma sample_validator_runs:
  assumes "app_ok sample_libs app"
  shows "\<exists>v. validator_run Release sample_libs sample_wiring sample_tasks (validator_new ([], []) app) = Some v"
proof -
  have "\<forall>t \<in> set sample_tasks. first_epoch (task_meant sample_wiring t)"
    by (simp add: sample_tasks_def split: option.split)
  then show ?thesis
    using validator_run_progress [OF sample_channel_laws sample_wiring_laws, of "validator_new ([], []) app" sample_tasks]
      sample_tasks_ok assms by (auto simp: validator_new_def)
qed

theorem validator_refines_actor_witness:
  "\<exists>v handled app.
     validator_run Release sample_libs sample_wiring sample_tasks (validator_new ([], []) sample_app) = Some v \<and>
     app_run Release sample_libs handled sample_app = Some (vd_replies v, app) \<and>
     prefix (map snd handled) [Genesis 0, StoreBlock [1, 2, 3], Propose (block_hash sample_libs genesis)]"
proof -
  obtain v where v: "validator_run Release sample_libs sample_wiring sample_tasks (validator_new ([], []) sample_app) = Some v"
    using sample_validator_runs [OF sample_app_ok] by blast
  obtain handled app where "app_run Release sample_libs handled sample_app = Some (vd_replies v, app)"
    and "map snd handled @ fst (vd_mailbox v) @ snd (vd_mailbox v) = concat (map (task_meant sample_wiring) sample_tasks)"
    using validator_refines_actor [OF sample_wiring_laws _ sample_tasks_ok v] by auto
  with v show ?thesis unfolding sample_tasks_meant by (metis prefixI)
qed


definition sample_run_release ::
  "(address, unit, unit, unit, (u64 list, unit, unit, unit) engine_config) running option" where
  "sample_run_release = node_run Release sample_libs sample_schemes sample_p2p (\<lambda>cfg _ _ _. cfg) () () sample_net sample_node"

theorem validator_life_witness:
  "\<exists>rn v. sample_run_release = Some rn \<and>
     validator_run Release sample_libs sample_wiring sample_tasks (validator_new ([], []) (rn_app rn)) = Some v \<and>
     total_supply (app_state (vd_app v)) = 1000000 \<and> app_blocks (vd_app v) = store_of sample_libs [genesis]"
proof -
  obtain sch app where boot: "node_boot Release sample_libs sample_schemes sample_net sample_node = Some (sch, app)"
    "app_ok sample_libs app"
    using node_boot_correct [OF sample_schemes_laws sample_roster sample_node_fits, of Release sample_libs] by blast
  obtain rn where rn: "sample_run_release = Some rn" "rn_app rn = app"
    using node_run_boot [OF sample_schemes_laws sample_peer_map_laws sample_keys boot(1), of "\<lambda>cfg _ _ _. cfg" "()" "()"]
    unfolding sample_run_release_def by blast
  obtain v where v: "validator_run Release sample_libs sample_wiring sample_tasks (validator_new ([], []) (rn_app rn)) = Some v"
    using sample_validator_runs boot(2) rn(2) by blast
  have none: "concat (map reported sample_tasks) = []" by (simp add: sample_tasks_def)
  have "\<forall>a. allocated_to a (allocations (node_genesis sample_node)) < 2 ^ 64" using sample_node_fits by blast
  from validator_life [OF sample_channel_laws sample_schemes_laws sample_roster this rn(1) [unfolded sample_run_release_def]
      sample_wiring_laws _ sample_tasks_ok v]
  show ?thesis using rn(1) v unfolding none by (auto simp: sample_node_def dest!: list_emb_Nil2)
qed

lemma sample_node_simps [simp]:
  "allocations (node_genesis sample_node) = [(repeat_byte 7, 1000000)]"
  "node_initial_txs sample_node = [tx_signed sample_libs (repeat_byte 7) (repeat_byte 0xBB) 100 0]"
  by (simp_all add: sample_node_def)

text \<open>Two validators started from the demo configuration, with different seeds.\<close>

definition sample_net' :: network_config where
  "sample_net' = \<lparr>net_seed = 3, net_listen = ''127.0.0.1:4003'', net_peers = devnet\<rparr>"

lemma sample_roster': "roster_ok sample_schemes sample_net'"
  by (simp add: roster_ok_def sample_schemes_def sample_net'_def devnet_def)

definition sample_ctx :: consensus_context where
  "sample_ctx = \<lparr>ctx_parent = (0, block_hash sample_libs genesis)\<rparr>"

theorem block_travels_witness:
  "\<exists>rn rn' d b bytes v. sample_run = Some rn \<and>
     node_run Debug sample_libs sample_schemes sample_p2p (\<lambda>cfg _ _ _. cfg) () () sample_net' sample_node = Some rn' \<and>
     validator_run Debug sample_libs sample_wiring (proposer_tasks sample_ctx d sample_env sample_env [] sample_env)
       (validator_new ([], []) (rn_app rn)) = Some v \<and>
     vd_replies v = [ReplyDigest d, NoReply, NoReply] \<and> d = block_hash sample_libs b \<and> block_height b = 1 \<and>
     (d = block_hash sample_libs genesis \<or>
      (\<exists>v'. validator_run Debug sample_libs sample_wiring
          (follower_tasks sample_ctx d [bytes] sample_env sample_env sample_env) (validator_new ([], []) (rn_app rn')) = Some v' \<and>
         vd_replies v' = [NoReply, ReplyBool True, NoReply] \<and> app_state (vd_app v') = app_state (vd_app v)))"
proof -
  obtain rn where rn: "sample_run = Some rn" using sample_run_starts by blast
  obtain sch app where "node_boot Debug sample_libs sample_schemes sample_net' sample_node = Some (sch, app)"
    using node_boot_correct [OF sample_schemes_laws sample_roster' sample_node_fits, of Debug sample_libs] by blast
  from node_run_boot [OF sample_schemes_laws sample_peer_map_laws sample_keys this, of "\<lambda>cfg _ _ _. cfg" "()" "()"]
  obtain rn' where rn': "node_run Debug sample_libs sample_schemes sample_p2p (\<lambda>cfg _ _ _. cfg) () () sample_net' sample_node
      = Some rn'" by blast
  have fits: "\<forall>a. allocated_to a (allocations (node_genesis sample_node)) < 2 ^ 64" using sample_node_fits by blast
  have got: "fst (rx_recv (wr_p2p sample_wiring) (wr_rx sample_wiring) [m]) = Some m" for m
    by (simp add: sample_wiring_def sample_p2p_def rx_recv_def recv_bytes_def)
  have room: "lib_accepts sample_libs BLOCKS_OUT_CAPACITY []" by (simp add: BLOCKS_OUT_CAPACITY_def)
  obtain d b bytes v where
    v: "validator_run Debug sample_libs sample_wiring (proposer_tasks sample_ctx d sample_env sample_env [] sample_env)
       (validator_new ([], []) (rn_app rn)) = Some v"
      "vd_replies v = [ReplyDigest d, NoReply, NoReply]" "d = block_hash sample_libs b" "block_height b = 1"
    and follow: "\<forall>w' f1 f2 f3. d \<noteq> block_hash sample_libs genesis \<and>
        fst (rx_recv (wr_p2p sample_wiring) (wr_rx sample_wiring) w') = Some bytes \<longrightarrow>
       (\<exists>v'. validator_run Debug sample_libs sample_wiring (follower_tasks sample_ctx d w' f1 f2 f3)
            (validator_new ([], []) (rn_app rn')) = Some v' \<and>
          vd_replies v' = [NoReply, ReplyBool True, NoReply] \<and>
          app_state (vd_app v') = app_state (vd_app v) \<and> app_blocks (vd_app v') = app_blocks (vd_app v))"
    using block_travels [OF sample_codec_laws sample_ed25519_laws room sample_schemes_laws sample_roster
        rn [unfolded sample_run_def] sample_roster' rn' refl fits sample_wiring_laws _ sample_wiring_laws,
        where q = "([], [])" and q' = "([], [])" and ?e1.0 = sample_env and ?e2.0 = sample_env and ?e3.0 = sample_env
          and w = "[]" and ctx = sample_ctx]
    by (auto simp: sample_ctx_def)
  have "d = block_hash sample_libs genesis \<or>
      (\<exists>v'. validator_run Debug sample_libs sample_wiring
          (follower_tasks sample_ctx d [bytes] sample_env sample_env sample_env) (validator_new ([], []) (rn_app rn')) = Some v' \<and>
         vd_replies v' = [NoReply, ReplyBool True, NoReply] \<and> app_state (vd_app v') = app_state (vd_app v))"
    using follow got [of bytes] by blast
  with rn rn' v show ?thesis by blast
qed

theorem broadcast_bytes_decode_witness:
  "\<exists>v b bytes. validator_run Debug sample_libs sample_wiring
       [EngineSends (Relayed sample_d1), ActorTurn sample_env, BlockOut []] (validator_new ([], []) sample_app1) = Some v \<and>
     vd_sent v = [bytes] \<and> block_decode sample_libs bytes = Inr b \<and> block_encode sample_libs b = bytes"
proof -
  let ?ts = "[EngineSends (Relayed sample_d1), ActorTurn sample_env, BlockOut []]"
  have one: "handle_message Debug sample_libs sample_env (Broadcast sample_d1)
      (vd_app (validator_new ([], []) sample_app1)) =
      Some (NoReply, sample_app1\<lparr>app_blocks_out := [block_encode sample_libs (sample_on genesis 5)]\<rparr>)"
    by (simp add: handle_message_def validator_new_def broadcast_block_def sample_app1_def BLOCKS_OUT_CAPACITY_def)
  have "idle fst snd (validator_new ([], []) sample_app1)" by (simp add: idle_def validator_new_def)
  from event_turn [where e = "Relayed sample_d1", OF sample_wiring_laws this _ one]
  obtain v1 where v1: "validator_run Debug sample_libs sample_wiring [EngineSends (Relayed sample_d1), ActorTurn sample_env]
      (validator_new ([], []) sample_app1) = Some v1"
    "app_blocks_out (vd_app v1) = [block_encode sample_libs (sample_on genesis 5)]" "vd_sent v1 = []"
    by (auto simp: validator_new_def)
  have "validator_run Debug sample_libs sample_wiring
      ([EngineSends (Relayed sample_d1), ActorTurn sample_env] @ [BlockOut []]) (validator_new ([], []) sample_app1) =
      Some (v1\<lparr>vd_app := (vd_app v1)\<lparr>app_blocks_out := []\<rparr>,
               vd_sent := [block_encode sample_libs (sample_on genesis 5)]\<rparr>)"
    unfolding validator_run_append v1(1) using v1(2,3) by (simp add: block_out_round_def)
  then obtain v bytes where v: "validator_run Debug sample_libs sample_wiring ?ts (validator_new ([], []) sample_app1) = Some v"
    "vd_sent v = [bytes]"
    unfolding append.simps by (rule that) simp
  have "app_ok sample_libs sample_app1" "wire_ok sample_libs sample_app1"
    using sample_app_ok by (auto simp: app_ok_def wire_ok_def encodable_def sample_app1_def sample_d1_def MAX_TXS_PER_BLOCK_def)
  from broadcast_bytes_decode [OF sample_channel_laws sample_codec_laws this _ v(1), of bytes] v
  show ?thesis by (auto simp: tasks_ok_def)
qed

end
