(* ===== verification/Cluster.thy ===== *)
theory Cluster
  imports Validator
begin

text \<open>
  Several validators that run this code and talk to each other: a cluster moves by a round of a task
  of one of them. Their engines may do anything, and the network may lose, delay, duplicate and
  reorder what it carries; but it only delivers bytes that a validator of the cluster has broadcast.
\<close>

section \<open>Runs\<close>

text \<open>The bytes a round hands to the mailbox have been broadcast in the cluster.\<close>

definition relayed ::
  "('pk, 'key, 'addr, 'peers, 'p2p, 'oracle, 'snd, 'rcv, 'handle, 'w, 'q, 'f) wiring \<Rightarrow>
     'w task \<Rightarrow> ('q, 'sk) validator list \<Rightarrow> bool" where
  "relayed W t vs \<longleftrightarrow> (\<forall>bytes. StoreBlock bytes \<in> set (task_meant W t) \<longrightarrow> bytes \<in> (\<Union>v \<in> set vs. set (vd_sent v)))"

text \<open>The log says who has committed what, in the order of the commits.\<close>

inductive cluster_reaches ::
  "profile \<Rightarrow> ('sk, 'vk) libs \<Rightarrow>
     (nat \<Rightarrow> ('pk, 'key, 'addr, 'peers, 'p2p, 'oracle, 'snd, 'rcv, 'handle, 'w, 'q, 'f) wiring) \<Rightarrow>
     ('q, 'sk) validator list \<Rightarrow> (nat \<times> block) list \<Rightarrow> ('q, 'sk) validator list \<Rightarrow> bool"
  for pr L Ws vs0 where
  cluster_start: "cluster_reaches pr L Ws vs0 [] vs0"
| cluster_round: "cluster_reaches pr L Ws vs0 log vs \<Longrightarrow> i < length vs \<Longrightarrow> tasks_ok [t] \<Longrightarrow> relayed (Ws i) t vs \<Longrightarrow>
    validator_step pr L (Ws i) t (vs ! i) = Some v \<Longrightarrow>
    cluster_reaches pr L Ws vs0 (log @ map (Pair i) (step_commits pr L (Ws i) t (vs ! i))) (vs[i := v])"

definition committed_by :: "nat \<Rightarrow> (nat \<times> block) list \<Rightarrow> block list" where
  "committed_by i log = map snd (filter (\<lambda>(j, _). j = i) log)"

lemma committed_by_simps [simp]:
  "committed_by i [] = []" "committed_by i (log @ log') = committed_by i log @ committed_by i log'"
  "committed_by i (map (Pair j) bs) = (if i = j then bs else [])"
  by (simp_all add: committed_by_def filter_map comp_def)


section \<open>Genuine blocks\<close>

text \<open>
  A block as this code builds it, for one of the keys in \<open>S\<close>: it carries the root of its
  transactions, all of them signed, and they are as many as may be proposed.
\<close>

definition genuine :: "('sk, 'vk) libs \<Rightarrow> address set \<Rightarrow> block \<Rightarrow> bool" where
  "genuine L S b \<longleftrightarrow>
     rooted L b \<and> hd_proposer (blk_header b) \<in> S \<and> length (blk_transactions b) \<le> APP_MAX_TXS_PER_BLOCK \<and>
     (\<forall>tx \<in> set (blk_transactions b). verify_signature L tx = Inr ())"

definition genuine_bytes :: "('sk, 'vk) libs \<Rightarrow> address set \<Rightarrow> u8 list \<Rightarrow> bool" where
  "genuine_bytes L S bytes \<longleftrightarrow> (\<exists>b. genuine L S b \<and> bytes = block_encode L b)"

lemma genuine_encodable: "genuine L S b \<Longrightarrow> encodable b"
  by (simp add: genuine_def encodable_def APP_MAX_TXS_PER_BLOCK_def MAX_TXS_PER_BLOCK_def)

lemma genuine_decoded:
  assumes "codec_laws L" and "genuine_bytes L S bytes" and "block_decode L bytes = Inr b"
  shows "genuine L S b"
proof -
  obtain c where c: "genuine L S c" "bytes = block_encode L c" using assms(2) unfolding genuine_bytes_def by blast
  then have "block_decode L bytes = Inr c"
    using block_decode_encode [OF assms(1)] genuine_encodable [OF c(1)] by (simp add: encodable_def)
  with assms(3) c(1) show ?thesis by simp
qed

lemma genuine_built:
  assumes "mempool_ok L m" and "key_order it" and "build_block pr L it p m s = Ok sb"
    and "bp_max_txs p = APP_MAX_TXS_PER_BLOCK" and "lib_public L (bp_proposer p) \<in> S"
  shows "genuine L S (sb_block sb)"
proof -
  let ?txs = "blk_transactions (sb_block sb)"
  have "length ?txs \<le> APP_MAX_TXS_PER_BLOCK" using build_block_selection [OF assms(1-3)] assms(4) by auto
  moreover have "verify_signature L tx = Inr ()" if "tx \<in> set ?txs" for tx
    using build_block_members(2) [OF assms(1-3)] pool_txs_verified [OF assms(1)] that by blast
  ultimately show ?thesis
    using build_block_Ok [OF assms(3)] assms(5) by (auto simp: genuine_def rooted_def compute_tx_root_eq)
qed

text \<open>An actor that knows genuine blocks only.\<close>

definition genuine_app :: "('sk, 'vk) libs \<Rightarrow> address set \<Rightarrow> 'sk application \<Rightarrow> bool" where
  "genuine_app L S app \<longleftrightarrow>
     app_ok L app \<and> lib_public L (app_signer app) \<in> S \<and>
     (\<forall>d b. fmlookup (app_pending app) d = Some b \<longrightarrow> genuine L S b) \<and>
     (\<forall>bytes \<in> set (app_blocks_out app). genuine_bytes L S bytes)"

lemma genuine_appD:
  assumes "genuine_app L S app"
  shows "app_ok L app" and "lib_public L (app_signer app) \<in> S"
    and "fmlookup (app_pending app) d = Some b \<Longrightarrow> genuine L S b"
  using assms unfolding genuine_app_def by blast+

lemma genuine_app_learn:
  "genuine_app L S app \<Longrightarrow> genuine L S b \<Longrightarrow> app_ok L (app\<lparr>app_pending := fmupd d b (app_pending app)\<rparr>) \<Longrightarrow>
   genuine_app L S (app\<lparr>app_pending := fmupd d b (app_pending app)\<rparr>)"
  by (simp add: genuine_app_def)

lemma genuine_app_shrink:
  assumes "genuine_app L S app" and "app_ok L app'" and "app_signer app' = app_signer app"
    and "\<And>d b. fmlookup (app_pending app') d = Some b \<Longrightarrow> fmlookup (app_pending app) d = Some b"
    and "app_blocks_out app' = app_blocks_out app"
  shows "genuine_app L S app'"
  using assms unfolding genuine_app_def by metis

lemma genuine_app_move:
  assumes "channel_laws L" and "codec_laws L" and ok: "genuine_app L S app" and it: "key_order (env_senders env)"
    and one: "handle_message pr L env msg app = Some (r, app')"
    and bytes: "\<And>bytes. msg = StoreBlock bytes \<Longrightarrow> genuine_bytes L S bytes"
  shows "genuine_app L S app'"
proof -
  have "app_moves pr L app app'" using it one unfolding app_moves_def by blast
  then have ok': "app_ok L app'" by (rule app_ok_move [OF assms(1) genuine_appD(1) [OF ok]])
  have pool: "mempool_ok L (app_mempool app)" using genuine_appD(1) [OF ok] by (simp add: app_ok_def)
  show ?thesis
  proof (cases msg)
    case (Propose p)
    then obtain res where res: "propose pr L (env_senders env) (env_clock env) p app = (res, app')" "res \<noteq> Panic"
      using one by (auto simp: handle_message_def split: prod.splits res.splits)
    show ?thesis
    proof (cases res)
      case (Ok d)
      from propose_Ok [OF res(1) [unfolded Ok]] obtain q sb where
        build: "build_block pr L (env_senders env)
          \<lparr>bp_parent = q, bp_timestamp = now_secs (env_clock env), bp_proposer = app_signer app,
           bp_max_txs = APP_MAX_TXS_PER_BLOCK\<rparr> (app_mempool app) (app_state app) = Ok sb"
        and app': "app' = app\<lparr>app_pending := fmupd d (sb_block sb) (app_pending app)\<rparr>" by blast
      have "genuine L S (sb_block sb)"
        using genuine_appD(2) [OF ok] by (intro genuine_built [OF pool it build]) simp_all
      with ok ok' show ?thesis unfolding app' by (intro genuine_app_learn)
    next
      case (Err e)
      with res ok show ?thesis by (auto dest: propose_Err_state)
    qed (use res(2) in simp)
  next
    case (Finalize d)
    with one obtain res where res: "finalize pr L d app = (res, app')" "res \<noteq> Panic"
      by (auto simp: handle_message_def split: prod.splits res.splits)
    then have "app_signer app' = app_signer app \<and> app_blocks_out app' = app_blocks_out app \<and>
        (\<forall>d b. fmlookup (app_pending app') d = Some b \<longrightarrow> fmlookup (app_pending app) d = Some b)"
      by (cases res) (auto simp: finalize_Ok_iff finalize_Err_iff split: if_splits)
    then show ?thesis by (intro genuine_app_shrink [OF ok ok']) auto
  next
    case (Broadcast d)
    with one ok ok' show ?thesis
      by (auto simp: handle_message_def broadcast_block_def genuine_app_def genuine_bytes_def
          split: option.splits if_splits) blast
  next
    case (StoreBlock bs)
    show ?thesis
    proof (cases "block_decode L bs")
      case (Inr b)
      then have "app' = app\<lparr>app_pending := fmupd (block_hash L b) b (app_pending app)\<rparr>"
        using one StoreBlock by (simp add: handle_message_def store_block_def)
      then show ?thesis
        using genuine_app_learn [OF ok genuine_decoded [OF assms(2) bytes [OF StoreBlock] Inr]] ok' by blast
    qed (use one StoreBlock ok in \<open>auto simp: handle_message_def store_block_def\<close>)
  qed (use one ok in \<open>auto simp: handle_message_def split: option.splits if_splits\<close>)
qed


section \<open>Genuine validators\<close>

text \<open>A validator that knows, has received and has broadcast genuine blocks only.\<close>

definition genuine_validator ::
  "('sk, 'vk) libs \<Rightarrow> address set \<Rightarrow> ('q \<Rightarrow> message list) \<Rightarrow> ('q, 'sk) validator \<Rightarrow> bool" where
  "genuine_validator L S holds v \<longleftrightarrow>
     genuine_app L S (vd_app v) \<and> (\<forall>bytes \<in> set (vd_sent v). genuine_bytes L S bytes) \<and>
     (\<forall>bytes. StoreBlock bytes \<in> set (holds (vd_mailbox v)) \<longrightarrow> genuine_bytes L S bytes)"

lemma genuine_validatorI:
  "genuine_app L S (vd_app v) \<Longrightarrow> (\<And>bytes. bytes \<in> set (vd_sent v) \<Longrightarrow> genuine_bytes L S bytes) \<Longrightarrow>
   (\<And>bytes. StoreBlock bytes \<in> set (holds (vd_mailbox v)) \<Longrightarrow> genuine_bytes L S bytes) \<Longrightarrow>
   genuine_validator L S holds v"
  unfolding genuine_validator_def by blast

lemma genuine_validatorD:
  assumes "genuine_validator L S holds v"
  shows "genuine_app L S (vd_app v)" and "bytes \<in> set (vd_sent v) \<Longrightarrow> genuine_bytes L S bytes"
    and "StoreBlock bytes \<in> set (holds (vd_mailbox v)) \<Longrightarrow> genuine_bytes L S bytes"
  using assms unfolding genuine_validator_def by blast+

text \<open>What a round does to the state and the store, in terms of the blocks it commits.\<close>

definition grows ::
  "profile \<Rightarrow> ('sk, 'vk) libs \<Rightarrow> 'sk application \<Rightarrow> block list \<Rightarrow> 'sk application \<Rightarrow> bool" where
  "grows pr L app bs app' \<longleftrightarrow>
     apply_blocks pr L bs (app_state app) = (Ok (), app_state app') \<and>
     app_blocks app' = fold (block_store_insert L) bs (app_blocks app) \<and> app_signer app' = app_signer app"

lemma grows_refl: "app_state app' = app_state app \<Longrightarrow> app_blocks app' = app_blocks app \<Longrightarrow>
   app_signer app' = app_signer app \<Longrightarrow> grows pr L app [] app'"
  by (simp add: grows_def)

lemma grows_trans: "grows pr L app bs app' \<Longrightarrow> grows pr L app' cs app'' \<Longrightarrow> grows pr L app (bs @ cs) app''"
  by (auto simp: grows_def chain_ledger.run_append_Ok)

lemma grows_message:
  assumes "handle_message pr L env msg app = Some (r, app')"
  shows "grows pr L app (commits pr L msg app) app' \<and>
    (\<forall>b \<in> set (commits pr L msg app). \<exists>d. fmlookup (app_pending app) d = Some b)"
  using assms by (cases rule: handle_message_cases) (auto simp: grows_def chain_ledger.run_Cons_Ok)

lemma genuine_step:
  assumes "channel_laws L" and "codec_laws L" and wiring: "wiring_laws W buf over"
    and ok: "genuine_validator L S (\<lambda>q. buf q @ over q) v" and "tasks_ok [t]"
    and received: "\<And>bytes. StoreBlock bytes \<in> set (task_meant W t) \<Longrightarrow> genuine_bytes L S bytes"
    and step: "validator_step pr L W t v = Some v'"
  shows "genuine_validator L S (\<lambda>q. buf q @ over q) v' \<and>
    grows pr L (vd_app v) (step_commits pr L W t v) (vd_app v') \<and>
    (\<forall>b \<in> set (step_commits pr L W t v). genuine L S b)"
proof -
  note mbx = wiring [unfolded wiring_laws_def, THEN conjunct1]
    and rcv = wiring [unfolded wiring_laws_def, THEN conjunct2]
  have delivered: "genuine_validator L S (\<lambda>q. buf q @ over q) (v\<lparr>vd_mailbox := q\<rparr>)"
    if "buf q @ over q = buf (vd_mailbox v) @ over (vd_mailbox v) @ task_meant W t" for q
    using genuine_validatorD [OF ok] received that by (intro genuine_validatorI) auto
  show ?thesis
  proof (cases t)
    case (EngineSends e)
    obtain q where "send (wr_mailbox W) e (vd_mailbox v) = Some q"
      "buf q @ over q = buf (vd_mailbox v) @ over (vd_mailbox v) @ meant e"
      using send_delivers [OF mbx] by blast
    then show ?thesis using EngineSends step delivered [of q] by (auto simp: step_commits_def intro: grows_refl)
  next
    case (ActorTurn env)
    show ?thesis
    proof (cases "wr_recv W (vd_mailbox v)")
      case None
      with ActorTurn step ok show ?thesis by (simp add: step_commits_def grows_refl)
    next
      case (Some mq)
      obtain msg q where mq: "mq = (msg, q)" by (cases mq)
      obtain r app where one: "handle_message pr L env msg (vd_app v) = Some (r, app)"
        and v': "v' = v\<lparr>vd_mailbox := q, vd_app := app, vd_replies := vd_replies v @ [r]\<rparr>"
        using step ActorTurn Some mq by (auto split: option.splits)
      have held: "buf (vd_mailbox v) @ over (vd_mailbox v) = msg # buf q @ over q"
        using recv_lawsD [OF rcv] Some mq by simp
      have "genuine_app L S app"
        using assms(5) ActorTurn genuine_validatorD(3) [OF ok] held
        by (intro genuine_app_move [OF assms(1,2) genuine_validatorD(1) [OF ok] _ one]) (auto simp: tasks_ok_def)
      then have "genuine_validator L S (\<lambda>q. buf q @ over q) v'"
        using genuine_validatorD(2,3) [OF ok] held v' by (intro genuine_validatorI) auto
      moreover have "step_commits pr L W t v = commits pr L msg (vd_app v)"
        using ActorTurn Some mq by (simp add: step_commits_def)
      ultimately show ?thesis
        using grows_message [OF one] genuine_appD(3) [OF genuine_validatorD(1) [OF ok]] v' by auto
    qed
  next
    case (BlockOut w)
    with step consider "v' = v" | bytes rest where "app_blocks_out (vd_app v) = bytes # rest"
      "v' = v\<lparr>vd_app := (vd_app v)\<lparr>app_blocks_out := rest\<rparr>, vd_sent := vd_sent v @ [bytes]\<rparr>"
      by (auto simp: block_out_round_def split: list.splits)
    then show ?thesis
    proof cases
      case 2
      then have "genuine_validator L S (\<lambda>q. buf q @ over q) v'"
        using ok app_ok_dequeue [of L "vd_app v" bytes rest]
        by (auto simp: genuine_validator_def genuine_app_def)
      with 2 BlockOut show ?thesis by (simp add: step_commits_def grows_refl)
    qed (use BlockOut ok in \<open>simp add: step_commits_def grows_refl\<close>)
  next
    case (BlockIn w)
    show ?thesis
    proof (cases "fst (rx_recv (wr_p2p W) (wr_rx W) w)")
      case None
      with BlockIn step ok show ?thesis
        by (auto simp: block_in_round_def step_commits_def grows_refl split: prod.splits option.splits)
    next
      case (Some bytes)
      let ?q = "store_peer_block (wr_mailbox W) bytes (vd_mailbox v)"
      have "v' = v\<lparr>vd_mailbox := ?q\<rparr>"
        using BlockIn step Some by (auto simp: block_in_round_def split: prod.splits option.splits)
      then show ?thesis
        using delivered [of ?q] enqueue_ignored_delivers [OF mbx, of "StoreBlock bytes" "vd_mailbox v"] BlockIn Some
        by (simp add: store_peer_block_def step_commits_def grows_refl)
    qed
  qed
qed


section \<open>Clusters\<close>

definition signers :: "('sk, 'vk) libs \<Rightarrow> ('q, 'sk) validator list \<Rightarrow> address set" where
  "signers L vs = (\<lambda>v. lib_public L (app_signer (vd_app v))) ` set vs"

text \<open>A validator that has just been started, with the state \<open>s\<close>.\<close>

definition starts ::
  "('sk, 'vk) libs \<Rightarrow> ('q \<Rightarrow> message list) \<Rightarrow> ('q \<Rightarrow> message list) \<Rightarrow> state_store \<Rightarrow> ('q, 'sk) validator \<Rightarrow> bool" where
  "starts L buf over s v \<longleftrightarrow> (\<exists>q app. v = validator_new q app \<and> buf q @ over q = [] \<and> fresh L s app)"

lemma node_run_starts:
  assumes "scheme_laws K" and "roster_ok K net" and "\<forall>a. allocated_to a (allocations (node_genesis n)) < 2 ^ 64"
    and "node_run pr L K P new_engine mailbox reporter net n = Some rn" and "buf q @ over q = []"
  shows "starts L buf over (the (credit_all pr (allocations (node_genesis n)) state_new)) (validator_new q (rn_app rn))"
proof -
  obtain sch where "node_boot pr L K net n = Some (sch, rn_app rn)" using node_run_app [OF assms(4)] by blast
  then show ?thesis using node_boot_fresh [OF assms(1-3)] assms(5) unfolding starts_def by fastforce
qed

lemma starts_genuine:
  assumes "starts L buf over s v" and "v \<in> set vs"
  shows "genuine_validator L (signers L vs) (\<lambda>q. buf q @ over q) v"
proof -
  obtain q app where "v = validator_new q app" "buf q @ over q = []" "fresh L s app"
    using assms(1) unfolding starts_def by blast
  moreover have "lib_public L (app_signer (vd_app v)) \<in> signers L vs" using assms(2) by (auto simp: signers_def)
  ultimately show ?thesis by (simp add: genuine_validator_def genuine_app_def validator_new_def fresh_def)
qed

lemma starts_store:
  "starts L buf over s v \<Longrightarrow> app_blocks (vd_app v) = store_of L [genesis] \<and> app_state (vd_app v) = s"
  by (auto simp: starts_def validator_new_def fresh_def)

lemma store_of_Cons: "fold (block_store_insert L) bs (store_of L [b]) = store_of L (b # bs)"
  by (simp add: store_of_def)

lemma cluster_genuine:
  assumes "channel_laws L" and "codec_laws L" and "\<And>i. wiring_laws (Ws i) buf over"
    and "\<forall>v \<in> set vs0. starts L buf over s v"
  shows "cluster_reaches pr L Ws vs0 log vs \<Longrightarrow>
    length vs = length vs0 \<and> (\<forall>(i, b) \<in> set log. genuine L (signers L vs0) b) \<and>
    (\<forall>k < length vs. genuine_validator L (signers L vs0) (\<lambda>q. buf q @ over q) (vs ! k) \<and>
       grows pr L (vd_app (vs0 ! k)) (committed_by k log) (vd_app (vs ! k)))"
proof (induction rule: cluster_reaches.induct)
  case cluster_start
  have "genuine_validator L (signers L vs0) (\<lambda>q. buf q @ over q) (vs0 ! k)" if "k < length vs0" for k
    using nth_mem [OF that] assms(4) by (intro starts_genuine) auto
  then show ?case by (simp add: grows_refl)
next
  case (cluster_round log vs i t v)
  have sent: "genuine_bytes L (signers L vs0) bytes" if msg: "StoreBlock bytes \<in> set (task_meant (Ws i) t)" for bytes
  proof -
    obtain w where "w \<in> set vs" "bytes \<in> set (vd_sent w)"
      using cluster_round.hyps(4) msg unfolding relayed_def by blast
    moreover from this(1) have "genuine_validator L (signers L vs0) (\<lambda>q. buf q @ over q) w"
      using cluster_round.IH by (auto simp: in_set_conv_nth)
    ultimately show ?thesis by (metis genuine_validatorD(2))
  qed
  have "genuine_validator L (signers L vs0) (\<lambda>q. buf q @ over q) (vs ! i)"
    using cluster_round.IH cluster_round.hyps(2) by blast
  from genuine_step [OF assms(1-3) this cluster_round.hyps(3) sent cluster_round.hyps(5)]
  show ?case using cluster_round.IH cluster_round.hyps(2)
    by (auto simp: nth_list_update intro: grows_trans)
qed


section \<open>Progress\<close>

lemma validator_step_sent: "validator_step pr L W t v = Some v' \<Longrightarrow> set (vd_sent v) \<subseteq> set (vd_sent v')"
  by (cases t) (auto split: option.splits prod.splits)

lemma relayed_update:
  assumes "relayed W t vs" and "i < length vs" and "set (vd_sent (vs ! i)) \<subseteq> set (vd_sent v)"
  shows "relayed W t (vs[i := v])"
proof -
  have "\<exists>u \<in> set (vs[i := v]). bytes \<in> set (vd_sent u)" if sent: "w \<in> set vs" "bytes \<in> set (vd_sent w)" for w bytes
  proof -
    obtain k where k: "k < length vs" "w = vs ! k" using sent(1) by (auto simp: in_set_conv_nth)
    then have "bytes \<in> set (vd_sent (vs[i := v] ! k))"
      using sent(2) assms(2,3) by (cases "k = i") auto
    moreover have "vs[i := v] ! k \<in> set (vs[i := v])" using k(1) by (intro nth_mem) simp
    ultimately show ?thesis by blast
  qed
  with assms(1) show ?thesis unfolding relayed_def by blast
qed

text \<open>A run of one validator is a run of the cluster.\<close>

lemma cluster_run:
  "cluster_reaches pr L Ws vs0 log vs \<Longrightarrow> i < length vs \<Longrightarrow> tasks_ok ts \<Longrightarrow> \<forall>t \<in> set ts. relayed (Ws i) t vs \<Longrightarrow>
   validator_run pr L (Ws i) ts (vs ! i) = Some v \<Longrightarrow>
   cluster_reaches pr L Ws vs0 (log @ map (Pair i) (validator_commits pr L (Ws i) ts (vs ! i))) (vs[i := v])"
proof (induction ts arbitrary: log vs)
  case (Cons t ts)
  obtain v1 where step: "validator_step pr L (Ws i) t (vs ! i) = Some v1"
    and rest: "validator_run pr L (Ws i) ts v1 = Some v" using Cons.prems(5) by (auto split: option.splits)
  have ok: "tasks_ok [t]" "tasks_ok ts" using Cons.prems(3) by (simp_all add: tasks_ok_Cons [of t ts])
  have "cluster_reaches pr L Ws vs0 (log @ map (Pair i) (step_commits pr L (Ws i) t (vs ! i))) (vs[i := v1])"
    using Cons.prems(1,2,4) ok(1) step by (intro cluster_round) auto
  moreover have "\<forall>t \<in> set ts. relayed (Ws i) t (vs[i := v1])"
    using Cons.prems(4) by (auto intro: relayed_update [OF _ Cons.prems(2) validator_step_sent [OF step]])
  ultimately show ?case using Cons.IH [OF _ _ ok(2)] Cons.prems(2) rest step by fastforce
qed (auto simp: list_update_id)

text \<open>Validators that have committed the block \<open>b\<close> on the genesis block.\<close>

definition settled :: "('sk, 'vk) libs \<Rightarrow> state_store \<Rightarrow> block \<Rightarrow> ('q, 'sk) validator \<Rightarrow> bool" where
  "settled L s b v \<longleftrightarrow> app_state (vd_app v) = s \<and> app_blocks (vd_app v) = store_of L [genesis, b]"

text \<open>A validator that has just been started proposes, broadcasts and commits a block, or follows.\<close>

definition on_genesis :: "('sk, 'vk) libs \<Rightarrow> consensus_context" where
  "on_genesis L = \<lparr>ctx_parent = (0, block_hash L genesis)\<rparr>"

lemma starts_propose:
  assumes "wiring_laws W buf over" and "starts L buf over s v0" and "lib_accepts L BLOCKS_OUT_CAPACITY []"
    and "propose pr L (env_senders env) (env_clock env) (block_hash L genesis) (vd_app v0) =
      (Ok d, (vd_app v0)\<lparr>app_pending := fmupd d b fmempty\<rparr>)"
    and "block_height b = 1" and "apply_block pr L b s = (Ok (), s')"
  shows "\<exists>v. validator_run pr L W (proposer_tasks (on_genesis L) d env env w env) v0 = Some v \<and>
    vd_sent v = [block_encode L b] \<and> settled L s' b v \<and>
    validator_commits pr L W (proposer_tasks (on_genesis L) d env env w env) v0 = [b]"
proof -
  obtain q app where "v0 = validator_new q app" "buf q @ over q = []" "fresh L s app"
    using assms(2) unfolding starts_def by blast
  with assms(4) show ?thesis
    using proposer_run [OF assms(1) _ _ _ assms(5,6,3), of q app env d "on_genesis L" env w env]
    by (auto simp: validator_new_def on_genesis_def settled_def)
qed

lemma starts_follow:
  assumes "wiring_laws W buf over" and "starts L buf over s v0" and "codec_laws L"
    and "d = block_hash L b" and "block_parent b = block_hash L genesis" and "block_height b = 1" and "encodable b"
    and "apply_block pr L b s = (Ok (), s')" and "d \<noteq> block_hash L genesis"
    and "fst (rx_recv (wr_p2p W) (wr_rx W) w) = Some (block_encode L b)"
  shows "\<exists>v. validator_run pr L W (follower_tasks (on_genesis L) d w env env env) v0 = Some v \<and> settled L s' b v \<and>
    validator_commits pr L W (follower_tasks (on_genesis L) d w env env env) v0 = [b]"
proof -
  obtain q app where "v0 = validator_new q app" "buf q @ over q = []" "fresh L s app"
    using assms(2) unfolding starts_def by blast
  then show ?thesis
    using follower_run [OF assms(1) _ _ assms(3-9) _ assms(10), of q app "on_genesis L" env env env]
    by (auto simp: on_genesis_def settled_def)
qed

lemma first_block_tasks_ok:
  assumes "key_order (env_senders env)"
  shows "tasks_ok (proposer_tasks ctx d env env w env)" "tasks_ok (follower_tasks ctx d w env env env)"
  using assms by (auto simp: tasks_ok_def proposer_tasks_def follower_tasks_def)

lemma first_block_relayed:
  "t \<in> set (proposer_tasks ctx d env env w env) \<Longrightarrow> relayed W t vs"
  "t \<in> set (follower_tasks ctx d w env env env) \<Longrightarrow> fst (rx_recv (wr_p2p W) (wr_rx W) w) = Some bytes \<Longrightarrow>
   i < length vs \<Longrightarrow> bytes \<in> set (vd_sent (vs ! i)) \<Longrightarrow> relayed W t vs"
  by (auto simp: relayed_def proposer_tasks_def follower_tasks_def)

text \<open>One validator proposes and commits a block, and the first \<open>m\<close> of the others follow.\<close>

lemma cluster_first_block:
  assumes "codec_laws L" and "\<forall>k. wiring_laws (Ws k) buf over"
    and "\<forall>k bytes. \<exists>w. fst (rx_recv (wr_p2p (Ws k)) (wr_rx (Ws k)) w) = Some bytes"
    and "\<forall>v \<in> set vs0. starts L buf over s v" and i: "i < length vs0" and "key_order (env_senders (env :: environment))"
    and made: "propose pr L (env_senders env) (env_clock env) (block_hash L genesis) (vd_app (vs0 ! i)) =
      (Ok d, (vd_app (vs0 ! i))\<lparr>app_pending := fmupd d b fmempty\<rparr>)"
    and b: "d = block_hash L b" "block_parent b = block_hash L genesis" "block_height b = 1" "encodable b"
    "apply_block pr L b s = (Ok (), s')"
    and "d \<noteq> block_hash L genesis" and "lib_accepts L BLOCKS_OUT_CAPACITY []"
  shows "m \<le> length vs0 \<Longrightarrow>
    \<exists>log vs. cluster_reaches pr L Ws vs0 log vs \<and> length vs = length vs0 \<and> snd ` set log \<subseteq> {b} \<and>
      block_encode L b \<in> set (vd_sent (vs ! i)) \<and>
      (\<forall>k < length vs0. if k < m \<or> k = i then committed_by k log = [b] \<and> settled L s' b (vs ! k)
        else committed_by k log = [] \<and> vs ! k = vs0 ! k)"
proof (induction m)
  case 0
  obtain v where v: "validator_run pr L (Ws i) (proposer_tasks (on_genesis L) d env env undefined env) (vs0 ! i) = Some v"
    "vd_sent v = [block_encode L b]" "settled L s' b v"
    "validator_commits pr L (Ws i) (proposer_tasks (on_genesis L) d env env undefined env) (vs0 ! i) = [b]"
    using starts_propose [OF spec [OF assms(2), of i] bspec [OF assms(4) nth_mem [OF i]] assms(14) made b(3,5)] by blast
  have "cluster_reaches pr L Ws vs0 ([] @ map (Pair i) [b]) (vs0[i := v])"
    unfolding v(4) [symmetric]
    by (rule cluster_run [where vs = vs0 and i = i and Ws = Ws and v = v, OF cluster_start i _ _ v(1)])
      (auto intro: first_block_relayed(1) first_block_tasks_ok(1) assms(6))
  then show ?case using v i by (intro exI [of _ "[(i, b)]"] exI [of _ "vs0[i := v]"]) (auto simp: committed_by_def nth_list_update)
next
  case (Suc m)
  then obtain log vs where IH: "cluster_reaches pr L Ws vs0 log vs" "length vs = length vs0" "snd ` set log \<subseteq> {b}"
    "block_encode L b \<in> set (vd_sent (vs ! i))"
    and all: "\<forall>k < length vs0. if k < m \<or> k = i then committed_by k log = [b] \<and> settled L s' b (vs ! k)
        else committed_by k log = [] \<and> vs ! k = vs0 ! k" by auto
  show ?case
  proof (cases "m = i")
    case True
    with IH all show ?thesis by (intro exI [of _ log] exI [of _ vs]) (auto simp: less_Suc_eq)
  next
    case False
    have m: "m < length vs" "vs ! m = vs0 ! m" using Suc.prems IH(2) all False by auto
    obtain w where w: "fst (rx_recv (wr_p2p (Ws m)) (wr_rx (Ws m)) w) = Some (block_encode L b)" using assms(3) by blast
    let ?ts = "follower_tasks (on_genesis L) d w env env env"
    obtain v where v: "validator_run pr L (Ws m) ?ts (vs ! m) = Some v" "settled L s' b v"
      "validator_commits pr L (Ws m) ?ts (vs ! m) = [b]"
      using starts_follow [OF spec [OF assms(2), of m] bspec [OF assms(4) nth_mem] assms(1) b assms(13) w]
        m IH(2) by auto
    have "\<forall>t \<in> set ?ts. relayed (Ws m) t vs"
      using first_block_relayed(2) [OF _ w _ IH(4)] i IH(2) by simp
    from cluster_run [OF IH(1) m(1) first_block_tasks_ok(2) [OF assms(6)] this v(1)]
    have "cluster_reaches pr L Ws vs0 (log @ [(m, b)]) (vs[m := v])" using v(3) by simp
    moreover have "committed_by k (log @ [(m, b)]) = committed_by k log @ (if k = m then [b] else [])" for k
      by (simp add: committed_by_def)
    ultimately show ?thesis using IH all v(2) m False
      by (intro exI [of _ "log @ [(m, b)]"] exI [of _ "vs[m := v]"]) (auto simp: less_Suc_eq nth_list_update)
  qed
qed

lemma cluster_settles:
  assumes "codec_laws L" and "\<forall>k. wiring_laws (Ws k) buf over"
    and "\<forall>k bytes. \<exists>w. fst (rx_recv (wr_p2p (Ws k)) (wr_rx (Ws k)) w) = Some bytes"
    and "\<forall>v \<in> set vs0. starts L buf over s v" and "i < length vs0" and "key_order (env_senders (env :: environment))"
    and made: "propose pr L (env_senders env) (env_clock env) (block_hash L genesis) (vd_app (vs0 ! i)) =
      (Ok d, (vd_app (vs0 ! i))\<lparr>app_pending := fmupd d b fmempty\<rparr>)"
    and b: "d = block_hash L b" "block_parent b = block_hash L genesis" "block_height b = 1" "encodable b"
    "apply_block pr L b s = (Ok (), s')"
    and "d \<noteq> block_hash L genesis" and "lib_accepts L BLOCKS_OUT_CAPACITY []"
  shows "\<exists>log vs. cluster_reaches pr L Ws vs0 log vs \<and> length vs = length vs0 \<and> snd ` set log \<subseteq> {b} \<and>
    (\<forall>k < length vs0. committed_by k log = [b] \<and> settled L s' b (vs ! k))"
  using cluster_first_block [OF assms, of "length vs0"] by auto


section \<open>Properties\<close>

text \<open>
  C12: blocks in a cluster are genuine. Whatever the engines do and however the network treats what
  it carries, every block a validator knows or has finalized, the genesis block apart, is one that
  this code has built for the key of a validator of the cluster: it carries the root of its
  transactions, every one of them is signed by its sender, and there are at most 1024. So the
  replacement of transactions that a peer outside of the code can bring about does not occur.
\<close>

theorem cluster_blocks_genuine:
  assumes "channel_laws L" and "codec_laws L" and "\<forall>i. wiring_laws (Ws i) buf over"
    and "\<forall>v \<in> set vs0. starts L buf over s v" and "cluster_reaches pr L Ws vs0 log vs"
    and "v \<in> set vs" and "block_by_digest (vd_app v) d = Some b"
  shows "b = genesis \<or>
    (compute_tx_root L (blk_transactions b) = Some (hd_tx_root (blk_header b)) \<and>
     (\<exists>w \<in> set vs0. hd_proposer (blk_header b) = lib_public L (app_signer (vd_app w))) \<and>
     (\<forall>tx \<in> set (blk_transactions b). verify_signature L tx = Inr ()) \<and> length (blk_transactions b) \<le> 1024)"
proof -
  obtain k where k: "k < length vs" "v = vs ! k" using assms(6) by (auto simp: in_set_conv_nth)
  note cluster = cluster_genuine [OF assms(1,2) spec [OF assms(3)] assms(4,5)]
  have mine: "genuine_validator L (signers L vs0) (\<lambda>q. buf q @ over q) v" using cluster k by blast
  have "genuine L (signers L vs0) b \<or> b = genesis"
  proof (cases "fmlookup (app_pending (vd_app v)) d")
    case (Some c)
    then show ?thesis
      using assms(7) genuine_appD(3) [OF genuine_validatorD(1) [OF mine], of d b] by (simp add: block_by_digest_def)
  next
    case None
    then have "b \<in> stored_blocks (app_blocks (vd_app v))"
      using assms(7) by (auto simp: block_by_digest_def get_by_hash_def stored_blocks_def fmlookup_ran'_iff)
    moreover have "app_blocks (vd_app v) = store_of L (genesis # committed_by k log)"
      using cluster k starts_store [of L buf over s "vs0 ! k"] assms(4) by (simp add: grows_def store_of_Cons)
    moreover have "set (committed_by k log) \<subseteq> snd ` set log" by (auto simp: committed_by_def)
    ultimately show ?thesis
      using stored_blocks_store_of [of L "genesis # committed_by k log"] cluster by fastforce
  qed
  then show ?thesis by (auto simp: genuine_def rooted_def signers_def APP_MAX_TXS_PER_BLOCK_def)
qed

text \<open>
  C11: agreement in a cluster. Two validators of a cluster that was started with one state and that have
  committed blocks of the same digests, in the same order, have committed the same blocks and agree
  on the state and on the finalized blocks, whatever their engines did and however the network treated
  what it carried - unless the hash function collides on what these blocks hash.
\<close>

theorem cluster_agrees:
  assumes "channel_laws L" and "codec_laws L" and "\<forall>i. wiring_laws (Ws i) buf over"
    and "\<forall>v \<in> set vs0. starts L buf over s v" and "cluster_reaches pr L Ws vs0 log vs"
    and "i < length vs0" and "j < length vs0"
    and "map (block_hash L) (committed_by i log) = map (block_hash L) (committed_by j log)"
    and "no_collision L (\<Union>b \<in> snd ` set log. block_inputs L b)"
    and "zero_hash \<notin> sha256 L ` (\<Union>b \<in> snd ` set log. block_inputs L b)"
  shows "committed_by i log = committed_by j log \<and> app_state (vd_app (vs ! i)) = app_state (vd_app (vs ! j)) \<and>
    app_blocks (vd_app (vs ! i)) = app_blocks (vd_app (vs ! j))"
proof -
  note cluster = cluster_genuine [OF assms(1,2) spec [OF assms(3)] assms(4,5)]
  have grown: "grows pr L (vd_app (vs0 ! k)) (committed_by k log) (vd_app (vs ! k))" if "k < length vs0" for k
    using cluster that by auto
  have logged: "set (committed_by k log) \<subseteq> snd ` set log" for k by (auto simp: committed_by_def)
  have genuine: "genuine L (signers L vs0) b" if "b \<in> set (committed_by k log)" for b k
    using cluster logged [of k] that by fastforce
  have distinct: "\<forall>b \<in> set (committed_by k log). distinct (blk_transactions b)" if "k < length vs0" for k
    using grown [OF that] genuine_encodable [OF genuine] unfolding grows_def
    by (intro applied_blocks_distinct) blast+
  have "inj_on (block_hash L) (set (committed_by i log) \<union> set (committed_by j log))"
  proof (rule inj_onI)
    fix b c
    assume bc: "b \<in> set (committed_by i log) \<union> set (committed_by j log)"
      "c \<in> set (committed_by i log) \<union> set (committed_by j log)" and eq: "block_hash L b = block_hash L c"
    have facts: "block_inputs L x \<subseteq> (\<Union>b \<in> snd ` set log. block_inputs L b)" "rooted L x" "distinct (blk_transactions x)"
      if "x \<in> set (committed_by i log) \<union> set (committed_by j log)" for x
    proof -
      show "block_inputs L x \<subseteq> (\<Union>b \<in> snd ` set log. block_inputs L b)"
        using that logged [of i] logged [of j] by blast
      show "rooted L x" using that genuine [of x i] genuine [of x j] by (auto simp: genuine_def)
      show "distinct (blk_transactions x)" using that distinct [OF assms(6)] distinct [OF assms(7)] by blast
    qed
    show "b = c"
      by (rule rooted_block_hash_inject [OF assms(2,9,10) facts(1) [OF bc(1)] facts(1) [OF bc(2)]
            facts(2) [OF bc(1)] facts(2) [OF bc(2)] facts(3) [OF bc(1)] facts(3) [OF bc(2)] eq])
  qed
  then have same: "committed_by i log = committed_by j log"
    using assms(8) by (simp add: inj_on_map_eq_map)
  have "app_blocks (vd_app (vs0 ! k)) = store_of L [genesis] \<and> app_state (vd_app (vs0 ! k)) = s" if "k < length vs0" for k
    using assms(4) nth_mem [OF that] by (intro starts_store) blast
  then show ?thesis
    using same grown [OF assms(6)] grown [OF assms(7)] assms(6,7) by (simp add: grows_def)
qed

text \<open>
  C13: a cluster gets started. Let validators be started with one state in which no account has a
  nonce within 1024 of the 64-bit limit - as in every state of a genesis configuration, where all
  nonces are 0 - and let the network be able to deliver any bytes, whatever transactions the
  validators have pending. If one of them is asked to propose on the genesis block, then there is a run of the
  cluster in which it proposes a block of height 1 and every validator commits this block and
  nothing else, so that all of them hold the state after it and have it at their tip. The only way to
  fail is a proposal that has the digest of the genesis block.
\<close>

theorem cluster_can_commit:
  assumes "codec_laws L" and "ed25519_laws L" and "lib_accepts L BLOCKS_OUT_CAPACITY []"
    and "\<forall>k. wiring_laws (Ws k) buf over"
    and "\<forall>k bytes. \<exists>w. fst (rx_recv (wr_p2p (Ws k)) (wr_rx (Ws k)) w) = Some bytes"
    and "\<forall>v \<in> set vs0. starts L buf over s v" and "i < length vs0" and "key_order (env_senders (env :: environment))"
    and "\<forall>a. unat (get_nonce s a) + 1024 < 2 ^ 64"
  shows "\<exists>b s'. block_height b = 1 \<and> block_parent b = block_hash L genesis \<and> apply_block pr L b s = (Ok (), s') \<and>
    fst (propose pr L (env_senders env) (env_clock env) (block_hash L genesis) (vd_app (vs0 ! i))) = Ok (block_hash L b) \<and>
    (block_hash L b = block_hash L genesis \<or>
     (\<exists>log vs. cluster_reaches pr L Ws vs0 log vs \<and> length vs = length vs0 \<and>
        (\<forall>k < length vs. committed_by k log = [b] \<and> app_state (vd_app (vs ! k)) = s' \<and>
           tip (app_blocks (vd_app (vs ! k))) = Some b)))"
proof -
  have "fresh L s (vd_app (vs0 ! i))"
    using assms(6) nth_mem [OF assms(7)] by (auto simp: starts_def validator_new_def)
  moreover have "nonce_room s APP_MAX_TXS_PER_BLOCK"
    using assms(9) by (simp add: nonce_room_def APP_MAX_TXS_PER_BLOCK_def)
  ultimately
  obtain d b s' where made: "propose pr L (env_senders env) (env_clock env) (block_hash L genesis) (vd_app (vs0 ! i)) =
      (Ok d, (vd_app (vs0 ! i))\<lparr>app_pending := fmupd d b fmempty\<rparr>)"
    and b: "d = block_hash L b" "block_parent b = block_hash L genesis" "block_height b = 1" "encodable b"
    "apply_block pr L b s = (Ok (), s')"
    using fresh_propose [OF assms(2) _ assms(8), of s "vd_app (vs0 ! i)" pr "env_clock env"] by blast
  have "store_of L [genesis, b] = block_store_insert L b (store_of L [genesis])" by (simp add: store_of_def)
  then have tip: "tip (store_of L [genesis, b]) = Some b"
    using tip_insert_higher [of "store_of L [genesis]" genesis b L] b(3) by simp
  show ?thesis
  proof (cases "d = block_hash L genesis")
    case False
    obtain log vs where run: "cluster_reaches pr L Ws vs0 log vs" "length vs = length vs0"
      "\<forall>k < length vs0. committed_by k log = [b] \<and> settled L s' b (vs ! k)"
      using cluster_settles [OF assms(1,4-8) made b False assms(3)] by blast
    have "\<forall>k < length vs. committed_by k log = [b] \<and> app_state (vd_app (vs ! k)) = s' \<and>
        tip (app_blocks (vd_app (vs ! k))) = Some b"
      using run(2,3) tip by (simp add: settled_def)
    with run(1,2) made b show ?thesis by (intro exI [of _ b] exI [of _ s'] conjI disjI2 exI [of _ log] exI [of _ vs]) auto
  qed (use made b in auto)
qed


subsection \<open>Witnesses\<close>

text \<open>Two validators with different keys.\<close>

definition sample_cluster :: "(message list \<times> message list, address) validator list" where
  "sample_cluster =
     [validator_new ([], []) sample_app, validator_new ([], []) (sample_app\<lparr>app_signer := repeat_byte 4\<rparr>)]"

lemma sample_cluster_starts: "\<forall>v \<in> set sample_cluster. starts sample_libs fst snd sample_state v"
  using sample_app_ok by (auto simp: sample_cluster_def starts_def fresh_def app_ok_def)

lemma sample_delivers:
  "\<forall>(k :: nat) bytes. \<exists>w. fst (rx_recv (wr_p2p sample_wiring) (wr_rx sample_wiring) w) = Some bytes"
proof (intro allI exI)
  fix bytes :: "u8 list"
  show "fst (rx_recv (wr_p2p sample_wiring) (wr_rx sample_wiring) [bytes]) = Some bytes"
    by (simp add: sample_wiring_def sample_p2p_def rx_recv_def recv_bytes_def)
qed

lemma sample_cluster_run:
  "\<exists>log vs. cluster_reaches Debug sample_libs (\<lambda>_. sample_wiring) sample_cluster log vs \<and> length vs = 2 \<and>
     snd ` set log \<subseteq> {sample_on genesis 5} \<and>
     (\<forall>k < 2. committed_by k log = [sample_on genesis 5] \<and>
        settled sample_libs sample_after (sample_on genesis 5) (vs ! k))"
proof -
  have cluster: "length sample_cluster = 2" "vd_app (sample_cluster ! 0) = sample_app"
    by (simp_all add: sample_cluster_def validator_new_def)
  have room: "lib_accepts sample_libs BLOCKS_OUT_CAPACITY []" by (simp add: BLOCKS_OUT_CAPACITY_def)
  have "encodable (sample_on genesis 5)" by (simp add: encodable_def MAX_TXS_PER_BLOCK_def)
  moreover have "block_parent (sample_on genesis 5) = block_hash sample_libs genesis" "block_height (sample_on genesis 5) = 1"
    by (simp_all add: sample_on_def block_parent_def block_height_def genesis_def)
  ultimately show ?thesis
    using cluster_settles [where i = 0 and env = sample_env and d = sample_d1 and b = "sample_on genesis 5" and pr = Debug
        and s' = sample_after, OF sample_codec_laws _ sample_delivers sample_cluster_starts]
      cluster sample_wiring_laws sample_proposal1 room
    by (simp add: sample_d1_def [symmetric] sample_app1_def apply_sample_on)
qed

theorem cluster_blocks_genuine_witness:
  "\<exists>log vs b. cluster_reaches Debug sample_libs (\<lambda>_. sample_wiring) sample_cluster log vs \<and>
     block_by_digest (vd_app (vs ! 1)) sample_d1 = Some b \<and>
     (b = genesis \<or> compute_tx_root sample_libs (blk_transactions b) = Some (hd_tx_root (blk_header b)))"
proof -
  obtain log vs where run: "cluster_reaches Debug sample_libs (\<lambda>_. sample_wiring) sample_cluster log vs" "length vs = 2"
    "settled sample_libs sample_after (sample_on genesis 5) (vs ! 1)" using sample_cluster_run by force
  then have "vs ! 1 \<in> set vs" by (intro nth_mem) simp
  moreover obtain b where b: "block_by_digest (vd_app (vs ! 1)) sample_d1 = Some b"
    using run(3) by (cases "fmlookup (app_pending (vd_app (vs ! 1))) sample_d1")
      (auto simp: block_by_digest_def settled_def store_of_def block_store_insert_def get_by_hash_def sample_d1_def
        Let_def)
  ultimately show ?thesis
    using cluster_blocks_genuine [OF sample_channel_laws sample_codec_laws _ sample_cluster_starts run(1)]
      sample_wiring_laws run(1) by blast
qed

theorem cluster_agrees_witness:
  "\<exists>log vs. cluster_reaches Debug sample_libs (\<lambda>_. sample_wiring) sample_cluster log vs \<and>
     committed_by 0 log = [sample_on genesis 5] \<and> app_blocks (vd_app (vs ! 0)) = app_blocks (vd_app (vs ! 1))"
proof -
  obtain log vs where run: "cluster_reaches Debug sample_libs (\<lambda>_. sample_wiring) sample_cluster log vs"
    "snd ` set log \<subseteq> {sample_on genesis 5}" and all: "\<forall>k < 2. committed_by k log = [sample_on genesis 5]"
    using sample_cluster_run by blast
  have both: "committed_by 0 log = [sample_on genesis 5]" "committed_by 1 log = [sample_on genesis 5]"
    using all by (simp_all add: numeral_2_eq_2)
  have logged: "snd ` set log = {sample_on genesis 5}"
  proof
    have "set (committed_by 0 log) \<subseteq> snd ` set log" by (auto simp: committed_by_def)
    then show "{sample_on genesis 5} \<subseteq> snd ` set log" unfolding both by simp
  qed (rule run(2))
  have "length sample_cluster = 2" by (simp add: sample_cluster_def)
  then show ?thesis
    using cluster_agrees [OF sample_channel_laws sample_codec_laws _ sample_cluster_starts run(1), of 0 1]
      sample_wiring_laws sample_block_inputs_ok run(1) both by (auto simp: logged)
qed

theorem cluster_can_commit_witness:
  "\<exists>b. block_height b = 1 \<and>
     (block_hash sample_libs b = block_hash sample_libs genesis \<or>
      (\<exists>log vs. cluster_reaches Debug sample_libs (\<lambda>_. sample_wiring) sample_cluster log vs \<and>
         committed_by 0 log = [b] \<and> committed_by 1 log = [b] \<and> length vs = 2))"
proof -
  have cluster: "length sample_cluster = 2" "vd_app (sample_cluster ! 0) = sample_app"
    by (simp_all add: sample_cluster_def validator_new_def)
  have room: "lib_accepts sample_libs BLOCKS_OUT_CAPACITY []" by (simp add: BLOCKS_OUT_CAPACITY_def)
  have "\<forall>a. unat (get_nonce sample_state a) + 1024 < 2 ^ 64"
    by (simp add: sample_state_def get_nonce_def)
  from cluster_can_commit [where pr = Debug and env = sample_env, OF sample_codec_laws sample_ed25519_laws room _ sample_delivers
      sample_cluster_starts _ _ this]
  obtain b where b: "block_height b = 1" "block_hash sample_libs b = block_hash sample_libs genesis \<or>
     (\<exists>log vs. cluster_reaches Debug sample_libs (\<lambda>_. sample_wiring) sample_cluster log vs \<and> length vs = length sample_cluster \<and>
        (\<forall>k < length vs. committed_by k log = [b]))"
    using sample_wiring_laws cluster(1) by fastforce
  then show ?thesis unfolding cluster by (intro exI [of _ b]) fastforce
qed

end
