(* ===== verification/Program.thy ===== *)
theory Program
  imports Validator
begin

text \<open>
  \<open>crates/node/src/main.rs\<close> as a whole: from the command line to a running validator. The demo
  wallet and the generated signing key are arguments; tracing and the runtime's executor are left
  out.
\<close>

section \<open>Operations\<close>

text \<open>The arguments after the program's name; \<open>None\<close> is a panic.\<close>

definition program_main ::
  "profile \<Rightarrow> ('sk, 'vk) libs \<Rightarrow> ('pk, 'set, 'scheme) scheme_lib \<Rightarrow>
     ('key, 'pk, 'addr, 'peers, 'p2p, 'oracle, 'snd, 'rcv, 'handle, 'w) p2p_lib \<Rightarrow>
     (('scheme, 'oracle, 'mailbox, 'reporter) engine_config \<Rightarrow>
        'snd \<times> 'rcv \<Rightarrow> 'snd \<times> 'rcv \<Rightarrow> 'snd \<times> 'rcv \<Rightarrow> 'engine) \<Rightarrow>
     'mailbox \<Rightarrow> 'reporter \<Rightarrow> 'sk \<Rightarrow> 'sk \<Rightarrow> string list \<Rightarrow>
     ('sk, 'snd, 'rcv, 'handle, 'engine) running option" where
  "program_main pr L K P new_engine mailbox reporter wallet signer args =
     (case parse_seed args of
        None \<Rightarrow> None
      | Some seed \<Rightarrow>
          (case devnet_config seed of
             None \<Rightarrow> None
           | Some net \<Rightarrow> node_run pr L K P new_engine mailbox reporter net (demo_node L wallet signer)))"


section \<open>Properties\<close>

lemma program_main_seed:
  "program_main pr L K P new_engine mailbox reporter wallet signer args = Some rn \<longleftrightarrow>
   (\<exists>pre v post seed net. args = pre @ ''--seed'' # v # post \<and> ''--seed'' \<notin> set pre \<and> parse_u64 v = Some seed \<and>
      devnet_config seed = Some net \<and>
      node_run pr L K P new_engine mailbox reporter net (demo_node L wallet signer) = Some rn)"
proof -
  have "program_main pr L K P new_engine mailbox reporter wallet signer args = Some rn \<longleftrightarrow>
    (\<exists>seed net. parse_seed args = Some seed \<and> devnet_config seed = Some net \<and>
       node_run pr L K P new_engine mailbox reporter net (demo_node L wallet signer) = Some rn)"
    by (auto simp: program_main_def split: option.splits)
  then show ?thesis unfolding parse_seed_Some by blast
qed

lemma devnet_config_listen:
  "devnet_config seed = Some net \<Longrightarrow>
   (seed, net_listen net) \<in> set devnet \<and> net = \<lparr>net_seed = seed, net_listen = net_listen net, net_peers = devnet\<rparr>"
  by (auto simp: devnet_config_def listen_address_def devnet_def split: option.splits if_splits)

text \<open>The demo node runs with any of the three seeds of the devnet.\<close>

lemma demo_node_runs:
  assumes "scheme_laws K" and "peer_map_laws P" and "sl_key_of K = (\<lambda>s. pl_public_key P (pl_from_seed P s))"
    and "distinct (map (sl_key_of K) [1, 2, 3])" and "devnet_config seed = Some net"
  shows "\<exists>rn. node_run pr L K P new_engine mailbox reporter net (demo_node L wallet signer) = Some rn \<and>
    tip (app_blocks (rn_app rn)) = Some genesis \<and>
    get_balance (app_state (rn_app rn)) (lib_public L wallet) = 1000000 \<and> app_signer (rn_app rn) = signer"
proof -
  obtain sch app where app: "node_boot pr L K net (demo_node L wallet signer) = Some (sch, app)"
    "get_balance (app_state app) (lib_public L wallet) = 1000000"
    "app_blocks app = store_of L [genesis]" "app_signer app = signer"
    using demo_boot [OF assms(1,4,5), of pr L wallet signer] by (auto split: if_splits)
  then show ?thesis using node_run_boot [OF assms(1-3) app(1), of new_engine mailbox reporter] by auto
qed

text \<open>
  C35: the command line decides whether the program starts and as whom. It starts exactly if the
  argument after the first \<open>--seed\<close> is a number and one of the three seeds of the devnet, if the
  keys of these seeds are distinct; on everything else it panics: no such option, no value, a value that
  is not a number of 64 bits, a seed outside of the roster. A program that starts runs the demo node
  with the seed given by that argument, at the listen address that the devnet lists for this seed and
  with the devnet as its peers; it has the genesis block as its tip, a million in the demo wallet, and
  signs blocks with the generated key.
\<close>

theorem program_starts:
  assumes "scheme_laws K" and "peer_map_laws P" and "sl_key_of K = (\<lambda>s. pl_public_key P (pl_from_seed P s))"
    and "distinct (map (sl_key_of K) [1, 2, 3])"
  shows "case program_main pr L K P new_engine mailbox reporter wallet signer args of
      None \<Rightarrow>
        \<not> (\<exists>pre v post. args = pre @ ''--seed'' # v # post \<and> ''--seed'' \<notin> set pre \<and>
             parse_u64 v \<in> {Some 1, Some 2, Some 3})
    | Some rn \<Rightarrow>
        (\<exists>pre v post seed listen. args = pre @ ''--seed'' # v # post \<and> ''--seed'' \<notin> set pre \<and>
           parse_u64 v = Some seed \<and>
           (seed, listen) \<in> {(1, ''127.0.0.1:4001''), (2, ''127.0.0.1:4002''), (3, ''127.0.0.1:4003'')} \<and>
           node_run pr L K P new_engine mailbox reporter
             \<lparr>net_seed = seed, net_listen = listen, net_peers = devnet\<rparr> (demo_node L wallet signer) = Some rn) \<and>
        tip (app_blocks (rn_app rn)) = Some genesis \<and>
        get_balance (app_state (rn_app rn)) (lib_public L wallet) = 1000000 \<and> app_signer (rn_app rn) = signer"
proof (cases "program_main pr L K P new_engine mailbox reporter wallet signer args")
  case None
  have "parse_u64 v \<notin> {Some 1, Some 2, Some 3}" if "args = pre @ ''--seed'' # v # post" "''--seed'' \<notin> set pre" for pre v post
  proof
    assume "parse_u64 v \<in> {Some 1, Some 2, Some 3}"
    then obtain seed where seed: "parse_u64 v = Some seed" "seed \<in> {1, 2, 3}" by auto
    from seed(2) obtain net where net: "devnet_config seed = Some net"
      unfolding devnet_config_Some [symmetric] ..
    from demo_node_runs [OF assms net, of pr L new_engine mailbox reporter wallet signer]
    obtain rn where "node_run pr L K P new_engine mailbox reporter net (demo_node L wallet signer) = Some rn" by blast
    with that seed(1) net have "program_main pr L K P new_engine mailbox reporter wallet signer args = Some rn"
      by (intro program_main_seed [THEN iffD2] exI conjI)
    with None show False by simp
  qed
  with None show ?thesis by auto
next
  case (Some rn)
  then obtain pre v post seed net where args: "args = pre @ ''--seed'' # v # post" "''--seed'' \<notin> set pre"
      "parse_u64 v = Some seed"
    and net: "devnet_config seed = Some net"
    and run: "node_run pr L K P new_engine mailbox reporter net (demo_node L wallet signer) = Some rn"
    unfolding program_main_seed by blast
  have "(seed, net_listen net) \<in> {(1, ''127.0.0.1:4001''), (2, ''127.0.0.1:4002''), (3, ''127.0.0.1:4003'')}"
    using devnet_config_listen [OF net] by (simp add: devnet_def)
  moreover have "node_run pr L K P new_engine mailbox reporter
      \<lparr>net_seed = seed, net_listen = net_listen net, net_peers = devnet\<rparr> (demo_node L wallet signer) = Some rn"
    using devnet_config_listen [OF net] run by metis
  ultimately have started: "\<exists>pre v post seed listen. args = pre @ ''--seed'' # v # post \<and> ''--seed'' \<notin> set pre \<and>
      parse_u64 v = Some seed \<and>
      (seed, listen) \<in> {(1, ''127.0.0.1:4001''), (2, ''127.0.0.1:4002''), (3, ''127.0.0.1:4003'')} \<and>
      node_run pr L K P new_engine mailbox reporter
        \<lparr>net_seed = seed, net_listen = listen, net_peers = devnet\<rparr> (demo_node L wallet signer) = Some rn"
    using args by blast
  have "tip (app_blocks (rn_app rn)) = Some genesis \<and>
      get_balance (app_state (rn_app rn)) (lib_public L wallet) = 1000000 \<and> app_signer (rn_app rn) = signer"
    using demo_node_runs [OF assms net, of pr L new_engine mailbox reporter wallet signer] run by auto
  with Some started show ?thesis by (simp only: option.case)
qed


subsection \<open>Witness\<close>

text \<open>Only the first \<open>--seed\<close> counts; the program listens where the devnet puts that seed.\<close>

theorem program_starts_witness:
  "(\<exists>rn. program_main Debug sample_libs sample_schemes sample_p2p (\<lambda>cfg _ _ _. cfg) () () (repeat_byte 7) (repeat_byte 3)
       [''-v'', ''--seed'', ''2'', ''--seed'', ''4''] = Some rn \<and>
      get_balance (app_state (rn_app rn)) (repeat_byte 7) = 1000000) \<and>
   program_main Debug sample_libs sample_schemes sample_p2p (\<lambda>cfg _ _ _. cfg) () () (repeat_byte 7) (repeat_byte 3)
       [''--seed'', ''4'', ''--seed'', ''2''] = None"
proof -
  have keys: "distinct (map (sl_key_of sample_schemes) [1, 2, 3])" by (simp add: sample_schemes_def)
  have seeds: "parse_u64 ''2'' = Some 2" "parse_u64 ''4'' = Some 4"
    by (simp_all add: parse_u64_def digit_value_def)
  let ?main = "program_main Debug sample_libs sample_schemes sample_p2p (\<lambda>cfg _ _ _. cfg) () () (repeat_byte 7) (repeat_byte 3)"
  note main = program_starts [OF sample_schemes_laws sample_peer_map_laws sample_keys keys, where pr = Debug and L = sample_libs
      and new_engine = "\<lambda>cfg _ _ _. cfg" and mailbox = "()" and reporter = "()" and wallet = "repeat_byte 7"
      and signer = "repeat_byte 3"]
  have "\<exists>rn. ?main [''-v'', ''--seed'', ''2'', ''--seed'', ''4''] = Some rn \<and>
      get_balance (app_state (rn_app rn)) (repeat_byte 7) = 1000000"
  proof (cases "?main [''-v'', ''--seed'', ''2'', ''--seed'', ''4'']")
    case None
    have "[''-v'', ''--seed'', ''2'', ''--seed'', ''4''] = [''-v''] @ ''--seed'' # ''2'' # [''--seed'', ''4'']" by simp
    moreover have "''--seed'' \<notin> set [''-v'']" by simp
    moreover have "parse_u64 ''2'' \<in> {Some 1, Some 2, Some 3}" by (simp add: seeds)
    ultimately show ?thesis using main [of "[''-v'', ''--seed'', ''2'', ''--seed'', ''4'']"] None
      unfolding None option.case by blast
  next
    case (Some rn)
    then show ?thesis using main [of "[''-v'', ''--seed'', ''2'', ''--seed'', ''4'']"] by simp
  qed
  moreover have "?main [''--seed'', ''4'', ''--seed'', ''2''] = None"
  proof (cases "?main [''--seed'', ''4'', ''--seed'', ''2'']")
    case (Some rn)
    have only: "v = ''4''" if "[''--seed'', ''4'', ''--seed'', ''2''] = pre @ ''--seed'' # v # post" "''--seed'' \<notin> set pre"
      for pre v post using that by (cases pre) auto
    show ?thesis using main [of "[''--seed'', ''4'', ''--seed'', ''2'']"] only seeds(2) unfolding Some option.case by fastforce
  qed
  ultimately show ?thesis by blast
qed

end
