(* ===== verification/Wire_Sizes.thy ===== *)
theory Wire_Sizes
  imports Validator
begin

text \<open>
  How long the messages between validators are: the blocks this code proposes against the largest
  message the network is configured to carry.
\<close>

section \<open>Sizes\<close>

text \<open>
  The documented sizes of the two library formats whose size varies: an option is one byte and its
  content, a vector is its elements and a prefix of at most eight bytes.
\<close>

definition size_laws :: "('sk, 'vk) libs \<Rightarrow> bool" where
  "size_laws L \<longleftrightarrow>
     (\<forall>s. c_size (lib_opt_sig L) s = (case s of None \<Rightarrow> 1 | Some _ \<Rightarrow> 65)) \<and>
     (\<forall>n c ts. sum_list (map (c_size c) ts) \<le> c_size (lib_vec_tx L n c) ts \<and>
        c_size (lib_vec_tx L n c) ts \<le> sum_list (map (c_size c) ts) + 8)"

lemma tx_size:
  assumes "codec_laws L" and "size_laws L"
  shows "tx_encode_size L t = (case tx_signature t of None \<Rightarrow> 81 | Some _ \<Rightarrow> 145)"
  using assms by (simp add: tx_encode_size_def lib_codec_simps size_laws_def split: option.split)

lemma sum_list_bounds:
  fixes f :: "'a \<Rightarrow> nat"
  assumes "\<forall>x \<in> set xs. lo \<le> f x \<and> f x \<le> hi"
  shows "lo * length xs \<le> sum_list (map f xs) \<and> sum_list (map f xs) \<le> hi * length xs"
  using assms by (induction xs) auto

lemma vec_size:
  assumes "size_laws L"
  shows "sum_list (map (c_size c) ts) \<le> c_size (lib_vec_tx L n c) ts \<and>
    c_size (lib_vec_tx L n c) ts \<le> sum_list (map (c_size c) ts) + 8"
  using assms unfolding size_laws_def by blast

lemma block_size_bounds:
  assumes "codec_laws L" and "size_laws L"
  shows "112 + 81 * length (blk_transactions b) \<le> block_encode_size L b \<and>
    block_encode_size L b \<le> 120 + 145 * length (blk_transactions b)"
proof -
  let ?sum = "sum_list (map (tx_encode_size L) (blk_transactions b))"
  have "81 * length (blk_transactions b) \<le> ?sum \<and> ?sum \<le> 145 * length (blk_transactions b)"
    by (rule sum_list_bounds) (simp add: tx_size [OF assms] split: option.split)
  moreover have "?sum \<le> c_size (vec_codec L) (blk_transactions b) \<and>
      c_size (vec_codec L) (blk_transactions b) \<le> ?sum + 8"
    using vec_size [OF assms(2), of "tx_codec L" "blk_transactions b" MAX_TXS_PER_BLOCK]
    by (simp add: vec_codec_def) (simp add: tx_codec_def)
  ultimately show ?thesis by (simp add: block_encode_size_def HEADER_SIZE_def)
qed

lemma block_encode_length:
  assumes "codec_laws L" and "encodable b"
  shows "length (block_encode L b) = block_encode_size L b"
  using block_wire.size_written [of L b] block_encode_written [OF assms(1), of b] assms
  by (simp add: encodable_def)


section \<open>Properties\<close>

text \<open>
  C32: every proposal fits a network message: its encoding has at most 148,600 bytes, of the
  1,048,576 that the network is configured for. The limit of the wire format is wider than that: a
  block with more than 12,944 transactions decodes, but no message can carry it.
\<close>

theorem proposals_fit_messages:
  assumes "codec_laws L" and "size_laws L" and "mempool_ok L (app_mempool app)" and "key_order it"
  shows "(propose pr L it clock parent app = (Ok d, app1) \<longrightarrow>
      (\<exists>b. fmlookup (app_pending app1) d = Some b \<and> length (block_encode L b) \<le> 148600)) \<and>
    148600 < MAX_MSG_SIZE \<and>
    (12944 < length (blk_transactions c) \<and> length (blk_transactions c) \<le> 16384 \<longrightarrow>
       block_decode L (block_encode L c) = Inr c \<and> MAX_MSG_SIZE < length (block_encode L c))"
proof (intro conjI impI)
  assume "propose pr L it clock parent app = (Ok d, app1)"
  from propose_block [OF assms(3,4) this]
  obtain b where b: "fmlookup (app_pending app1) d = Some b" "length (blk_transactions b) \<le> 1024"
    by (auto simp: APP_MAX_TXS_PER_BLOCK_def)
  then have "length (block_encode L b) = block_encode_size L b"
    by (intro block_encode_length [OF assms(1)]) (simp add: encodable_def MAX_TXS_PER_BLOCK_def)
  with b block_size_bounds [OF assms(1,2), of b]
  show "\<exists>b. fmlookup (app_pending app1) d = Some b \<and> length (block_encode L b) \<le> 148600" by auto
next
  show "148600 < MAX_MSG_SIZE" by (simp add: MAX_MSG_SIZE_def)
next
  assume c: "12944 < length (blk_transactions c) \<and> length (blk_transactions c) \<le> 16384"
  then have enc: "encodable c" by (simp add: encodable_def MAX_TXS_PER_BLOCK_def)
  then show "block_decode L (block_encode L c) = Inr c"
    by (intro block_decode_encode [OF assms(1)]) (simp add: encodable_def)
  show "MAX_MSG_SIZE < length (block_encode L c)"
    using block_encode_length [OF assms(1) enc] block_size_bounds [OF assms(1,2), of c] c
    by (simp add: MAX_MSG_SIZE_def)
qed

lemma sample_size_laws: "size_laws sample_libs"
  by (auto simp: size_laws_def sample_opt_sig_def sample_vec_def split: option.split)

theorem proposals_fit_messages_witness:
  "\<exists>b. fmlookup (app_pending sample_app1) sample_d1 = Some b \<and> length (block_encode sample_libs b) < MAX_MSG_SIZE"
proof -
  have "mempool_ok sample_libs (app_mempool sample_app)" by (simp add: sample_pool_ok)
  from proposals_fit_messages [OF sample_codec_laws sample_size_laws this key_order_sorted, of Debug "Some 5"
      "block_hash sample_libs genesis" sample_d1 sample_app1] sample_proposal1 [of Debug]
  obtain b where "fmlookup (app_pending sample_app1) sample_d1 = Some b" "length (block_encode sample_libs b) \<le> 148600"
    by blast
  then show ?thesis by (auto simp: MAX_MSG_SIZE_def intro!: exI [of _ b])
qed

end
