(* ===== verification/Signatures.thy ===== *)
theory Signatures
  imports Signed_Blocks
begin

text \<open>
  What a signature vouches for. A valid signature of a transaction fixes all of it; a valid
  signature of a block fixes its header and nothing else. Both rest on the unforgeability of the
  signature scheme, stated for the keys and messages at hand.
\<close>

section \<open>Unforgeability\<close>

text \<open>
  Among the keys \<open>S\<close> and the messages \<open>M\<close>, a signature is accepted under a public key and for a
  message only if it was made with that key for that message.
\<close>

definition no_forgery :: "('sk, 'vk) libs \<Rightarrow> 'sk set \<Rightarrow> u8 list set \<Rightarrow> bool" where
  "no_forgery L S M \<longleftrightarrow>
     (\<forall>sk \<in> S. \<forall>sk' \<in> S. \<forall>m \<in> M. \<forall>m' \<in> M. \<forall>vk. lib_verifying_key L (lib_public L sk') = Inr vk \<longrightarrow>
        lib_verify L vk m' (lib_sign L sk m) = Inr () \<longrightarrow> lib_public L sk' = lib_public L sk \<and> m' = m)"

lemma no_forgeryD:
  assumes "no_forgery L S M" and "sk \<in> S" and "sk' \<in> S" and "m \<in> M" and "m' \<in> M"
    and "lib_verifying_key L (lib_public L sk') = Inr vk" and "lib_verify L vk m' (lib_sign L sk m) = Inr ()"
  shows "lib_public L sk' = lib_public L sk \<and> m' = m"
  using assms unfolding no_forgery_def by blast

lemma no_forgery_mono: "no_forgery L S M \<Longrightarrow> T \<subseteq> S \<Longrightarrow> N \<subseteq> M \<Longrightarrow> no_forgery L T N"
  unfolding no_forgery_def by blast

lemma pure_payload_inject:
  "pure_payload t = pure_payload u \<longleftrightarrow> t\<lparr>tx_signature := None\<rparr> = u\<lparr>tx_signature := None\<rparr>"
  by (cases t; cases u) (simp add: pure_payload_def append_eq_append_conv)

lemma tx_signed_signature:
  "tx_signature (tx_signed L sk to amount nonce) =
     Some (lib_sign L sk (pure_payload (tx_signed L sk to amount nonce)))"
  by (simp add: tx_signed_def Let_def pure_payload_def)

lemma tx_signed_tampered:
  assumes "no_forgery L S {pure_payload tx, pure_payload t}" and "tx = tx_signed L sk to amount nonce"
    and "sk \<in> S" and "sk' \<in> S" and "tx_from t = lib_public L sk'" and "tx_signature t = tx_signature tx"
    and "verify_signature L t = Inr ()"
  shows "t = tx"
proof -
  obtain vk where "lib_verifying_key L (lib_public L sk') = Inr vk"
    "lib_verify L vk (pure_payload t) (lib_sign L sk (pure_payload tx)) = Inr ()"
    using assms(2,5-7) by (auto simp: verify_signature_ok_iff tx_signed_signature)
  then have "pure_payload t = pure_payload tx"
    using no_forgeryD [OF assms(1,3,4)] by blast
  then have "t\<lparr>tx_signature := None\<rparr> = tx\<lparr>tx_signature := None\<rparr>" by (simp only: pure_payload_inject)
  with assms(6) show ?thesis by (cases t; cases tx) simp
qed

lemma signed_block_tampered:
  assumes "no_forgery L S {signing_bytes L b, signing_bytes L (sb_block c)}"
    and "sk \<in> S" and "sk' \<in> S" and "sb_proposer c = lib_public L sk'"
    and "sb_signature c = lib_sign L sk (signing_bytes L b)" and "verify_block L c = Inr ()"
  shows "block_hash L (sb_block c) = block_hash L b"
proof -
  obtain vk where "lib_verifying_key L (lib_public L sk') = Inr vk"
    "lib_verify L vk (signing_bytes L (sb_block c)) (lib_sign L sk (signing_bytes L b)) = Inr ()"
    using assms(4-6) by (auto simp: verify_block_ok_iff)
  then have "signing_bytes L (sb_block c) = signing_bytes L b"
    using no_forgeryD [OF assms(1-3)] by blast
  then show ?thesis by (simp add: signing_bytes_def digest.expand)
qed


section \<open>Properties\<close>

text \<open>
  A transaction's signature vouches for all of it. If signatures cannot be forged among the
  keys and payloads at hand, a transaction that carries the signature of another one is accepted
  exactly if it is that transaction: no change of the sender to another key holder, of the
  recipient, the amount or the nonce goes unnoticed.
\<close>

theorem tx_signature_binds:
  assumes "ed25519_laws L" and "tx = tx_signed L sk to amount nonce"
    and "no_forgery L {sk, sk'} {pure_payload tx, pure_payload t}"
    and "tx_from t = lib_public L sk'" and "tx_signature t = tx_signature tx"
  shows "verify_signature L t = Inr () \<longleftrightarrow> t = tx"
  using tx_signed_tampered [OF assms(3,2) _ _ assms(4,5)] tx_signed_facts [OF assms(1), of sk to amount nonce] assms(2)
  by auto

text \<open>
  A block's signature vouches for its header and no more. Under the same condition and where
  the hash function does not collide on the headers, a signed block with the signature of another
  one is accepted exactly if it has the same header - whatever its transactions are.
\<close>

theorem block_signature_binds_header:
  assumes "codec_laws L" and "ed25519_laws L" and "sign_block L b sk = Inr sb"
    and "no_forgery L {sk, sk'} {signing_bytes L b, signing_bytes L (sb_block c)}"
    and "no_collision L {header_encode L (blk_header b), header_encode L (blk_header (sb_block c))}"
    and "sb_proposer c = lib_public L sk'" and "sb_signature c = sb_signature sb"
  shows "verify_block L c = Inr () \<longleftrightarrow> blk_header (sb_block c) = blk_header b"
proof
  assume "verify_block L c = Inr ()"
  moreover have "sb_signature c = lib_sign L sk (signing_bytes L b)"
    using assms(3,7) by (simp add: sign_block_Inr)
  ultimately have "block_hash L (sb_block c) = block_hash L b"
    by (intro signed_block_tampered [OF assms(4), of sk sk'] assms(6)) simp_all
  then show "blk_header (sb_block c) = blk_header b"
    by (intro block_hash_eqD [OF assms(1,5)]) simp_all
next
  assume header: "blk_header (sb_block c) = blk_header b"
  then have "signing_bytes L (sb_block c) = signing_bytes L b" by (simp add: signing_bytes_def block_hash_def)
  moreover have "verify_block L sb = Inr ()" "sb_block sb = b"
    using sign_block_verifies [OF assms(2,3)] assms(3) by (auto simp: sign_block_Inr)
  ultimately show "verify_block L c = Inr ()"
    using header assms(7) by (simp add: verify_block_ok_iff sb_proposer_def)
qed


subsection \<open>Witnesses\<close>

lemma sample_verify_iff:
  "lib_verify sample_libs vk m s = Inr () \<longleftrightarrow> s = sample_sign vk m"
  by simp

lemma sample_sign_eqD:
  assumes "sample_sign a m = sample_sign b n"
  shows "a = b \<and> sample_mix m = sample_mix n"
proof -
  have "take 64 (as_slice a @ to_le_bytes (sample_mix m) @ replicate 64 0) =
      take 64 (as_slice b @ to_le_bytes (sample_mix n) @ replicate 64 (0 :: u8))"
    using arg_cong [OF assms, of as_slice] by (simp add: sample_sign_def)
  then show ?thesis by (simp add: take_append append_eq_append_conv)
qed

lemma sample_no_forgery: "inj_on sample_mix M \<Longrightarrow> no_forgery sample_libs S M"
  unfolding no_forgery_def by (auto dest!: sample_sign_eqD dest: inj_onD)

lemma sample_payload_mix:
  "sample_mix (sample_payload 7 9 100 0) \<noteq> sample_mix (sample_payload 7 9 999999 0)"
  by code_simp

theorem tx_signature_binds_witness:
  "verify_signature sample_libs (sample_tx\<lparr>tx_amount := 999999\<rparr>) \<noteq> Inr ()"
proof -
  let ?t = "sample_tx\<lparr>tx_amount := 999999\<rparr>"
  have "pure_payload sample_tx = sample_payload 7 9 100 0" "pure_payload ?t = sample_payload 7 9 999999 0"
    by (simp_all add: pure_payload_def sample_tx_def tx_signed_def sample_payload_def Let_def)
  then have "no_forgery sample_libs {repeat_byte 7, repeat_byte 7} {pure_payload sample_tx, pure_payload ?t}"
    using sample_payload_mix by (intro sample_no_forgery) (auto simp: inj_on_def)
  from tx_signature_binds [OF sample_ed25519_laws sample_tx_def this]
  show ?thesis by (auto simp: sample_tx_def tx_signed_def Let_def)
qed

lemma sample_headers_mix:
  "let a = to_le_bytes 0 @ replicate 64 0 @ to_le_bytes 0 @ replicate 32 3;
       b = to_le_bytes 9999 @ replicate 64 0 @ to_le_bytes 0 @ replicate 32 3
   in sample_mix a \<noteq> sample_mix b \<and>
      sample_mix (as_slice (digest_bytes (sample_sha256 a))) \<noteq> sample_mix (as_slice (digest_bytes (sample_sha256 b)))"
  by code_simp

theorem block_signature_binds_header_witness:
  "case sign_block sample_libs (sample_block (repeat_byte 3)) (repeat_byte 3) of
     Inl _ \<Rightarrow> False
   | Inr sb \<Rightarrow>
       verify_block sample_libs (sb\<lparr>sb_block := (sb_block sb)\<lparr>blk_transactions := [sample_tx]\<rparr>\<rparr>) = Inr () \<and>
       verify_block sample_libs (sb\<lparr>sb_block := (sb_block sb)\<lparr>blk_header :=
         (blk_header (sb_block sb))\<lparr>hd_height := 9999\<rparr>\<rparr>\<rparr>) \<noteq> Inr ()"
proof -
  let ?b = "sample_block (repeat_byte 3)" and ?sk = "repeat_byte 3 :: address"
  let ?sb = "\<lparr>sb_block = ?b, sb_signature = sample_sign ?sk (signing_bytes sample_libs ?b)\<rparr>"
  have signed: "sign_block sample_libs ?b ?sk = Inr ?sb" by (simp add: sign_block_def sample_block_def)
  let ?c = "?sb\<lparr>sb_block := ?b\<lparr>blk_transactions := [sample_tx]\<rparr>\<rparr>"
  let ?d = "?sb\<lparr>sb_block := ?b\<lparr>blk_header := (blk_header ?b)\<lparr>hd_height := 9999\<rparr>\<rparr>\<rparr>"
  let ?ha = "to_le_bytes 0 @ replicate 64 0 @ to_le_bytes 0 @ replicate 32 3"
  let ?hb = "to_le_bytes 9999 @ replicate 64 0 @ to_le_bytes 0 @ replicate 32 3"
  have enc: "header_encode sample_libs (blk_header ?b) = ?ha"
    "header_encode sample_libs ((blk_header ?b)\<lparr>hd_height := 9999\<rparr>) = ?hb"
    by (simp_all add: header_encode_written sample_codec_laws write_header_def sample_codec_defs sample_block_def
        genesis_def zero_hash_def replicate_add [of 32 32, simplified])
  have proposer: "hd_proposer (blk_header ?b) = ?sk" by (simp add: sample_block_def)
  have "signing_bytes sample_libs (sb_block ?c) = signing_bytes sample_libs ?b"
    by (simp add: signing_bytes_def block_hash_def)
  then have "no_forgery sample_libs {?sk, ?sk} {signing_bytes sample_libs ?b, signing_bytes sample_libs (sb_block ?c)}"
    by (intro sample_no_forgery) (simp only: insert_absorb2 inj_on_empty inj_on_insert, simp)
  moreover have "no_collision sample_libs
      {header_encode sample_libs (blk_header ?b), header_encode sample_libs (blk_header (sb_block ?c))}"
    by (simp add: no_collision_def)
  ultimately have "verify_block sample_libs ?c = Inr ()"
    using block_signature_binds_header [OF sample_codec_laws sample_ed25519_laws signed, where sk' = ?sk and c = ?c]
    by (simp add: sb_proposer_def proposer)
  moreover have "verify_block sample_libs ?d \<noteq> Inr ()"
  proof -
    have "no_forgery sample_libs {?sk, ?sk} {signing_bytes sample_libs ?b, signing_bytes sample_libs (sb_block ?d)}"
      using sample_headers_mix
      by (intro sample_no_forgery) (auto simp: Let_def inj_on_def signing_bytes_def block_hash_def enc)
    moreover have "no_collision sample_libs
        {header_encode sample_libs (blk_header ?b), header_encode sample_libs (blk_header (sb_block ?d))}"
      using sample_headers_mix by (intro no_collision_pair) (simp add: Let_def enc)
    ultimately show ?thesis
      using block_signature_binds_header [OF sample_codec_laws sample_ed25519_laws signed, where sk' = ?sk and c = ?d]
      by (simp add: sb_proposer_def proposer) (simp add: sample_block_def genesis_def)
  qed
  ultimately show ?thesis by (simp only: signed sum.case simp_thms) simp
qed

end
