(* ===== verification/Unit_Tests_Types.thy ===== *)
theory Unit_Tests_Types
  imports Commitments Signatures
begin

text \<open>
  The unit tests of \<open>crates/types\<close>, as executable predicates over the model: what a test draws at
  random - its keys - is an argument, so that a theorem covers every run of it. A test holds if
  nothing in it panics and all its assertions are true.
\<close>

section \<open>Support\<close>

text \<open>\<open>is_ok()\<close> on a result without a state, and \<open>unwrap\<close>, \<open>unwrap_err\<close> on one with a state.\<close>

definition sum_ok :: "'e + 'a \<Rightarrow> bool" where
  "sum_ok r \<longleftrightarrow> (case r of Inl _ \<Rightarrow> False | Inr _ \<Rightarrow> True)"

definition unwrap :: "('e, 'a) res \<times> 's \<Rightarrow> ('a \<Rightarrow> 's \<Rightarrow> bool) \<Rightarrow> bool" where
  "unwrap r k = (case r of (Ok a, s) \<Rightarrow> k a s | (Err _, _) \<Rightarrow> False | (Panic, _) \<Rightarrow> False)"

definition unwrap_err :: "('e, 'a) res \<times> 's \<Rightarrow> ('e \<Rightarrow> 's \<Rightarrow> bool) \<Rightarrow> bool" where
  "unwrap_err r k = (case r of (Ok _, _) \<Rightarrow> False | (Err e, s) \<Rightarrow> k e s | (Panic, _) \<Rightarrow> False)"

lemma unwrap_simps [simp]:
  "unwrap (Ok a, s) k = k a s" "\<not> unwrap (Err e, s) k" "\<not> unwrap (Panic, s) k"
  "unwrap_err (Err e, s) l = l e s" "\<not> unwrap_err (Ok a, s) l" "\<not> unwrap_err (Panic, s) l"
  by (simp_all add: unwrap_def unwrap_err_def)

lemma sum_ok_simps [simp]: "sum_ok (Inr a)" "\<not> sum_ok (Inl e)"
  by (simp_all add: sum_ok_def)

lemma sum_ok_unit:
  fixes r :: "'e + unit"
  shows "sum_ok r \<longleftrightarrow> r = Inr ()"
  by (cases r) simp_all

text \<open>\<open>DecodeExt::decode\<close>: the reader must consume all of the bytes.\<close>

definition decode_law :: "('a reader \<Rightarrow> u8 list \<Rightarrow> string + 'a) \<Rightarrow> bool" where
  "decode_law dec \<longleftrightarrow> (\<forall>rd bs x. dec rd bs = Inr x \<longleftrightarrow> rd bs = Inr (x, []))"

lemma decode_lawD: "decode_law dec \<Longrightarrow> rd bs = Inr (x, []) \<Longrightarrow> dec rd bs = Inr x"
  unfolding decode_law_def by blast


section \<open>transaction.rs\<close>

definition tx_sign_then_verify_roundtrip :: "('sk, 'vk) libs \<Rightarrow> 'sk \<Rightarrow> bool" where
  "tx_sign_then_verify_roundtrip L key \<longleftrightarrow>
     (let tx = tx_signed L key (repeat_byte 9) 100 0 in sum_ok (verify_signature L tx))"

definition tampering_after_sign_fails_verify :: "('sk, 'vk) libs \<Rightarrow> 'sk \<Rightarrow> bool" where
  "tampering_after_sign_fails_verify L key \<longleftrightarrow>
     (let tx = (tx_signed L key (repeat_byte 9) 100 0)\<lparr>tx_amount := 999999\<rparr>
      in \<not> sum_ok (verify_signature L tx))"

definition signature_from_wrong_key_fails :: "('sk, 'vk) libs \<Rightarrow> 'sk \<Rightarrow> 'sk \<Rightarrow> bool" where
  "signature_from_wrong_key_fails L victim attacker \<longleftrightarrow>
     (let tx = (tx_signed L attacker (repeat_byte 9) 100 0)\<lparr>tx_from := lib_public L victim\<rparr>
      in \<not> sum_ok (verify_signature L tx))"

definition garbage_signature_bytes_fail_verify :: "('sk, 'vk) libs \<Rightarrow> 'sk \<Rightarrow> bool" where
  "garbage_signature_bytes_fail_verify L key \<longleftrightarrow>
     (let tx = (tx_signed L key (repeat_byte 9) 100 0)\<lparr>tx_signature := Some (repeat_byte 0xff)\<rparr>
      in \<not> sum_ok (verify_signature L tx))"

definition tx_unsigned_is_rejected :: "('sk, 'vk) libs \<Rightarrow> 'sk \<Rightarrow> bool" where
  "tx_unsigned_is_rejected L key \<longleftrightarrow>
     (let tx = \<lparr>tx_from = lib_public L key, tx_to = repeat_byte 9, tx_amount = 1, tx_nonce = 0,
                tx_signature = None\<rparr>
      in case verify_signature L tx of
           Inl e \<Rightarrow> (case e of InvalidSignature _ \<Rightarrow> True | _ \<Rightarrow> False)
         | Inr _ \<Rightarrow> False)"

definition pure_payload_excludes_signature_field :: "('sk, 'vk) libs \<Rightarrow> 'sk \<Rightarrow> bool" where
  "pure_payload_excludes_signature_field L key \<longleftrightarrow>
     (let tx1 = tx_signed L key (repeat_byte 9) 100 0;
          tx2 = tx1\<lparr>tx_signature := Some (repeat_byte 0xff)\<rparr>
      in pure_payload tx1 = pure_payload tx2)"

definition tx_codec_test ::
  "(transaction reader \<Rightarrow> u8 list \<Rightarrow> string + transaction) \<Rightarrow> ('sk, 'vk) libs \<Rightarrow> 'sk \<Rightarrow> bool" where
  "tx_codec_test dec L key \<longleftrightarrow>
     (let tx = tx_signed L key (repeat_byte 9) 100 0; encoded = tx_encode L tx
      in case dec (read_tx L) encoded of
           Inl _ \<Rightarrow> False
         | Inr decoded \<Rightarrow>
             tx_from tx = tx_from decoded \<and> tx_to tx = tx_to decoded \<and>
             tx_amount tx = tx_amount decoded \<and> tx_nonce tx = tx_nonce decoded \<and>
             tx_signature tx = tx_signature decoded)"

text \<open>
  \<open>ed25519_dalek\<close> refuses a signature whose scalar is not reduced, such as one of 64 bytes
  \<open>0xff\<close>.
\<close>

definition garbage_refused :: "('sk, 'vk) libs \<Rightarrow> bool" where
  "garbage_refused L \<longleftrightarrow> (\<forall>vk m. lib_verify L vk m (repeat_byte 0xff) \<noteq> Inr ())"

text \<open>The payloads that occur in these tests.\<close>

definition test_payloads :: "('sk, 'vk) libs \<Rightarrow> 'sk \<Rightarrow> 'sk \<Rightarrow> u8 list set" where
  "test_payloads L key other =
     (let tx = tx_signed L key (repeat_byte 9) 100 0
      in {pure_payload tx, pure_payload (tx\<lparr>tx_amount := 999999\<rparr>),
          pure_payload (tx\<lparr>tx_from := lib_public L other\<rparr>)})"

lemma tampering_test:
  assumes "no_forgery L {key, other} (test_payloads L key other)"
  shows "tampering_after_sign_fails_verify L key"
proof -
  let ?tx = "tx_signed L key (repeat_byte 9) 100 0" and ?t = "(tx_signed L key (repeat_byte 9) 100 0)\<lparr>tx_amount := 999999\<rparr>"
  have "no_forgery L {key, other} {pure_payload ?tx, pure_payload ?t}"
    by (rule no_forgery_mono [OF assms]) (auto simp: test_payloads_def Let_def)
  moreover have "?t \<noteq> ?tx" by (simp add: tx_signed_def Let_def)
  ultimately have "verify_signature L ?t \<noteq> Inr ()"
    using tx_signed_tampered [of L "{key, other}" ?tx ?t key "repeat_byte 9" 100 0 key]
    by (auto simp: tx_signed_def Let_def)
  then show ?thesis by (simp add: tampering_after_sign_fails_verify_def sum_ok_unit)
qed

lemma wrong_key_test:
  assumes "no_forgery L {key, other} (test_payloads L key other)" and "lib_public L other \<noteq> lib_public L key"
  shows "signature_from_wrong_key_fails L other key"
proof -
  let ?tx = "tx_signed L key (repeat_byte 9) 100 0"
    and ?t = "(tx_signed L key (repeat_byte 9) 100 0)\<lparr>tx_from := lib_public L other\<rparr>"
  have "no_forgery L {key, other} {pure_payload ?tx, pure_payload ?t}"
    by (rule no_forgery_mono [OF assms(1)]) (auto simp: test_payloads_def Let_def)
  moreover have "?t \<noteq> ?tx" using assms(2) by (simp add: tx_signed_def Let_def)
  ultimately have "verify_signature L ?t \<noteq> Inr ()"
    using tx_signed_tampered [of L "{key, other}" ?tx ?t key "repeat_byte 9" 100 0 other] by auto
  then show ?thesis by (simp add: signature_from_wrong_key_fails_def sum_ok_unit)
qed

lemma tx_plain_tests:
  assumes "ed25519_laws L" and "codec_laws L" and "garbage_refused L" and "decode_law dec"
  shows "tx_sign_then_verify_roundtrip L key" and "garbage_signature_bytes_fail_verify L key"
    and "tx_unsigned_is_rejected L key" and "pure_payload_excludes_signature_field L key"
    and "tx_codec_test dec L key"
proof -
  show "tx_sign_then_verify_roundtrip L key"
    using tx_signed_facts [OF assms(1)] by (simp add: tx_sign_then_verify_roundtrip_def)
  show "garbage_signature_bytes_fail_verify L key"
    using assms(3)
    by (auto simp: garbage_signature_bytes_fail_verify_def sum_ok_unit verify_signature_ok_iff garbage_refused_def)
  show "tx_unsigned_is_rejected L key"
    by (simp add: tx_unsigned_is_rejected_def verify_signature_def)
  show "pure_payload_excludes_signature_field L key"
    by (simp add: pure_payload_excludes_signature_field_def pure_payload_def)
  have "dec (read_tx L) (tx_encode L t) = Inr t" for t
    by (rule decode_lawD [OF assms(4)]) (simp add: tx_encode_written [OF assms(2)] tx_wire.read_exact [OF assms(2)])
  then show "tx_codec_test dec L key" by (simp add: tx_codec_test_def)
qed


section \<open>block.rs\<close>

definition test_tx :: "u64 \<Rightarrow> u64 \<Rightarrow> transaction" where
  "test_tx amount nonce =
     \<lparr>tx_from = repeat_byte 1, tx_to = repeat_byte 2, tx_amount = amount, tx_nonce = nonce,
      tx_signature = None\<rparr>"

definition empty_root_is_zero :: "('sk, 'vk) libs \<Rightarrow> bool" where
  "empty_root_is_zero L \<longleftrightarrow> compute_tx_root L [] = Some zero_hash"

definition single_tx_root_is_tx_hash :: "('sk, 'vk) libs \<Rightarrow> bool" where
  "single_tx_root_is_tx_hash L \<longleftrightarrow>
     (let t = test_tx 10 0; h = tx_hash L t in compute_tx_root L [t] = Some h)"

definition modifying_one_tx_changes_root :: "('sk, 'vk) libs \<Rightarrow> bool" where
  "modifying_one_tx_changes_root L \<longleftrightarrow>
     (let a = [test_tx 10 0, test_tx 20 1, test_tx 30 2]; b = a[1 := (a ! 1)\<lparr>tx_amount := 999\<rparr>]
      in compute_tx_root L a \<noteq> compute_tx_root L b)"

definition reordering_changes_root :: "('sk, 'vk) libs \<Rightarrow> bool" where
  "reordering_changes_root L \<longleftrightarrow>
     (let a = test_tx 10 0; b = test_tx 20 1
      in compute_tx_root L [a, b] \<noteq> compute_tx_root L [b, a])"

definition block_hash_reacts_to_tx_change :: "('sk, 'vk) libs \<Rightarrow> bool" where
  "block_hash_reacts_to_tx_change L \<longleftrightarrow>
     (case (block_new L 1 zero_hash 0 (repeat_byte 0) [test_tx 10 0],
            block_new L 1 zero_hash 0 (repeat_byte 0) [test_tx 99 0]) of
        (Some b1, Some b2) \<Rightarrow> block_hash L b1 \<noteq> block_hash L b2
      | _ \<Rightarrow> False)"

definition odd_layer_handled :: "('sk, 'vk) libs \<Rightarrow> bool" where
  "odd_layer_handled L \<longleftrightarrow> compute_tx_root L [test_tx 1 0, test_tx 2 1, test_tx 3 2] \<noteq> None"

definition block_codec_test :: "('sk, 'vk) libs \<Rightarrow> bool" where
  "block_codec_test L \<longleftrightarrow>
     (case block_new L 7 zero_hash 42 (repeat_byte 3) [test_tx 10 0, test_tx 20 1] of
        None \<Rightarrow> False
      | Some b \<Rightarrow>
          (case block_decode L (block_encode L b) of
             Inl _ \<Rightarrow> False
           | Inr decoded \<Rightarrow>
               blk_header b = blk_header decoded \<and>
               length (blk_transactions b) = length (blk_transactions decoded) \<and>
               block_hash L b = block_hash L decoded))"

definition header_is_fixed_112_bytes :: bool where
  "header_is_fixed_112_bytes \<longleftrightarrow> HEADER_SIZE = 112"

text \<open>What is hashed in the tests that tell roots and hashes apart.\<close>

definition test_hash_inputs :: "('sk, 'vk) libs \<Rightarrow> u8 list set" where
  "test_hash_inputs L =
     root_inputs L [test_tx 10 0, test_tx 20 1, test_tx 30 2] \<union>
     root_inputs L [test_tx 10 0, test_tx 999 1, test_tx 30 2] \<union>
     root_inputs L [test_tx 10 0, test_tx 20 1] \<union> root_inputs L [test_tx 20 1, test_tx 10 0] \<union>
     {tx_encode L (test_tx 99 0)} \<union>
     (\<lambda>t. header_encode L \<lparr>hd_height = 1, hd_parent_hash = zero_hash, hd_tx_root = tx_hash L t,
         hd_timestamp = 0, hd_proposer = repeat_byte 0\<rparr>) ` {test_tx 10 0, test_tx 99 0}"

lemma test_tx_simps [simp]:
  "test_tx a n = test_tx b k \<longleftrightarrow> a = b \<and> n = k" "(test_tx a n)\<lparr>tx_amount := b\<rparr> = test_tx b n"
  by (simp_all add: test_tx_def)

lemma root_tests:
  assumes "codec_laws L" and "no_collision L (test_hash_inputs L)"
  shows "modifying_one_tx_changes_root L" and "reordering_changes_root L"
proof -
  have differ: "compute_tx_root L txs \<noteq> compute_tx_root L us"
    if "root_inputs L txs \<union> root_inputs L us \<subseteq> test_hash_inputs L" "length txs = length us" "txs \<noteq> us" for txs us
    using tx_root_binds [OF assms(1) no_collision_mono [OF assms(2) that(1)] that(2)] that(3) by blast
  have "compute_tx_root L [test_tx 10 0, test_tx 20 1, test_tx 30 2] \<noteq>
      compute_tx_root L [test_tx 10 0, test_tx 999 1, test_tx 30 2]"
    by (rule differ) (auto simp: test_hash_inputs_def)
  then show "modifying_one_tx_changes_root L" by (simp add: modifying_one_tx_changes_root_def)
  have "compute_tx_root L [test_tx 10 0, test_tx 20 1] \<noteq> compute_tx_root L [test_tx 20 1, test_tx 10 0]"
    by (rule differ) (auto simp: test_hash_inputs_def)
  then show "reordering_changes_root L" by (simp add: reordering_changes_root_def)
qed

lemma hash_test:
  assumes "codec_laws L" and "no_collision L (test_hash_inputs L)"
  shows "block_hash_reacts_to_tx_change L"
proof -
  obtain b c where bc: "block_new L 1 zero_hash 0 (repeat_byte 0) [test_tx 10 0] = Some b"
    "block_new L 1 zero_hash 0 (repeat_byte 0) [test_tx 99 0] = Some c" by (simp add: block_new_eq)
  have "no_collision L ({header_encode L (blk_header b), header_encode L (blk_header c)} \<union>
      root_inputs L [test_tx 10 0] \<union> root_inputs L [test_tx 99 0])"
    using bc by (intro no_collision_mono [OF assms(2)])
      (auto simp: test_hash_inputs_def block_new_eq tx_root_single root_inputs_single, simp add: root_inputs_def)
  from block_hash_binds [OF assms(1) bc this] bc show ?thesis
    by (auto simp: block_hash_reacts_to_tx_change_def block_new_eq test_tx_def)
qed

lemma block_plain_tests:
  assumes "codec_laws L"
  shows "empty_root_is_zero L" and "single_tx_root_is_tx_hash L" and "odd_layer_handled L"
    and "block_codec_test L" and "header_is_fixed_112_bytes"
proof -
  show "empty_root_is_zero L" by (simp add: empty_root_is_zero_def compute_tx_root_def)
  show "single_tx_root_is_tx_hash L" by (simp add: single_tx_root_is_tx_hash_def compute_tx_root_def)
  show "odd_layer_handled L" by (simp add: odd_layer_handled_def compute_tx_root_eq)
  show "block_codec_test L"
    using block_decode_encode [OF assms]
    by (simp add: block_codec_test_def block_new_eq MAX_TXS_PER_BLOCK_def)
  show "header_is_fixed_112_bytes" by (simp add: header_is_fixed_112_bytes_def HEADER_SIZE_def)
qed


section \<open>signed_block.rs\<close>

definition block_for :: "('sk, 'vk) libs \<Rightarrow> 'sk \<Rightarrow> block option" where
  "block_for L signer = block_new L 1 zero_hash 0 (lib_public L signer) []"

text \<open>\<open>SignedBlock::sign(block_for(&key), &key).unwrap()\<close>, then the rest of the test.\<close>

definition with_signed :: "('sk, 'vk) libs \<Rightarrow> 'sk \<Rightarrow> (signed_block \<Rightarrow> bool) \<Rightarrow> bool" where
  "with_signed L key k \<longleftrightarrow>
     (case block_for L key of
        None \<Rightarrow> False
      | Some b \<Rightarrow> (case sign_block L b key of Inl _ \<Rightarrow> False | Inr sb \<Rightarrow> k sb))"

definition sb_sign_then_verify_roundtrip :: "('sk, 'vk) libs \<Rightarrow> 'sk \<Rightarrow> bool" where
  "sb_sign_then_verify_roundtrip L key \<longleftrightarrow> with_signed L key (\<lambda>sb. sum_ok (verify_block L sb))"

definition proposer_mismatch_refuses_to_sign :: "('sk, 'vk) libs \<Rightarrow> 'sk \<Rightarrow> bool" where
  "proposer_mismatch_refuses_to_sign L key \<longleftrightarrow>
     (case block_for L key of
        None \<Rightarrow> False
      | Some b \<Rightarrow>
          (case sign_block L (b\<lparr>blk_header := (blk_header b)\<lparr>hd_proposer := repeat_byte 0xff\<rparr>\<rparr>) key of
             Inl e \<Rightarrow> (case e of InvalidBlock _ \<Rightarrow> True | _ \<Rightarrow> False)
           | Inr _ \<Rightarrow> False))"

definition with_header :: "(block_header \<Rightarrow> block_header) \<Rightarrow> signed_block \<Rightarrow> signed_block" where
  "with_header f sb = sb\<lparr>sb_block := (sb_block sb)\<lparr>blk_header := f (blk_header (sb_block sb))\<rparr>\<rparr>"

definition tampered_block_fails_verify :: "('sk, 'vk) libs \<Rightarrow> 'sk \<Rightarrow> bool" where
  "tampered_block_fails_verify L key \<longleftrightarrow>
     with_signed L key (\<lambda>sb. \<not> sum_ok (verify_block L (with_header (\<lambda>h. h\<lparr>hd_height := 9999\<rparr>) sb)))"

definition wrong_proposer_fails_verify :: "('sk, 'vk) libs \<Rightarrow> 'sk \<Rightarrow> 'sk \<Rightarrow> bool" where
  "wrong_proposer_fails_verify L alice bob \<longleftrightarrow>
     with_signed L alice
       (\<lambda>sb. \<not> sum_ok (verify_block L (with_header (\<lambda>h. h\<lparr>hd_proposer := lib_public L bob\<rparr>) sb)))"

definition garbage_signature_fails_verify :: "('sk, 'vk) libs \<Rightarrow> 'sk \<Rightarrow> bool" where
  "garbage_signature_fails_verify L key \<longleftrightarrow>
     with_signed L key (\<lambda>sb. \<not> sum_ok (verify_block L (sb\<lparr>sb_signature := repeat_byte 0xff\<rparr>)))"

definition sb_codec_test ::
  "(signed_block reader \<Rightarrow> u8 list \<Rightarrow> string + signed_block) \<Rightarrow> ('sk, 'vk) libs \<Rightarrow> 'sk \<Rightarrow> bool" where
  "sb_codec_test dec L key \<longleftrightarrow>
     with_signed L key (\<lambda>sb.
       let encoded = lib_encode L (signed_block_encode_size L sb) (write_signed_block L sb)
       in case dec (read_signed_block L) encoded of
            Inl _ \<Rightarrow> False
          | Inr decoded \<Rightarrow>
              block_hash L (sb_block sb) = block_hash L (sb_block decoded) \<and>
              sb_signature sb = sb_signature decoded \<and> sum_ok (verify_block L decoded))"

text \<open>The block these tests sign, its signature, and the headers and digests that occur in them.\<close>

definition test_block :: "('sk, 'vk) libs \<Rightarrow> 'sk \<Rightarrow> block" where
  "test_block L key =
     \<lparr>blk_header = \<lparr>hd_height = 1, hd_parent_hash = zero_hash, hd_tx_root = zero_hash,
                    hd_timestamp = 0, hd_proposer = lib_public L key\<rparr>,
      blk_transactions = []\<rparr>"

definition test_signed :: "('sk, 'vk) libs \<Rightarrow> 'sk \<Rightarrow> signed_block" where
  "test_signed L key =
     \<lparr>sb_block = test_block L key, sb_signature = lib_sign L key (signing_bytes L (test_block L key))\<rparr>"

definition test_signed_blocks :: "('sk, 'vk) libs \<Rightarrow> 'sk \<Rightarrow> 'sk \<Rightarrow> block set" where
  "test_signed_blocks L key other =
     sb_block ` {test_signed L key, with_header (\<lambda>h. h\<lparr>hd_height := 9999\<rparr>) (test_signed L key),
       with_header (\<lambda>h. h\<lparr>hd_proposer := lib_public L other\<rparr>) (test_signed L key)}"

lemma block_for_eq: "block_for L key = Some (test_block L key)"
  by (simp add: block_for_def test_block_def block_new_eq tx_root_def)

lemma with_signed_eq: "with_signed L key k = k (test_signed L key)"
  by (simp add: with_signed_def block_for_eq sign_block_def test_signed_def test_block_def)

lemma altered_header_refused:
  assumes "codec_laws L" and "no_forgery L {key, other} (signing_bytes L ` test_signed_blocks L key other)"
    and "no_collision L ((\<lambda>b. header_encode L (blk_header b)) ` test_signed_blocks L key other)"
    and "sb = with_header f (test_signed L key)" and "sb_block sb \<in> test_signed_blocks L key other"
    and "sb_proposer sb = lib_public L sk" and "sk \<in> {key, other}"
    and "f (blk_header (test_block L key)) \<noteq> blk_header (test_block L key)"
  shows "verify_block L sb \<noteq> Inr ()"
proof
  assume ok: "verify_block L sb = Inr ()"
  have member: "test_block L key \<in> test_signed_blocks L key other"
    by (simp add: test_signed_blocks_def test_signed_def)
  have "no_forgery L {key, other} {signing_bytes L (test_block L key), signing_bytes L (sb_block sb)}"
    using member assms(5) by (intro no_forgery_mono [OF assms(2)]) auto
  then have "block_hash L (sb_block sb) = block_hash L (test_block L key)"
    by (rule signed_block_tampered [OF _ _ assms(7,6) _ ok, where sk = key])
      (simp_all add: assms(4) with_header_def test_signed_def)
  then have "blk_header (sb_block sb) = blk_header (test_block L key)"
    using member assms(5) by (intro block_hash_eqD [OF assms(1,3)]) auto
  with assms(4,8) show False by (simp add: with_header_def test_signed_def)
qed

lemma sb_tampering_tests:
  assumes "codec_laws L" and "no_forgery L {key, other} (signing_bytes L ` test_signed_blocks L key other)"
    and "no_collision L ((\<lambda>b. header_encode L (blk_header b)) ` test_signed_blocks L key other)"
    and "lib_public L other \<noteq> lib_public L key"
  shows "tampered_block_fails_verify L key" and "wrong_proposer_fails_verify L key other"
proof -
  have "verify_block L (with_header (\<lambda>h. h\<lparr>hd_height := 9999\<rparr>) (test_signed L key)) \<noteq> Inr ()"
    by (rule altered_header_refused [OF assms(1-3) refl, where sk = key])
      (simp_all add: test_signed_blocks_def with_header_def test_signed_def test_block_def sb_proposer_def)
  then show "tampered_block_fails_verify L key"
    by (simp add: tampered_block_fails_verify_def with_signed_eq sum_ok_unit)
  have "verify_block L (with_header (\<lambda>h. h\<lparr>hd_proposer := lib_public L other\<rparr>) (test_signed L key)) \<noteq> Inr ()"
    by (rule altered_header_refused [OF assms(1-3) refl, where sk = other])
      (use assms(4) in \<open>simp_all add: test_signed_blocks_def with_header_def test_signed_def test_block_def sb_proposer_def\<close>)
  then show "wrong_proposer_fails_verify L key other"
    by (simp add: wrong_proposer_fails_verify_def with_signed_eq sum_ok_unit)
qed

lemma sb_plain_tests:
  assumes "ed25519_laws L" and "codec_laws L" and "garbage_refused L" and "decode_law dec"
    and "lib_public L key \<noteq> repeat_byte 0xff"
  shows "sb_sign_then_verify_roundtrip L key" and "proposer_mismatch_refuses_to_sign L key"
    and "garbage_signature_fails_verify L key" and "sb_codec_test dec L key"
proof -
  have signed: "sign_block L (test_block L key) key = Inr (test_signed L key)"
    by (simp add: sign_block_def test_signed_def test_block_def)
  have ok: "verify_block L (test_signed L key) = Inr ()" by (rule sign_block_verifies [OF assms(1) signed])
  then show "sb_sign_then_verify_roundtrip L key" by (simp add: sb_sign_then_verify_roundtrip_def with_signed_eq)
  show "proposer_mismatch_refuses_to_sign L key"
    using assms(5) [symmetric] by (simp add: proposer_mismatch_refuses_to_sign_def block_for_eq sign_block_def)
  show "garbage_signature_fails_verify L key"
    using assms(3)
    by (auto simp: garbage_signature_fails_verify_def with_signed_eq sum_ok_unit verify_block_ok_iff garbage_refused_def)
  have fits: "codec_laws L \<and> length (blk_transactions (sb_block (test_signed L key))) \<le> MAX_TXS_PER_BLOCK"
    using assms(2) by (simp add: test_signed_def test_block_def)
  have "lib_encode L (signed_block_encode_size L (test_signed L key)) (write_signed_block L (test_signed L key)) =
      write_signed_block L (test_signed L key)"
    by (simp only: signed_block_wire.size_written [OF fits] codec_lawsD(7) [OF assms(2)])
  moreover have "dec (read_signed_block L) (write_signed_block L (test_signed L key)) = Inr (test_signed L key)"
    by (rule decode_lawD [OF assms(4)], rule signed_block_wire.read_exact [OF fits])
  ultimately show "sb_codec_test dec L key" using ok by (simp add: sb_codec_test_def with_signed_eq Let_def)
qed


section \<open>Properties\<close>

text \<open>
  C37: the unit tests of \<open>crates/types\<close> pass, whatever keys they draw: for any two keys whose
  addresses differ from each other and from 32 bytes \<open>0xff\<close>, if the libraries do what they are
  documented to do and neither the hash function collides nor a signature is forged on the few
  inputs that occur in the tests.
\<close>

theorem types_tests_pass:
  assumes "ed25519_laws L" and "codec_laws L" and "garbage_refused L" and "decode_law dec" and "decode_law dec_sb"
    and "lib_public L other \<noteq> lib_public L key" and "lib_public L key \<noteq> repeat_byte 0xff"
    and "no_forgery L {key, other} (test_payloads L key other \<union> signing_bytes L ` test_signed_blocks L key other)"
    and "no_collision L (test_hash_inputs L)"
    and "no_collision L ((\<lambda>b. header_encode L (blk_header b)) ` test_signed_blocks L key other)"
  shows "tx_sign_then_verify_roundtrip L key \<and> tampering_after_sign_fails_verify L key \<and>
    signature_from_wrong_key_fails L other key \<and> garbage_signature_bytes_fail_verify L key \<and>
    tx_unsigned_is_rejected L key \<and> pure_payload_excludes_signature_field L key \<and> tx_codec_test dec L key \<and>
    empty_root_is_zero L \<and> single_tx_root_is_tx_hash L \<and> modifying_one_tx_changes_root L \<and>
    reordering_changes_root L \<and> block_hash_reacts_to_tx_change L \<and> odd_layer_handled L \<and>
    block_codec_test L \<and> header_is_fixed_112_bytes \<and>
    sb_sign_then_verify_roundtrip L key \<and> proposer_mismatch_refuses_to_sign L key \<and>
    tampered_block_fails_verify L key \<and> wrong_proposer_fails_verify L key other \<and>
    garbage_signature_fails_verify L key \<and> sb_codec_test dec_sb L key"
proof -
  have payloads: "no_forgery L {key, other} (test_payloads L key other)"
    by (rule no_forgery_mono [OF assms(8)]) auto
  have blocks: "no_forgery L {key, other} (signing_bytes L ` test_signed_blocks L key other)"
    by (rule no_forgery_mono [OF assms(8)]) auto
  show ?thesis
    by (intro conjI tx_plain_tests [OF assms(1-4)] tampering_test [OF payloads] wrong_key_test [OF payloads assms(6)]
        root_tests [OF assms(2,9)] hash_test [OF assms(2,9)] block_plain_tests [OF assms(2)]
        sb_tampering_tests [OF assms(2) blocks assms(10,6)] sb_plain_tests [OF assms(1-3,5,7)])
qed


subsection \<open>Witnesses\<close>

definition sample_dec :: "'a reader \<Rightarrow> u8 list \<Rightarrow> string + 'a" where
  "sample_dec rd bs = (case rd bs of Inl e \<Rightarrow> Inl e | Inr (x, r) \<Rightarrow> if r = [] then Inr x else Inl ''extra data'')"

lemma sample_decode_law: "decode_law sample_dec"
  by (auto simp: decode_law_def sample_dec_def split: sum.splits)

lemma sample_garbage_refused: "garbage_refused sample_libs"
proof -
  have "sample_sign vk m \<noteq> repeat_byte 0xff" for vk m
  proof
    assume eq: "sample_sign vk m = repeat_byte 0xff"
    have "take 64 (as_slice vk @ to_le_bytes (sample_mix m) @ replicate 64 0) = replicate 64 (0xff :: u8)"
      using arg_cong [OF eq, of as_slice] by (simp add: sample_sign_def)
    then have "(take 64 (as_slice vk @ to_le_bytes (sample_mix m) @ replicate 64 0)) ! 40 = (0xff :: u8)" by simp
    then show False by (simp add: nth_append)
  qed
  then show ?thesis by (simp add: garbage_refused_def) metis
qed


definition unsigned_tx_bytes :: "u64 \<Rightarrow> u64 \<Rightarrow> u8 list" where
  "unsigned_tx_bytes a n = replicate 32 1 @ replicate 32 2 @ to_le_bytes a @ to_le_bytes n @ [0]"

lemma tx_encode_test_tx: "tx_encode sample_libs (test_tx a n) = unsigned_tx_bytes a n"
  by (simp add: tx_encode_written sample_codec_laws write_tx_def test_tx_def sample_codec_defs unsigned_tx_bytes_def)

lemma tx_hash_test_tx: "tx_hash sample_libs (test_tx a n) = sample_sha256 (unsigned_tx_bytes a n)"
  by (simp add: tx_hash_def tx_encode_test_tx)

definition sample_test_inputs :: "u8 list list" where
  "sample_test_inputs =
     (let e1 = unsigned_tx_bytes 10 0; e2 = unsigned_tx_bytes 20 1; e3 = unsigned_tx_bytes 30 2;
          e2' = unsigned_tx_bytes 999 1; e9 = unsigned_tx_bytes 99 0;
          h1 = sample_sha256 e1; h2 = sample_sha256 e2; h3 = sample_sha256 e3;
          n12 = node_input h1 h2; n12' = node_input h1 (sample_sha256 e2'); n33 = node_input h3 h3
      in [e1, e2, e3, e2', e9, n12, n12', n33, node_input h2 h1,
          node_input (sample_sha256 n12) (sample_sha256 n33), node_input (sample_sha256 n12') (sample_sha256 n33),
          sample_header_bytes h1, sample_header_bytes (sample_sha256 e9)])"

lemma sample_test_inputs_distinct: "distinct (map sample_mix sample_test_inputs)"
  by code_simp

lemma header_encode_sample_header:
  "header_encode sample_libs \<lparr>hd_height = 1, hd_parent_hash = zero_hash, hd_tx_root = d,
     hd_timestamp = 0, hd_proposer = repeat_byte 0\<rparr> = sample_header_bytes d"
  by (simp add: header_encode_written sample_codec_laws write_header_def sample_codec_defs
      sample_header_bytes_def zero_hash_def)

lemma sample_test_inputs_cover: "test_hash_inputs sample_libs \<subseteq> set sample_test_inputs"
  by (simp add: test_hash_inputs_def root_inputs_def merkle_inputs.simps tx_hash_test_tx node_hash_sample
      sample_test_inputs_def Let_def tx_encode_test_tx header_encode_sample_header)

definition test_header_bytes :: "u64 \<Rightarrow> u8 \<Rightarrow> u8 list" where
  "test_header_bytes height proposer =
     to_le_bytes height @ replicate 64 0 @ to_le_bytes 0 @ replicate 32 proposer"

lemma sample_test_headers:
  assumes "b \<in> test_signed_blocks sample_libs (repeat_byte 7) (repeat_byte 8)"
  shows "header_encode sample_libs (blk_header b) \<in>
    set [test_header_bytes 1 7, test_header_bytes 9999 7, test_header_bytes 1 8]"
  using assms
  by (auto simp: test_signed_blocks_def with_header_def test_signed_def test_block_def header_encode_written
      sample_codec_laws write_header_def sample_codec_defs zero_hash_def test_header_bytes_def
      replicate_add [of 32 32, simplified])

lemma sample_header_bytes_distinct:
  "distinct (map sample_mix [test_header_bytes 1 7, test_header_bytes 9999 7, test_header_bytes 1 8])"
  by code_simp

lemma sample_messages_distinct:
  "distinct (map sample_mix
     ([sample_payload 7 9 100 0, sample_payload 7 9 999999 0, sample_payload 8 9 100 0] @
      map (\<lambda>h. as_slice (digest_bytes (sample_sha256 h)))
        [test_header_bytes 1 7, test_header_bytes 9999 7, test_header_bytes 1 8]))"
  by code_simp

lemma sample_messages_cover:
  "test_payloads sample_libs (repeat_byte 7) (repeat_byte 8) \<union>
   signing_bytes sample_libs ` test_signed_blocks sample_libs (repeat_byte 7) (repeat_byte 8) \<subseteq>
   set ([sample_payload 7 9 100 0, sample_payload 7 9 999999 0, sample_payload 8 9 100 0] @
      map (\<lambda>h. as_slice (digest_bytes (sample_sha256 h)))
        [test_header_bytes 1 7, test_header_bytes 9999 7, test_header_bytes 1 8])"
proof -
  have "test_payloads sample_libs (repeat_byte 7) (repeat_byte 8) \<subseteq>
      {sample_payload 7 9 100 0, sample_payload 7 9 999999 0, sample_payload 8 9 100 0}"
    by (auto simp: test_payloads_def pure_payload_def tx_signed_def sample_payload_def Let_def)
  moreover have "signing_bytes sample_libs b \<in> (\<lambda>h. as_slice (digest_bytes (sample_sha256 h))) `
      set [test_header_bytes 1 7, test_header_bytes 9999 7, test_header_bytes 1 8]"
    if "b \<in> test_signed_blocks sample_libs (repeat_byte 7) (repeat_byte 8)" for b
    using sample_test_headers [OF that] by (auto simp: signing_bytes_def block_hash_def)
  ultimately show ?thesis by fastforce
qed

theorem types_tests_pass_witness:
  "tampering_after_sign_fails_verify sample_libs (repeat_byte 7) \<and>
   modifying_one_tx_changes_root sample_libs \<and>
   wrong_proposer_fails_verify sample_libs (repeat_byte 7) (repeat_byte 8)"
proof -
  let ?key = "repeat_byte 7 :: address" and ?other = "repeat_byte 8 :: address"
  have "inj_on sample_mix (set ([sample_payload 7 9 100 0, sample_payload 7 9 999999 0, sample_payload 8 9 100 0] @
      map (\<lambda>h. as_slice (digest_bytes (sample_sha256 h)))
        [test_header_bytes 1 7, test_header_bytes 9999 7, test_header_bytes 1 8]))"
    using sample_messages_distinct unfolding distinct_map by blast
  then have forge: "no_forgery sample_libs {?key, ?other}
      (test_payloads sample_libs ?key ?other \<union> signing_bytes sample_libs ` test_signed_blocks sample_libs ?key ?other)"
    by (intro sample_no_forgery inj_on_subset [OF _ sample_messages_cover])
  have inputs: "no_collision sample_libs (test_hash_inputs sample_libs)"
    using sample_test_inputs_distinct
    by (intro no_collision_mono [OF no_collision_list sample_test_inputs_cover]) (simp add: distinct_map inj_on_def)
  have "no_collision sample_libs (set [test_header_bytes 1 7, test_header_bytes 9999 7, test_header_bytes 1 8])"
    using sample_header_bytes_distinct by (intro no_collision_list) simp
  moreover have "(\<lambda>b. header_encode sample_libs (blk_header b)) ` test_signed_blocks sample_libs ?key ?other \<subseteq>
      set [test_header_bytes 1 7, test_header_bytes 9999 7, test_header_bytes 1 8]"
    using sample_test_headers by blast
  ultimately have headers: "no_collision sample_libs
      ((\<lambda>b. header_encode sample_libs (blk_header b)) ` test_signed_blocks sample_libs ?key ?other)"
    by (rule no_collision_mono)
  show ?thesis
    using types_tests_pass [OF sample_ed25519_laws sample_codec_laws sample_garbage_refused sample_decode_law
        sample_decode_law _ _ forge inputs headers] by simp
qed

end
