(* ===== verification/Unit_Tests_Storage.thy ===== *)
theory Unit_Tests_Storage
  imports Unit_Tests_Types
begin

text \<open>
  The unit tests of \<open>crates/storage/src/state.rs\<close> as executable predicates, in both build
  profiles and for every key a test may draw.
\<close>

section \<open>Tests\<close>

definition block_with :: "('sk, 'vk) libs \<Rightarrow> transaction list \<Rightarrow> (block \<Rightarrow> bool) \<Rightarrow> bool" where
  "block_with L txs k \<longleftrightarrow>
     (case block_new L 1 zero_hash 0 (repeat_byte 0) txs of None \<Rightarrow> False | Some b \<Rightarrow> k b)"

definition missing_account_reads_as_zero :: bool where
  "missing_account_reads_as_zero \<longleftrightarrow>
     get_balance state_new (repeat_byte 0) = 0 \<and> get_nonce state_new (repeat_byte 0) = 0"

definition credit_seeds_balance :: "profile \<Rightarrow> bool" where
  "credit_seeds_balance pr \<longleftrightarrow>
     (let alice = repeat_byte 1
      in unwrap (credit pr alice 100 state_new) (\<lambda>_ state.
           get_balance state alice = 100 \<and>
           unwrap (credit pr alice 50 state) (\<lambda>_ state. get_balance state alice = 150)))"

definition happy_transfer_moves_funds_and_bumps_nonce :: "profile \<Rightarrow> ('sk, 'vk) libs \<Rightarrow> 'sk \<Rightarrow> bool" where
  "happy_transfer_moves_funds_and_bumps_nonce pr L alice_key \<longleftrightarrow>
     (let alice = lib_public L alice_key; bob = repeat_byte 9
      in unwrap (credit pr alice 100 state_new) (\<lambda>_ state.
           unwrap (apply_transaction pr L (tx_signed L alice_key bob 30 0) state) (\<lambda>_ state.
             get_balance state alice = 70 \<and> get_balance state bob = 30 \<and>
             get_nonce state alice = 1 \<and> get_nonce state bob = 0)))"

definition wrong_nonce_is_rejected :: "profile \<Rightarrow> ('sk, 'vk) libs \<Rightarrow> 'sk \<Rightarrow> bool" where
  "wrong_nonce_is_rejected pr L alice_key \<longleftrightarrow>
     (let alice = lib_public L alice_key
      in unwrap (credit pr alice 100 state_new) (\<lambda>_ state.
           unwrap_err (apply_transaction pr L (tx_signed L alice_key (repeat_byte 9) 10 5) state) (\<lambda>err state.
             err = InvalidNonce 0 5 \<and> get_balance state alice = 100 \<and> get_nonce state alice = 0)))"

definition insufficient_balance_is_rejected :: "profile \<Rightarrow> ('sk, 'vk) libs \<Rightarrow> 'sk \<Rightarrow> bool" where
  "insufficient_balance_is_rejected pr L alice_key \<longleftrightarrow>
     (let alice = lib_public L alice_key
      in unwrap (credit pr alice 50 state_new) (\<lambda>_ state.
           unwrap_err (apply_transaction pr L (tx_signed L alice_key (repeat_byte 9) 100 0) state) (\<lambda>err state.
             err = InsufficientBalance 50 100 \<and> get_balance state alice = 50 \<and> get_nonce state alice = 0)))"

definition overflow_on_recipient_is_rejected :: "profile \<Rightarrow> ('sk, 'vk) libs \<Rightarrow> 'sk \<Rightarrow> bool" where
  "overflow_on_recipient_is_rejected pr L alice_key \<longleftrightarrow>
     (let alice = lib_public L alice_key; bob = repeat_byte 9
      in unwrap (credit pr alice u64_max state_new) (\<lambda>_ state.
           unwrap (credit pr bob u64_max state) (\<lambda>_ state.
             unwrap_err (apply_transaction pr L (tx_signed L alice_key bob 1 0) state) (\<lambda>err _.
               err = BalanceOverflow))))"

definition self_transfer_only_bumps_nonce :: "profile \<Rightarrow> ('sk, 'vk) libs \<Rightarrow> 'sk \<Rightarrow> bool" where
  "self_transfer_only_bumps_nonce pr L alice_key \<longleftrightarrow>
     (let alice = lib_public L alice_key
      in unwrap (credit pr alice 100 state_new) (\<lambda>_ state.
           unwrap (apply_transaction pr L (tx_signed L alice_key alice 30 0) state) (\<lambda>_ state.
             get_balance state alice = 100 \<and> get_nonce state alice = 1)))"

definition state_unsigned_tx_is_rejected :: "profile \<Rightarrow> ('sk, 'vk) libs \<Rightarrow> 'sk \<Rightarrow> bool" where
  "state_unsigned_tx_is_rejected pr L alice_key \<longleftrightarrow>
     (let alice = lib_public L alice_key;
          tx = \<lparr>tx_from = alice, tx_to = repeat_byte 9, tx_amount = 10, tx_nonce = 0, tx_signature = None\<rparr>
      in unwrap (credit pr alice 100 state_new) (\<lambda>_ state.
           unwrap_err (apply_transaction pr L tx state) (\<lambda>err _.
             case err of StateInvalidSignature _ \<Rightarrow> True | _ \<Rightarrow> False)))"

definition block_with_sequential_txs_from_same_sender :: "profile \<Rightarrow> ('sk, 'vk) libs \<Rightarrow> 'sk \<Rightarrow> bool" where
  "block_with_sequential_txs_from_same_sender pr L alice_key \<longleftrightarrow>
     (let alice = lib_public L alice_key; bob = repeat_byte 9
      in unwrap (credit pr alice 100 state_new) (\<lambda>_ state.
           block_with L [tx_signed L alice_key bob 10 0, tx_signed L alice_key bob 20 1,
                         tx_signed L alice_key bob 30 2] (\<lambda>block.
             unwrap (apply_block pr L block state) (\<lambda>_ state.
               get_balance state alice = 40 \<and> get_balance state bob = 60 \<and> get_nonce state alice = 3))))"

definition block_rolls_back_atomically_on_failure :: "profile \<Rightarrow> ('sk, 'vk) libs \<Rightarrow> 'sk \<Rightarrow> bool" where
  "block_rolls_back_atomically_on_failure pr L alice_key \<longleftrightarrow>
     (let alice = lib_public L alice_key; bob = repeat_byte 9
      in unwrap (credit pr alice 100 state_new) (\<lambda>_ state.
           block_with L [tx_signed L alice_key bob 10 0, tx_signed L alice_key bob 20 99] (\<lambda>block.
             unwrap_err (apply_block pr L block state) (\<lambda>_ state.
               get_balance state alice = 100 \<and> get_balance state bob = 0 \<and> get_nonce state alice = 0))))"

definition empty_block_is_a_noop :: "profile \<Rightarrow> ('sk, 'vk) libs \<Rightarrow> bool" where
  "empty_block_is_a_noop pr L \<longleftrightarrow>
     unwrap (credit pr (repeat_byte 1) 100 state_new) (\<lambda>_ state.
       block_with L [] (\<lambda>block.
         unwrap (apply_block pr L block state) (\<lambda>_ state. get_balance state (repeat_byte 1) = 100)))"


section \<open>Lemmas\<close>

lemma tx_signed_sel [simp]:
  "tx_from (tx_signed L sk to amount nonce) = lib_public L sk" "tx_to (tx_signed L sk to amount nonce) = to"
  "tx_amount (tx_signed L sk to amount nonce) = amount" "tx_nonce (tx_signed L sk to amount nonce) = nonce"
  by (simp_all add: tx_signed_def Let_def)

text \<open>The state after a credit to a fresh account.\<close>

definition funded :: "address \<Rightarrow> u64 \<Rightarrow> state_store \<Rightarrow> state_store" where
  "funded a n s = entry_update a (\<lambda>acc. acc\<lparr>acct_balance := acct_balance acc + n\<rparr>) s"

lemma get_account_funded [simp]:
  "get_account (funded a n s) b =
     (if a = b then (get_account s a)\<lparr>acct_balance := get_balance s a + n\<rparr> else get_account s b)"
  by (simp add: funded_def get_balance_account)

lemma get_account_new [simp]: "get_account state_new a = \<lparr>acct_balance = 0, acct_nonce = 0\<rparr>"
  by (simp add: get_account_def state_new_def default_account_def)

lemma credit_funded: "unat (get_balance s a) + unat n < 2 ^ 64 \<Longrightarrow> credit pr a n s = (Ok (), funded a n s)"
  unfolding credit_def funded_def by (rule add_balance_ok)

lemma credit_new: "credit pr a n state_new = (Ok (), funded a n state_new)"
  using unat_u64_bound [of n] by (intro credit_funded) (simp add: get_balance_account)

lemmas account_views = get_balance_account get_nonce_account get_account_transfer

lemma block_with_eq: "block_with L txs k = k
   \<lparr>blk_header = \<lparr>hd_height = 1, hd_parent_hash = zero_hash, hd_tx_root = tx_root L txs,
                  hd_timestamp = 0, hd_proposer = repeat_byte 0\<rparr>, blk_transactions = txs\<rparr>"
  by (simp add: block_with_def block_new_eq)

lemma apply_signed:
  assumes "ed25519_laws L" and "tx_admissible L (tx_signed L sk to amount nonce) s" and "nonce \<noteq> u64_max"
  shows "apply_transaction pr L (tx_signed L sk to amount nonce) s = (Ok (), transfer (tx_signed L sk to amount nonce) s)"
  using assms by (intro apply_transaction_admissible) simp_all

lemma signed_admissible:
  assumes "ed25519_laws L"
  shows "tx_admissible L (tx_signed L sk to amount nonce) s \<longleftrightarrow>
    nonce = get_nonce s (lib_public L sk) \<and> amount \<le> get_balance s (lib_public L sk) \<and>
    (lib_public L sk = to \<or> unat (get_balance s to) + unat amount < 2 ^ 64)"
  using tx_signed_facts [OF assms] by (simp add: tx_admissible_def)

lemma reject_signed:
  assumes "ed25519_laws L" and "\<not> tx_admissible L (tx_signed L sk to amount nonce) s"
  shows "apply_transaction pr L (tx_signed L sk to amount nonce) s =
    (Err (if nonce \<noteq> get_nonce s (lib_public L sk) then InvalidNonce (get_nonce s (lib_public L sk)) nonce
          else if get_balance s (lib_public L sk) < amount
          then InsufficientBalance (get_balance s (lib_public L sk)) amount else BalanceOverflow), s)"
  using apply_transaction_reject [OF assms(2), of pr] tx_signed_facts [OF assms(1)]
  by (simp add: reject_reason_def)

lemma apply_Cons_signed:
  assumes "ed25519_laws L" and "tx_admissible L (tx_signed L sk to amount nonce) s" and "nonce \<noteq> u64_max"
  shows "apply_txs pr L (tx_signed L sk to amount nonce # txs) s =
    apply_txs pr L txs (transfer (tx_signed L sk to amount nonce) s)"
  using apply_signed [OF assms, of pr] by (rule state_ledger.run_ok)

lemma restored [simp]: "get_account (s\<lparr>accounts := accounts t\<rparr>) = get_account t"
  by (simp add: get_account_def fun_eq_iff)

lemma apply_Cons_refused:
  assumes "ed25519_laws L" and "\<not> tx_admissible L (tx_signed L sk to amount nonce) s"
  shows "\<exists>e. apply_txs pr L (tx_signed L sk to amount nonce # txs) s = (Err e, s)"
  using state_ledger.run_err [OF reject_signed [OF assms, of pr]] by blast

lemma rollback_test:
  assumes "ed25519_laws L" and "lib_public L key \<noteq> repeat_byte 9"
  shows "block_rolls_back_atomically_on_failure pr L key"
proof -
  note sender = assms(2) assms(2) [symmetric]
  let ?s = "transfer (tx_signed L key (repeat_byte 9) 10 0) (funded (lib_public L key) 100 state_new)"
  have "\<not> tx_admissible L (tx_signed L key (repeat_byte 9) 20 99) ?s"
    using sender by (simp add: signed_admissible [OF assms(1)] account_views)
  then obtain e where "apply_txs pr L [tx_signed L key (repeat_byte 9) 20 99] ?s = (Err e, ?s)"
    using apply_Cons_refused [OF assms(1)] by blast
  then show ?thesis
    using sender
    by (simp add: block_rolls_back_atomically_on_failure_def credit_new block_with_eq apply_block_def
        apply_Cons_signed [OF assms(1)] signed_admissible [OF assms(1)] account_views Let_def)
qed


section \<open>Properties\<close>

text \<open>
  C38: the unit tests of the account state pass in both build profiles, whatever key they draw, as
  long as its address is not the address of 32 bytes 9 they use for the recipient.
\<close>

theorem state_tests_pass:
  assumes "ed25519_laws L" and "lib_public L key \<noteq> repeat_byte 9"
  shows "missing_account_reads_as_zero \<and> credit_seeds_balance pr \<and>
    happy_transfer_moves_funds_and_bumps_nonce pr L key \<and> wrong_nonce_is_rejected pr L key \<and>
    insufficient_balance_is_rejected pr L key \<and> overflow_on_recipient_is_rejected pr L key \<and>
    self_transfer_only_bumps_nonce pr L key \<and> state_unsigned_tx_is_rejected pr L key \<and>
    block_with_sequential_txs_from_same_sender pr L key \<and>
    block_rolls_back_atomically_on_failure pr L key \<and> empty_block_is_a_noop pr L"
proof (intro conjI)
  note sender = assms(2) assms(2) [symmetric]
  show "missing_account_reads_as_zero" by (simp add: missing_account_reads_as_zero_def account_views)
  show "credit_seeds_balance pr"
    by (simp add: credit_seeds_balance_def credit_new credit_funded get_balance_account)
  show "happy_transfer_moves_funds_and_bumps_nonce pr L key"
    using sender
    by (simp add: happy_transfer_moves_funds_and_bumps_nonce_def credit_new apply_signed [OF assms(1)]
        signed_admissible [OF assms(1)] account_views Let_def)
  show "wrong_nonce_is_rejected pr L key"
    by (simp add: wrong_nonce_is_rejected_def credit_new reject_signed [OF assms(1)]
        signed_admissible [OF assms(1)] account_views)
  show "insufficient_balance_is_rejected pr L key"
    by (simp add: insufficient_balance_is_rejected_def credit_new reject_signed [OF assms(1)]
        signed_admissible [OF assms(1)] account_views)
  show "overflow_on_recipient_is_rejected pr L key"
    using sender
    by (simp add: overflow_on_recipient_is_rejected_def credit_new credit_funded reject_signed [OF assms(1)]
        signed_admissible [OF assms(1)] account_views)
  show "self_transfer_only_bumps_nonce pr L key"
    by (simp add: self_transfer_only_bumps_nonce_def credit_new apply_signed [OF assms(1)]
        signed_admissible [OF assms(1)] account_views Let_def)
  show "state_unsigned_tx_is_rejected pr L key"
    by (simp add: state_unsigned_tx_is_rejected_def credit_new apply_transaction_def verify_signature_def Let_def)
  show "block_with_sequential_txs_from_same_sender pr L key"
    using sender
    by (simp add: block_with_sequential_txs_from_same_sender_def credit_new block_with_eq apply_block_def
        apply_Cons_signed [OF assms(1)] signed_admissible [OF assms(1)] account_views Let_def)
  show "block_rolls_back_atomically_on_failure pr L key" by (rule rollback_test [OF assms])
  show "empty_block_is_a_noop pr L"
    by (simp add: empty_block_is_a_noop_def credit_new block_with_eq apply_block_def account_views Let_def)
qed

theorem state_tests_pass_witness:
  "happy_transfer_moves_funds_and_bumps_nonce Debug sample_libs (repeat_byte 7) \<and>
   block_rolls_back_atomically_on_failure Release sample_libs (repeat_byte 7)"
  using state_tests_pass [OF sample_ed25519_laws, of "repeat_byte 7" Debug]
    state_tests_pass [OF sample_ed25519_laws, of "repeat_byte 7" Release] by simp

end
