(* ===== verification/Unit_Tests_Mempool.thy ===== *)
theory Unit_Tests_Mempool
  imports Unit_Tests_Storage
begin

text \<open>
  The unit tests of \<open>crates/mempool/src/pool.rs\<close> as executable predicates, for every key a test
  may draw, and the lemmas by which tests fill a pool.
\<close>

section \<open>Filling a pool\<close>

text \<open>The pool holds these transactions, inserted in this order.\<close>

definition holds :: "('sk, 'vk) libs \<Rightarrow> mempool \<Rightarrow> transaction list \<Rightarrow> bool" where
  "holds L m txs \<longleftrightarrow> mempool_ok L m \<and> pool_txs m = set txs \<and> mempool_len m = length txs"

definition apart :: "('sk, 'vk) libs \<Rightarrow> transaction list \<Rightarrow> transaction \<Rightarrow> bool" where
  "apart L txs tx \<longleftrightarrow>
     (\<forall>t \<in> set txs. tx_hash L t \<noteq> tx_hash L tx \<and> (tx_from t = tx_from tx \<longrightarrow> tx_nonce t \<noteq> tx_nonce tx))"

lemma holds_empty [simp]: "holds L (mempool_with_capacity c) []"
  by (auto simp: holds_def pool_txs_def)

lemma holds_insert:
  assumes "holds L m txs" and "verify_signature L tx = Inr ()" and "tx_amount tx \<noteq> 0"
    and "apart L txs tx" and "length txs < mp_capacity m"
  shows "mempool_insert L tx m = (Ok (tx_hash L tx), pool_add L tx m)" and "holds L (pool_add L tx m) (txs @ [tx])"
proof -
  have ok: "mempool_ok L m" and txs: "pool_txs m = set txs" and len: "mempool_len m = length txs"
    using assms(1) by (simp_all add: holds_def)
  have fresh: "mempool_get m (tx_hash L tx) = None" "slot m (tx_from tx) (tx_nonce tx) = None"
    using assms(4) unfolding pool_get_None_iff [OF ok] slot_None_iff [OF ok] txs apart_def by auto
  then have accepted: "insert_refused L tx m = None" using assms(2,3,5) len by (simp add: insert_refused_def)
  then show "mempool_insert L tx m = (Ok (tx_hash L tx), pool_add L tx m)" by (simp add: mempool_insert_eq)
  show "holds L (pool_add L tx m) (txs @ [tx])"
    using mempool_ok_add [OF ok accepted] fresh len txs by (simp add: holds_def pool_txs_add pool_add_len)
qed

text \<open>The pool that results from inserting transactions that are all accepted.\<close>

definition pool_of :: "('sk, 'vk) libs \<Rightarrow> nat \<Rightarrow> transaction list \<Rightarrow> mempool" where
  "pool_of L c txs = fold (pool_add L) txs (mempool_with_capacity c)"

fun insertable :: "('sk, 'vk) libs \<Rightarrow> transaction list \<Rightarrow> transaction list \<Rightarrow> bool" where
  "insertable L pre [] \<longleftrightarrow> True"
| "insertable L pre (tx # txs) \<longleftrightarrow>
     verify_signature L tx = Inr () \<and> tx_amount tx \<noteq> 0 \<and> apart L pre tx \<and> insertable L (pre @ [tx]) txs"

lemma insertable_append:
  "insertable L pre (txs @ us) \<longleftrightarrow> insertable L pre txs \<and> insertable L (pre @ txs) us"
  by (induction txs arbitrary: pre) simp_all

lemma pool_of_capacity [simp]: "mp_capacity (pool_of L c txs) = c"
  by (induction txs rule: rev_induct) (simp_all add: pool_of_def)

lemma pool_of_holds: "insertable L [] txs \<Longrightarrow> length txs \<le> c \<Longrightarrow> holds L (pool_of L c txs) txs"
proof (induction txs rule: rev_induct)
  case (snoc tx txs)
  then have "holds L (pool_add L tx (pool_of L c txs)) (txs @ [tx])"
    by (intro holds_insert) (simp_all add: insertable_append)
  then show ?case by (simp add: pool_of_def)
qed (simp add: pool_of_def)

lemma pool_of_insert:
  assumes "insertable L [] (txs @ [tx])" and "length txs < c"
  shows "mempool_insert L tx (pool_of L c txs) = (Ok (tx_hash L tx), pool_of L c (txs @ [tx]))"
proof -
  have "holds L (pool_of L c txs) txs" using assms by (intro pool_of_holds) (simp_all add: insertable_append)
  from holds_insert(1) [OF this, of tx] show ?thesis
    using assms by (simp add: insertable_append) (simp add: pool_of_def)
qed

text \<open>Views of such a pool.\<close>

lemma holds_pending_from:
  assumes "holds L m txs" and "distinct (map tx_nonce us)" and "sorted (map tx_nonce us)"
    and "set us = {t \<in> set txs. tx_from t = a}"
  shows "pending_from m a = us"
proof -
  have ok: "mempool_ok L m" using assms(1) by (simp add: holds_def)
  have set: "set (pending_from m a) = set us"
    using assms(1,4) pending_from_set [OF ok] by (simp add: holds_def)
  have "sorted (map tx_nonce (pending_from m a))" "distinct (map tx_nonce (pending_from m a))"
    using pending_from_sorted_nonces [OF ok, of a] by (simp_all add: strict_sorted_iff)
  moreover have "inj_on tx_nonce (set us)" using assms(2) by (simp add: distinct_map)
  ultimately show ?thesis
    using set assms(2,3) by (intro map_sorted_distinct_set_unique [of tx_nonce]) (simp_all add: distinct_map)
qed

lemma holds_lowest_nonce:
  assumes "holds L m txs"
  shows "lowest_nonce m a =
    (let ns = tx_nonce ` {t \<in> set txs. tx_from t = a} in if ns = {} then None else Some (Min ns))"
  using assms lowest_nonce_eq [of L m a] by (auto simp: holds_def Let_def)

text \<open>Signed transactions of one key, told apart by their hashes.\<close>

definition separate :: "('sk, 'vk) libs \<Rightarrow> transaction set \<Rightarrow> bool" where
  "separate L T \<longleftrightarrow> (\<forall>t \<in> T. \<forall>u \<in> T. tx_hash L t = tx_hash L u \<longrightarrow> t = u)"

lemma separateD: "separate L T \<Longrightarrow> t \<in> T \<Longrightarrow> u \<in> T \<Longrightarrow> tx_hash L t = tx_hash L u \<Longrightarrow> t = u"
  unfolding separate_def by blast

lemma separate_mono: "separate L T \<Longrightarrow> U \<subseteq> T \<Longrightarrow> separate L U"
  unfolding separate_def by blast

lemma separate_no_collision: "codec_laws L \<Longrightarrow> no_collision L (tx_encode L ` T) \<Longrightarrow> separate L T"
proof -
  assume "codec_laws L" and "no_collision L (tx_encode L ` T)"
  then have "t = u" if "t \<in> T" "u \<in> T" "tx_hash L t = tx_hash L u" for t u
    using that no_collisionD [of L "tx_encode L ` T" "tx_encode L t" "tx_encode L u"]
    by (simp add: tx_hash_def tx_encode_inject)
  then show ?thesis by (simp add: separate_def)
qed

lemma insertable_separate:
  assumes "separate L (set (pre @ txs))"
    and "\<And>t. t \<in> set txs \<Longrightarrow> verify_signature L t = Inr () \<and> tx_amount t \<noteq> 0"
    and "distinct (map (\<lambda>t. (tx_from t, tx_nonce t)) (pre @ txs))"
  shows "insertable L pre txs"
  using assms
proof (induction txs arbitrary: pre)
  case (Cons tx txs)
  have "tx_hash L t \<noteq> tx_hash L tx \<and> (tx_from t = tx_from tx \<longrightarrow> tx_nonce t \<noteq> tx_nonce tx)" if "t \<in> set pre" for t
  proof -
    define f where "f = (\<lambda>t :: transaction. (tx_from t, tx_nonce t))"
    have "distinct (map f (pre @ tx # txs))" using Cons.prems(3) unfolding f_def .
    then have "f t \<noteq> f tx" using imageI [OF that, of f] by auto
    moreover from this have "tx_hash L t \<noteq> tx_hash L tx"
      using separateD [OF Cons.prems(1), of t tx] that by auto
    ultimately show ?thesis by (simp add: f_def)
  qed
  then have "apart L pre tx" by (simp add: apart_def)
  moreover have "insertable L (pre @ [tx]) txs" using Cons.prems by (intro Cons.IH) simp_all
  ultimately show ?case using Cons.prems(2) by simp
qed simp


section \<open>Tests\<close>

definition signed_tx :: "('sk, 'vk) libs \<Rightarrow> 'sk \<Rightarrow> u64 \<Rightarrow> u64 \<Rightarrow> transaction" where
  "signed_tx L signer amount nonce = tx_signed L signer (repeat_byte 9) amount nonce"

definition insert_signed_tx_succeeds :: "('sk, 'vk) libs \<Rightarrow> 'sk \<Rightarrow> bool" where
  "insert_signed_tx_succeeds L key \<longleftrightarrow>
     (case mempool_insert L (signed_tx L key 100 0) mempool_new of
        (r, pool) \<Rightarrow> is_ok r \<and> mempool_len pool = 1)"

definition pool_unsigned_tx_is_rejected :: "('sk, 'vk) libs \<Rightarrow> 'sk \<Rightarrow> bool" where
  "pool_unsigned_tx_is_rejected L key \<longleftrightarrow>
     (let tx = \<lparr>tx_from = lib_public L key, tx_to = repeat_byte 9, tx_amount = 1, tx_nonce = 0,
                tx_signature = None\<rparr>
      in case mempool_insert L tx mempool_new of
           (Err (PoolInvalidSignature _), pool) \<Rightarrow> mempool_is_empty pool
         | _ \<Rightarrow> False)"

definition zero_amount_is_rejected :: "('sk, 'vk) libs \<Rightarrow> 'sk \<Rightarrow> bool" where
  "zero_amount_is_rejected L key \<longleftrightarrow> fst (mempool_insert L (signed_tx L key 0 0) mempool_new) = Err ZeroAmount"

definition duplicate_hash_is_rejected :: "('sk, 'vk) libs \<Rightarrow> 'sk \<Rightarrow> bool" where
  "duplicate_hash_is_rejected L key \<longleftrightarrow>
     (let tx = signed_tx L key 100 0
      in unwrap (mempool_insert L tx mempool_new) (\<lambda>_ pool. fst (mempool_insert L tx pool) = Err Duplicate))"

definition same_sender_same_nonce_is_rejected :: "('sk, 'vk) libs \<Rightarrow> 'sk \<Rightarrow> bool" where
  "same_sender_same_nonce_is_rejected L key \<longleftrightarrow>
     unwrap (mempool_insert L (signed_tx L key 100 0) mempool_new) (\<lambda>_ pool.
       case mempool_insert L (signed_tx L key 200 0) pool of
         (r, pool) \<Rightarrow> r = Err (NonceConflict 0) \<and> mempool_len pool = 1)"

definition same_sender_different_nonce_both_accepted :: "('sk, 'vk) libs \<Rightarrow> 'sk \<Rightarrow> bool" where
  "same_sender_different_nonce_both_accepted L key \<longleftrightarrow>
     unwrap (mempool_insert L (signed_tx L key 100 0) mempool_new) (\<lambda>_ pool.
       unwrap (mempool_insert L (signed_tx L key 200 1) pool) (\<lambda>_ pool.
         unwrap (mempool_insert L (signed_tx L key 300 2) pool) (\<lambda>_ pool. mempool_len pool = 3)))"

definition pending_from_returns_nonce_sorted :: "('sk, 'vk) libs \<Rightarrow> 'sk \<Rightarrow> bool" where
  "pending_from_returns_nonce_sorted L key \<longleftrightarrow>
     unwrap (mempool_insert L (signed_tx L key 30 2) mempool_new) (\<lambda>_ pool.
       unwrap (mempool_insert L (signed_tx L key 10 0) pool) (\<lambda>_ pool.
         unwrap (mempool_insert L (signed_tx L key 20 1) pool) (\<lambda>_ pool.
           map tx_nonce (pending_from pool (lib_public L key)) = [0, 1, 2])))"

definition lowest_nonce_tracks_min :: "('sk, 'vk) libs \<Rightarrow> 'sk \<Rightarrow> bool" where
  "lowest_nonce_tracks_min L key \<longleftrightarrow>
     lowest_nonce mempool_new (lib_public L key) = None \<and>
     unwrap (mempool_insert L (signed_tx L key 1 5) mempool_new) (\<lambda>_ pool.
       unwrap (mempool_insert L (signed_tx L key 1 3) pool) (\<lambda>_ pool.
         unwrap (mempool_insert L (signed_tx L key 1 7) pool) (\<lambda>_ pool.
           lowest_nonce pool (lib_public L key) = Some 3)))"

definition capacity_is_enforced :: "('sk, 'vk) libs \<Rightarrow> 'sk \<Rightarrow> 'sk \<Rightarrow> 'sk \<Rightarrow> bool" where
  "capacity_is_enforced L key1 key2 key3 \<longleftrightarrow>
     unwrap (mempool_insert L (signed_tx L key1 1 0) (mempool_with_capacity 2)) (\<lambda>_ pool.
       unwrap (mempool_insert L (signed_tx L key2 1 0) pool) (\<lambda>_ pool.
         case mempool_insert L (signed_tx L key3 1 0) pool of
           (r, pool) \<Rightarrow> r = Err Full \<and> mempool_len pool = 2))"

definition remove_keeps_indexes_consistent :: "('sk, 'vk) libs \<Rightarrow> 'sk \<Rightarrow> bool" where
  "remove_keeps_indexes_consistent L key \<longleftrightarrow>
     (let addr = lib_public L key
      in unwrap (mempool_insert L (signed_tx L key 10 0) mempool_new) (\<lambda>h1 pool.
           unwrap (mempool_insert L (signed_tx L key 20 1) pool) (\<lambda>h2 pool.
             case mempool_remove h1 pool of
               (None, _) \<Rightarrow> False
             | (Some removed, pool) \<Rightarrow>
                 tx_nonce removed = 0 \<and> lowest_nonce pool addr = Some 1 \<and>
                 (case mempool_remove h2 pool of
                    (None, _) \<Rightarrow> False
                  | (Some _, pool) \<Rightarrow> lowest_nonce pool addr = None \<and> mempool_is_empty pool))))"

definition remove_missing_returns_none :: bool where
  "remove_missing_returns_none \<longleftrightarrow> fst (mempool_remove zero_hash mempool_new) = None"


section \<open>Lemmas\<close>

text \<open>The transactions of these tests.\<close>

definition pool_test_txs :: "('sk, 'vk) libs \<Rightarrow> 'sk \<Rightarrow> 'sk \<Rightarrow> 'sk \<Rightarrow> transaction list" where
  "pool_test_txs L key key2 key3 =
     [signed_tx L key 100 0, signed_tx L key 200 0, signed_tx L key 200 1, signed_tx L key 300 2,
      signed_tx L key 30 2, signed_tx L key 10 0, signed_tx L key 20 1, signed_tx L key 1 5,
      signed_tx L key 1 3, signed_tx L key 1 7, signed_tx L key 1 0, signed_tx L key2 1 0,
      signed_tx L key3 1 0]"

lemma signed_tx_sel [simp]:
  "tx_from (signed_tx L sk amount nonce) = lib_public L sk" "tx_to (signed_tx L sk amount nonce) = repeat_byte 9"
  "tx_amount (signed_tx L sk amount nonce) = amount" "tx_nonce (signed_tx L sk amount nonce) = nonce"
  by (simp_all add: signed_tx_def)

lemma signed_tx_eq [simp]: "signed_tx L sk a n = signed_tx L sk b k \<longleftrightarrow> a = b \<and> n = k"
  using signed_tx_sel(3,4) by metis

lemma signed_tx_valid: "ed25519_laws L \<Longrightarrow> verify_signature L (signed_tx L sk amount nonce) = Inr ()"
  by (simp add: signed_tx_def tx_signed_facts)

lemma mempool_new_eq: "mempool_new = pool_of L 1024 []"
  by (simp add: mempool_new_def pool_of_def DEFAULT_CAPACITY_def)

lemma pool_test_insertable:
  assumes "ed25519_laws L" and "separate L (set (pool_test_txs L key key2 key3))"
    and "set txs \<subseteq> set (pool_test_txs L key key2 key3)" 
    and "distinct (map (\<lambda>t. (tx_from t, tx_nonce t)) txs)" 
  shows "insertable L [] txs"
proof (rule insertable_separate)
  show "separate L (set ([] @ txs))" using separate_mono [OF assms(2,3)] by simp
  show "verify_signature L t = Inr () \<and> tx_amount t \<noteq> 0" if "t \<in> set txs" for t
    using assms(3) that by (auto simp: pool_test_txs_def signed_tx_valid [OF assms(1)])
qed (use assms(4) in simp)

lemma pool_rejection_tests:
  assumes "ed25519_laws L" and "separate L (set (pool_test_txs L key key2 key3))"
  shows "insert_signed_tx_succeeds L key" and "pool_unsigned_tx_is_rejected L key"
    and "zero_amount_is_rejected L key" and "duplicate_hash_is_rejected L key"
    and "same_sender_same_nonce_is_rejected L key" 
proof -
  note insertable = pool_test_insertable [OF assms]
  note inserted = pool_of_insert [OF insertable]
  have refused: "insert_refused L tx m = Some e \<Longrightarrow> mempool_insert L tx m = (Err e, m)" for tx m e
    by (simp add: mempool_insert_eq)
  have first: "mempool_insert L (signed_tx L key 100 0) mempool_new =
      (Ok (tx_hash L (signed_tx L key 100 0)), pool_of L 1024 [signed_tx L key 100 0])"
    unfolding mempool_new_eq [of L] by (subst inserted) (simp_all add: pool_test_txs_def)
  have held: "holds L (pool_of L 1024 [signed_tx L key 100 0]) [signed_tx L key 100 0]"
    by (intro pool_of_holds insertable) (simp_all add: pool_test_txs_def)
  show "insert_signed_tx_succeeds L key"
    using held by (simp add: insert_signed_tx_succeeds_def first holds_def)
  show "pool_unsigned_tx_is_rejected L key"
    by (simp add: pool_unsigned_tx_is_rejected_def mempool_insert_def verify_signature_def Let_def
        mempool_new_def mempool_with_capacity_def mempool_is_empty_def)
  show "zero_amount_is_rejected L key"
    by (simp add: zero_amount_is_rejected_def mempool_insert_eq insert_refused_def signed_tx_valid [OF assms(1)])
  have get: "mempool_get (pool_of L 1024 [signed_tx L key 100 0]) (tx_hash L (signed_tx L key 100 0)) =
      Some (signed_tx L key 100 0)"
    by (simp add: pool_of_def)
  then have "insert_refused L (signed_tx L key 100 0) (pool_of L 1024 [signed_tx L key 100 0]) = Some Duplicate"
    by (simp add: insert_refused_def signed_tx_valid [OF assms(1)])
  from refused [OF this] show "duplicate_hash_is_rejected L key"
    by (simp add: duplicate_hash_is_rejected_def first Let_def)
  have "tx_hash L (signed_tx L key 200 0) \<noteq> tx_hash L (signed_tx L key 100 0)"
    using separateD [OF assms(2), of "signed_tx L key 200 0" "signed_tx L key 100 0"]
    by (auto simp: pool_test_txs_def)
  then have "insert_refused L (signed_tx L key 200 0) (pool_of L 1024 [signed_tx L key 100 0]) = Some (NonceConflict 0)"
    by (simp add: insert_refused_def signed_tx_valid [OF assms(1)] pool_of_def)
  from refused [OF this] show "same_sender_same_nonce_is_rejected L key"
    using held by (simp add: same_sender_same_nonce_is_rejected_def first holds_def)
qed

lemma pool_order_tests:
  assumes "ed25519_laws L" and "separate L (set (pool_test_txs L key key2 key3))"
  shows "same_sender_different_nonce_both_accepted L key" and "pending_from_returns_nonce_sorted L key"
    and "lowest_nonce_tracks_min L key"
proof -
  note insertable = pool_test_insertable [OF assms]
  note inserted = pool_of_insert [OF insertable]
  note tests = mempool_new_eq [of L] inserted pool_test_txs_def
  have "holds L (pool_of L 1024 [signed_tx L key 100 0, signed_tx L key 200 1, signed_tx L key 300 2])
      [signed_tx L key 100 0, signed_tx L key 200 1, signed_tx L key 300 2]"
    by (intro pool_of_holds insertable) (simp_all add: pool_test_txs_def)
  then show "same_sender_different_nonce_both_accepted L key"
    by (simp add: same_sender_different_nonce_both_accepted_def tests) (simp add: holds_def)
  have "holds L (pool_of L 1024 [signed_tx L key 30 2, signed_tx L key 10 0, signed_tx L key 20 1])
      [signed_tx L key 30 2, signed_tx L key 10 0, signed_tx L key 20 1]"
    by (intro pool_of_holds insertable) (simp_all add: pool_test_txs_def)
  then have "pending_from (pool_of L 1024 [signed_tx L key 30 2, signed_tx L key 10 0, signed_tx L key 20 1])
      (lib_public L key) = [signed_tx L key 10 0, signed_tx L key 20 1, signed_tx L key 30 2]"
    by (rule holds_pending_from) auto
  then show "pending_from_returns_nonce_sorted L key"
    by (simp add: pending_from_returns_nonce_sorted_def tests)
  have held: "holds L (pool_of L 1024 [signed_tx L key 1 5, signed_tx L key 1 3, signed_tx L key 1 7])
      [signed_tx L key 1 5, signed_tx L key 1 3, signed_tx L key 1 7]"
    by (intro pool_of_holds insertable) (simp_all add: pool_test_txs_def)
  have "{t. (t = signed_tx L key 1 5 \<or> t = signed_tx L key 1 3 \<or> t = signed_tx L key 1 7) \<and> tx_from t = lib_public L key} =
      {signed_tx L key 1 5, signed_tx L key 1 3, signed_tx L key 1 7}" by auto
  then have "lowest_nonce (pool_of L 1024 [signed_tx L key 1 5, signed_tx L key 1 3, signed_tx L key 1 7])
      (lib_public L key) = Some 3"
    using holds_lowest_nonce [OF held, of "lib_public L key"] by simp
  moreover have "lowest_nonce (pool_of L 1024 []) (lib_public L key) = None"
    by (simp add: pool_of_def lowest_nonce_def)
  ultimately show "lowest_nonce_tracks_min L key"
    by (simp add: lowest_nonce_tracks_min_def tests)
qed

lemma pool_capacity_test:
  assumes "ed25519_laws L" and "separate L (set (pool_test_txs L key key2 key3))"
    and "distinct (map (lib_public L) [key, key2, key3])"
  shows "capacity_is_enforced L key key2 key3"
proof -
  note insertable = pool_test_insertable [OF assms(1,2)]
  note inserted = pool_of_insert [OF insertable]
  let ?txs = "[signed_tx L key 1 0, signed_tx L key2 1 0]" and ?tx = "signed_tx L key3 1 0"
  have held: "holds L (pool_of L 2 ?txs) ?txs"
    using assms(3) by (intro pool_of_holds insertable) (simp_all add: pool_test_txs_def)
  have "insertable L [] (?txs @ [?tx])"
    using assms(3) by (intro insertable) (auto simp: pool_test_txs_def)
  then have "apart L ?txs ?tx" by simp
  then have "insert_refused L ?tx (pool_of L 2 ?txs) = Some Full"
    using held pool_get_None_iff [of L "pool_of L 2 ?txs" "tx_hash L ?tx"]
      slot_None_iff [of L "pool_of L 2 ?txs" "lib_public L key3" 0]
    by (auto simp: insert_refused_def holds_def apart_def signed_tx_valid [OF assms(1)])
  then have "mempool_insert L ?tx (pool_of L 2 ?txs) = (Err Full, pool_of L 2 ?txs)"
    by (simp add: mempool_insert_eq)
  moreover have "mempool_len (pool_of L 2 ?txs) = 2" using held by (simp add: holds_def)
  moreover have "mempool_insert L (signed_tx L key 1 0) (mempool_with_capacity 2) =
      (Ok (tx_hash L (signed_tx L key 1 0)), pool_of L 2 [signed_tx L key 1 0])"
    using inserted [of "[]" "signed_tx L key 1 0" 2] by (simp add: pool_test_txs_def pool_of_def)
  moreover have "mempool_insert L (signed_tx L key2 1 0) (pool_of L 2 [signed_tx L key 1 0]) =
      (Ok (tx_hash L (signed_tx L key2 1 0)), pool_of L 2 ?txs)"
    using inserted [of "[signed_tx L key 1 0]" "signed_tx L key2 1 0" 2] assms(3) by (simp add: pool_test_txs_def)
  ultimately show ?thesis by (simp add: capacity_is_enforced_def)
qed

lemma holds_remove:
  assumes "holds L m (t # txs)" and "separate L (set (t # txs))" and "t \<notin> set txs"
  shows "mempool_remove (tx_hash L t) m = (Some t, snd (mempool_remove (tx_hash L t) m))"
    and "holds L (snd (mempool_remove (tx_hash L t) m)) txs"
proof -
  have ok: "mempool_ok L m" using assms(1) by (simp add: holds_def)
  have get: "mempool_get m (tx_hash L t) = Some t"
    using assms(1) pool_txs_iff [OF ok, of t] by (simp add: holds_def)
  then show "mempool_remove (tx_hash L t) m = (Some t, snd (mempool_remove (tx_hash L t) m))"
    by (simp add: prod_eq_iff)
  have "{u \<in> pool_txs m. tx_hash L u \<noteq> tx_hash L t} = set txs"
    using assms separateD [OF assms(2), of _ t] by (auto simp: holds_def)
  then show "holds L (snd (mempool_remove (tx_hash L t) m)) txs"
    using assms(1) mempool_len_remove [OF get]
    by (simp add: holds_def mempool_ok_remove pool_txs_remove [OF ok])
qed

lemma pool_removal_tests:
  assumes "ed25519_laws L" and "separate L (set (pool_test_txs L key key2 key3))"
  shows "remove_keeps_indexes_consistent L key" and "remove_missing_returns_none"
proof -
  note insertable = pool_test_insertable [OF assms]
  note inserted = pool_of_insert [OF insertable]
  let ?t = "signed_tx L key 10 0" and ?u = "signed_tx L key 20 1"
  let ?m = "pool_of L 1024 [?t, ?u]"
  define m1 where "m1 = snd (mempool_remove (tx_hash L ?t) ?m)"
  define m2 where "m2 = snd (mempool_remove (tx_hash L ?u) m1)"
  have held: "holds L ?m [?t, ?u]"
    by (intro pool_of_holds insertable) (simp_all add: pool_test_txs_def)
  have "separate L (set [?t, ?u])" by (rule separate_mono [OF assms(2)]) (simp add: pool_test_txs_def)
  from holds_remove [OF held this]
  have one: "mempool_remove (tx_hash L ?t) ?m = (Some ?t, m1)" and held1: "holds L m1 [?u]"
    by (simp_all add: m1_def)
  have "separate L (set [?u])" by (simp add: separate_def)
  from holds_remove [OF held1 this]
  have two: "mempool_remove (tx_hash L ?u) m1 = (Some ?u, m2)" and held2: "holds L m2 []"
    by (simp_all add: m2_def)
  have "{t. t = ?u \<and> tx_from t = lib_public L key} = {?u}" by auto
  then have "lowest_nonce m1 (lib_public L key) = Some 1"
    using holds_lowest_nonce [OF held1, of "lib_public L key"] by simp
  moreover have "lowest_nonce m2 (lib_public L key) = None" "mempool_is_empty m2"
    using holds_lowest_nonce [OF held2] held2 by (simp_all add: holds_def mempool_is_empty_iff)
  moreover have "mempool_insert L ?t mempool_new = (Ok (tx_hash L ?t), pool_of L 1024 [?t])"
    unfolding mempool_new_eq [of L] by (subst inserted) (simp_all add: pool_test_txs_def)
  moreover have "mempool_insert L ?u (pool_of L 1024 [?t]) = (Ok (tx_hash L ?u), ?m)"
    by (subst inserted) (simp_all add: pool_test_txs_def)
  ultimately show "remove_keeps_indexes_consistent L key"
    using one two by (simp add: remove_keeps_indexes_consistent_def)
  show "remove_missing_returns_none"
    by (simp add: remove_missing_returns_none_def mempool_new_def mempool_with_capacity_def mempool_get_def)
qed


section \<open>Properties\<close>

text \<open>
  C39: the unit tests of the pool pass, whatever keys they draw, as long as the keys of one test
  have different addresses and no two of the transactions the tests sign have the same hash.
\<close>

theorem pool_tests_pass:
  assumes "ed25519_laws L" and "codec_laws L"
    and "no_collision L (tx_encode L ` set (pool_test_txs L key key2 key3))"
    and "distinct (map (lib_public L) [key, key2, key3])"
  shows "insert_signed_tx_succeeds L key \<and> pool_unsigned_tx_is_rejected L key \<and>
    zero_amount_is_rejected L key \<and> duplicate_hash_is_rejected L key \<and>
    same_sender_same_nonce_is_rejected L key \<and> same_sender_different_nonce_both_accepted L key \<and>
    pending_from_returns_nonce_sorted L key \<and> lowest_nonce_tracks_min L key \<and>
    capacity_is_enforced L key key2 key3 \<and> remove_keeps_indexes_consistent L key \<and>
    remove_missing_returns_none"
proof -
  have "separate L (set (pool_test_txs L key key2 key3))"
    by (rule separate_no_collision [OF assms(2,3)])
  note separate = assms(1) this
  show ?thesis
    by (intro conjI pool_rejection_tests [OF separate] pool_order_tests [OF separate]
        pool_capacity_test [OF separate assms(4)] pool_removal_tests [OF separate])
qed


subsection \<open>Witness\<close>

lemma tx_encode_signed_tx:
  "tx_encode sample_libs (signed_tx sample_libs (repeat_byte k) a n) = sample_tx_bytes k 9 a n"
  by (simp add: signed_tx_def tx_encode_sample)

lemma sample_pool_txs_distinct:
  "distinct (map sample_mix
     [sample_tx_bytes 7 9 100 0, sample_tx_bytes 7 9 200 0, sample_tx_bytes 7 9 200 1, sample_tx_bytes 7 9 300 2,
      sample_tx_bytes 7 9 30 2, sample_tx_bytes 7 9 10 0, sample_tx_bytes 7 9 20 1, sample_tx_bytes 7 9 1 5,
      sample_tx_bytes 7 9 1 3, sample_tx_bytes 7 9 1 7, sample_tx_bytes 7 9 1 0, sample_tx_bytes 8 9 1 0,
      sample_tx_bytes 6 9 1 0])"
  by code_simp

theorem pool_tests_pass_witness:
  "pending_from_returns_nonce_sorted sample_libs (repeat_byte 7) \<and>
   capacity_is_enforced sample_libs (repeat_byte 7) (repeat_byte 8) (repeat_byte 6) \<and>
   remove_keeps_indexes_consistent sample_libs (repeat_byte 7)"
proof -
  let ?key = "repeat_byte 7 :: address" and ?key2 = "repeat_byte 8 :: address" and ?key3 = "repeat_byte 6 :: address"
  have "map (tx_encode sample_libs) (pool_test_txs sample_libs ?key ?key2 ?key3) =
     [sample_tx_bytes 7 9 100 0, sample_tx_bytes 7 9 200 0, sample_tx_bytes 7 9 200 1, sample_tx_bytes 7 9 300 2,
      sample_tx_bytes 7 9 30 2, sample_tx_bytes 7 9 10 0, sample_tx_bytes 7 9 20 1, sample_tx_bytes 7 9 1 5,
      sample_tx_bytes 7 9 1 3, sample_tx_bytes 7 9 1 7, sample_tx_bytes 7 9 1 0, sample_tx_bytes 8 9 1 0,
      sample_tx_bytes 6 9 1 0]" (is "?encoded = ?bytes")
    by (simp add: pool_test_txs_def tx_encode_signed_tx)
  moreover have "no_collision sample_libs (set ?bytes)"
    by (rule no_collision_list) (use sample_pool_txs_distinct in simp)
  ultimately have "no_collision sample_libs (set ?encoded)" by simp
  then show ?thesis
    using pool_tests_pass [OF sample_ed25519_laws sample_codec_laws, of ?key ?key2 ?key3] by simp
qed

end
