(* ===== verification/Unit_Tests_Builder.thy ===== *)
theory Unit_Tests_Builder
  imports Unit_Tests_Mempool
begin

text \<open>
  The unit tests of \<open>crates/consensus/src/builder.rs\<close> as executable predicates: for every key a
  test may draw, every order in which the hash map yields the senders, and both build profiles.
\<close>

section \<open>Tests\<close>

text \<open>A run of \<open>pool.insert(..).unwrap()\<close>, then the rest of the test.\<close>

fun insert_all :: "('sk, 'vk) libs \<Rightarrow> transaction list \<Rightarrow> mempool \<Rightarrow> (mempool \<Rightarrow> bool) \<Rightarrow> bool" where
  "insert_all L [] pool k = k pool"
| "insert_all L (tx # txs) pool k = unwrap (mempool_insert L tx pool) (\<lambda>_ pool. insert_all L txs pool k)"

definition builder_params :: "block \<Rightarrow> 'sk \<Rightarrow> nat \<Rightarrow> 'sk build_params" where
  "builder_params parent proposer max_txs =
     \<lparr>bp_parent = parent, bp_timestamp = 1, bp_proposer = proposer, bp_max_txs = max_txs\<rparr>"

text \<open>\<open>build_block(..).unwrap()\<close>, then the rest of the test.\<close>

definition with_built ::
  "profile \<Rightarrow> ('sk, 'vk) libs \<Rightarrow> address iter_order \<Rightarrow> 'sk \<Rightarrow> nat \<Rightarrow> mempool \<Rightarrow> state_store \<Rightarrow>
     (signed_block \<Rightarrow> bool) \<Rightarrow> bool" where
  "with_built pr L it proposer max_txs pool state k \<longleftrightarrow>
     (case build_block pr L it (builder_params genesis proposer max_txs) pool state of
        Ok sb \<Rightarrow> k sb | _ \<Rightarrow> False)"

definition empty_mempool_yields_empty_block ::
  "profile \<Rightarrow> ('sk, 'vk) libs \<Rightarrow> address iter_order \<Rightarrow> 'sk \<Rightarrow> bool" where
  "empty_mempool_yields_empty_block pr L it proposer \<longleftrightarrow>
     with_built pr L it proposer 100 mempool_new state_new (\<lambda>sb.
       blk_transactions (sb_block sb) = [] \<and> hd_height (blk_header (sb_block sb)) = 1 \<and>
       hd_parent_hash (blk_header (sb_block sb)) = block_hash L genesis \<and> sum_ok (verify_block L sb))"

definition includes_valid_tx_from_single_sender ::
  "profile \<Rightarrow> ('sk, 'vk) libs \<Rightarrow> address iter_order \<Rightarrow> 'sk \<Rightarrow> 'sk \<Rightarrow> bool" where
  "includes_valid_tx_from_single_sender pr L it proposer alice \<longleftrightarrow>
     unwrap (credit pr (lib_public L alice) 100 state_new) (\<lambda>_ state.
       insert_all L [tx_signed L alice (repeat_byte 9) 30 0] mempool_new (\<lambda>pool.
         with_built pr L it proposer 100 pool state (\<lambda>sb.
           length (blk_transactions (sb_block sb)) = 1 \<and> tx_nonce (blk_transactions (sb_block sb) ! 0) = 0 \<and>
           sum_ok (verify_block L sb))))"

definition sequential_nonces_are_packed_in_order ::
  "profile \<Rightarrow> ('sk, 'vk) libs \<Rightarrow> address iter_order \<Rightarrow> 'sk \<Rightarrow> 'sk \<Rightarrow> bool" where
  "sequential_nonces_are_packed_in_order pr L it proposer alice \<longleftrightarrow>
     unwrap (credit pr (lib_public L alice) 100 state_new) (\<lambda>_ state.
       insert_all L [tx_signed L alice (repeat_byte 9) 10 0, tx_signed L alice (repeat_byte 9) 10 1,
                     tx_signed L alice (repeat_byte 9) 10 2] mempool_new (\<lambda>pool.
         with_built pr L it proposer 100 pool state (\<lambda>sb.
           map tx_nonce (blk_transactions (sb_block sb)) = [0, 1, 2])))"

definition nonce_gap_stops_sender_early ::
  "profile \<Rightarrow> ('sk, 'vk) libs \<Rightarrow> address iter_order \<Rightarrow> 'sk \<Rightarrow> 'sk \<Rightarrow> bool" where
  "nonce_gap_stops_sender_early pr L it proposer alice \<longleftrightarrow>
     unwrap (credit pr (lib_public L alice) 100 state_new) (\<lambda>_ state.
       insert_all L [tx_signed L alice (repeat_byte 9) 10 1, tx_signed L alice (repeat_byte 9) 10 2] mempool_new (\<lambda>pool.
         with_built pr L it proposer 100 pool state (\<lambda>sb. blk_transactions (sb_block sb) = [])))"

definition respects_max_txs ::
  "profile \<Rightarrow> ('sk, 'vk) libs \<Rightarrow> address iter_order \<Rightarrow> 'sk \<Rightarrow> 'sk \<Rightarrow> bool" where
  "respects_max_txs pr L it proposer alice \<longleftrightarrow>
     unwrap (credit pr (lib_public L alice) 1000 state_new) (\<lambda>_ state.
       insert_all L (map (\<lambda>n. tx_signed L alice (repeat_byte 9) 1 (of_nat n)) [0..<5]) mempool_new (\<lambda>pool.
         with_built pr L it proposer 3 pool state (\<lambda>sb. length (blk_transactions (sb_block sb)) = 3)))"

definition skips_sender_with_insufficient_balance ::
  "profile \<Rightarrow> ('sk, 'vk) libs \<Rightarrow> address iter_order \<Rightarrow> 'sk \<Rightarrow> 'sk \<Rightarrow> 'sk \<Rightarrow> bool" where
  "skips_sender_with_insufficient_balance pr L it proposer alice bob_key \<longleftrightarrow>
     unwrap (credit pr (lib_public L alice) 100 state_new) (\<lambda>_ state.
       insert_all L [tx_signed L alice (repeat_byte 9) 30 0, tx_signed L bob_key (repeat_byte 9) 30 0] mempool_new (\<lambda>pool.
         with_built pr L it proposer 100 pool state (\<lambda>sb.
           length (blk_transactions (sb_block sb)) = 1 \<and>
           tx_from (blk_transactions (sb_block sb) ! 0) = lib_public L alice)))"

definition produced_block_applies_cleanly_against_state ::
  "profile \<Rightarrow> ('sk, 'vk) libs \<Rightarrow> address iter_order \<Rightarrow> 'sk \<Rightarrow> 'sk \<Rightarrow> bool" where
  "produced_block_applies_cleanly_against_state pr L it proposer alice \<longleftrightarrow>
     (let bob = repeat_byte 9
      in unwrap (credit pr (lib_public L alice) 100 state_new) (\<lambda>_ state.
           insert_all L [tx_signed L alice bob 30 0, tx_signed L alice bob 20 1] mempool_new (\<lambda>pool.
             with_built pr L it proposer 100 pool state (\<lambda>sb.
               unwrap (apply_block pr L (sb_block sb) state) (\<lambda>_ state.
                 get_balance state (lib_public L alice) = 50 \<and> get_balance state bob = 50 \<and>
                 get_nonce state (lib_public L alice) = 2)))))"

definition signed_block_uses_proposer_pubkey ::
  "profile \<Rightarrow> ('sk, 'vk) libs \<Rightarrow> address iter_order \<Rightarrow> 'sk \<Rightarrow> bool" where
  "signed_block_uses_proposer_pubkey pr L it proposer \<longleftrightarrow>
     with_built pr L it proposer 0 mempool_new state_new (\<lambda>sb.
       sb_proposer sb = lib_public L proposer \<and> sum_ok (verify_block L sb))"


section \<open>Lemmas\<close>

lemma distinct_set_pair:
  assumes "distinct xs" and "set xs = {a, b}" and "a \<noteq> b"
  shows "xs = [a, b] \<or> xs = [b, a]"
proof -
  have "length xs = 2" using assms distinct_card [OF assms(1)] by simp
  then obtain x y where "xs = [x, y]" by (auto simp: numeral_2_eq_2 length_Suc_conv)
  then show ?thesis using assms(2,3) by (auto simp: doubleton_eq_iff)
qed

lemma insert_all_pool_of:
  assumes "insertable L [] (pre @ txs)" and "length (pre @ txs) \<le> c"
  shows "insert_all L txs (pool_of L c pre) k = k (pool_of L c (pre @ txs))"
  using assms
proof (induction txs arbitrary: pre)
  case (Cons tx txs)
  have "mempool_insert L tx (pool_of L c pre) = (Ok (tx_hash L tx), pool_of L c (pre @ [tx]))"
    using Cons.prems by (intro pool_of_insert) (simp_all add: insertable_append)
  then show ?case using Cons.IH [of "pre @ [tx]"] Cons.prems by simp
qed simp

lemma insert_all_new:
  assumes "insertable L [] txs" and "length txs \<le> 1024"
  shows "insert_all L txs mempool_new k = k (pool_of L 1024 txs)"
  using insert_all_pool_of [of L "[]" txs 1024 k] assms by (simp add: mempool_new_eq [of L])

text \<open>What is built on the genesis block from a selection.\<close>

definition built :: "('sk, 'vk) libs \<Rightarrow> 'sk \<Rightarrow> u64 \<Rightarrow> transaction list \<Rightarrow> signed_block" where
  "built L proposer time txs =
     (let b = \<lparr>blk_header = \<lparr>hd_height = 1, hd_parent_hash = block_hash L genesis, hd_tx_root = tx_root L txs,
                 hd_timestamp = time, hd_proposer = lib_public L proposer\<rparr>, blk_transactions = txs\<rparr>
      in \<lparr>sb_block = b, sb_signature = lib_sign L proposer (signing_bytes L b)\<rparr>)"

lemma built_simps [simp]:
  "blk_transactions (sb_block (built L proposer time txs)) = txs"
  "hd_height (blk_header (sb_block (built L proposer time txs))) = 1"
  "hd_parent_hash (blk_header (sb_block (built L proposer time txs))) = block_hash L genesis"
  "sb_proposer (built L proposer time txs) = lib_public L proposer"
  by (simp_all add: built_def Let_def sb_proposer_def)

lemma built_signed: "sign_block L (sb_block (built L proposer time txs)) proposer = Inr (built L proposer time txs)"
  by (simp add: sign_block_def built_def Let_def)

lemma built_verifies: "ed25519_laws L \<Longrightarrow> verify_block L (built L proposer time txs) = Inr ()"
  by (rule sign_block_verifies [OF _ built_signed])

lemma build_on_genesis:
  assumes "select_senders pr L n m (senders it m) s [] = Some (sh, txs)"
  shows "build_block pr L it \<lparr>bp_parent = genesis, bp_timestamp = time, bp_proposer = proposer, bp_max_txs = n\<rparr> m s =
    Ok (built L proposer time txs)"
proof -
  have "hd_height (blk_header genesis) = 0" by (simp add: genesis_def)
  moreover have "sb_block (built L proposer time txs) =
     \<lparr>blk_header = \<lparr>hd_height = 1, hd_parent_hash = block_hash L genesis, hd_tx_root = tx_root L txs,
        hd_timestamp = time, hd_proposer = lib_public L proposer\<rparr>, blk_transactions = txs\<rparr>"
    by (simp add: built_def Let_def)
  ultimately show ?thesis
    using assms built_signed [of L proposer time txs]
    by (simp add: build_block_def block_new_eq add_u64_one)
qed

lemma with_built_eq:
  assumes "select_senders pr L n m (senders it m) s [] = Some (sh, txs)"
  shows "with_built pr L it proposer n m s k = k (built L proposer 1 txs)"
  by (simp add: with_built_def builder_params_def build_on_genesis [OF assms])

text \<open>One sender with this queue.\<close>

lemma senders_single:
  assumes "holds L m txs" and "key_order it" and "txs \<noteq> []" and "\<And>t. t \<in> set txs \<Longrightarrow> tx_from t = a"
  shows "senders it m = [a]"
proof (rule distinct_set_single)
  show "distinct (senders it m)" using assms(2) by (simp add: senders_def key_order_def)
  show "set (senders it m) = {a}"
    using assms set_senders [of L m it] by (cases txs) (auto simp: holds_def)
qed

lemma with_built_single:
  assumes "insertable L [] txs" and "length txs \<le> 1024" and "key_order it" and "txs \<noteq> []"
    and "\<And>t. t \<in> set txs \<Longrightarrow> tx_from t = a" and "distinct (map tx_nonce txs)" and "sorted (map tx_nonce txs)"
    and "select_from pr L n txs s [] = Some (stop, sh, sel)"
  shows "insert_all L txs mempool_new (\<lambda>pool. with_built pr L it proposer n pool s k) = k (built L proposer 1 sel)"
proof -
  have held: "holds L (pool_of L 1024 txs) txs" by (rule pool_of_holds [OF assms(1,2)])
  have "pending_from (pool_of L 1024 txs) a = txs"
    by (rule holds_pending_from [OF held assms(6,7)]) (use assms(5) in auto)
  moreover have "senders it (pool_of L 1024 txs) = [a]" by (rule senders_single [OF held assms(3-5)])
  ultimately have "select_senders pr L n (pool_of L 1024 txs) (senders it (pool_of L 1024 txs)) s [] = Some (sh, sel)"
    using assms(8) by (cases stop) simp_all
  from with_built_eq [OF this] show ?thesis by (simp add: insert_all_new [OF assms(1,2)])
qed

lemma select_from_signed:
  assumes "ed25519_laws L" and "nonce \<noteq> u64_max"
  shows "select_from pr L n (tx_signed L sk to amount nonce # txs) s sel =
    (if n \<le> length sel then Some (True, s, sel)
     else if tx_admissible L (tx_signed L sk to amount nonce) s
     then select_from pr L n txs (transfer (tx_signed L sk to amount nonce) s) (sel @ [tx_signed L sk to amount nonce])
     else Some (False, s, sel))"
proof (cases "tx_admissible L (tx_signed L sk to amount nonce) s")
  case True
  then show ?thesis by (simp add: apply_signed [OF assms(1) _ assms(2)])
next
  case False
  then obtain e where "apply_transaction pr L (tx_signed L sk to amount nonce) s = (Err e, s)"
    using reject_signed [OF assms(1) False] by blast
  then show ?thesis using False by simp
qed

text \<open>The transactions of these tests.\<close>

definition builder_test_txs :: "('sk, 'vk) libs \<Rightarrow> 'sk \<Rightarrow> 'sk \<Rightarrow> transaction list" where
  "builder_test_txs L alice bob_key =
     [tx_signed L alice (repeat_byte 9) 30 0, tx_signed L alice (repeat_byte 9) 20 1,
      tx_signed L alice (repeat_byte 9) 10 0, tx_signed L alice (repeat_byte 9) 10 1,
      tx_signed L alice (repeat_byte 9) 10 2, tx_signed L bob_key (repeat_byte 9) 30 0] @
     map (\<lambda>n. tx_signed L alice (repeat_byte 9) 1 (of_nat n)) [0..<5]"

lemma builder_test_insertable:
  assumes "ed25519_laws L" and "separate L (set (builder_test_txs L alice bob_key))"
    and "set txs \<subseteq> set (builder_test_txs L alice bob_key)"
    and "distinct (map (\<lambda>t. (tx_from t, tx_nonce t)) txs)"
  shows "insertable L [] txs"
proof (rule insertable_separate)
  show "separate L (set ([] @ txs))" using separate_mono [OF assms(2,3)] by simp
  show "verify_signature L t = Inr () \<and> tx_amount t \<noteq> 0" if "t \<in> set txs" for t
    using assms(3) that by (auto simp: builder_test_txs_def tx_signed_facts [OF assms(1)])
qed (use assms(4) in simp)

lemma builder_empty_tests:
  assumes "ed25519_laws L" and "key_order it"
  shows "empty_mempool_yields_empty_block pr L it proposer" and "signed_block_uses_proposer_pubkey pr L it proposer"
proof -
  have "mempool_ok L mempool_new" "pool_txs mempool_new = {}"
    using holds_empty [of L 1024] by (simp_all add: mempool_new_def DEFAULT_CAPACITY_def holds_def)
  then have "set (senders it mempool_new) = {}" using set_senders [OF _ assms(2), of L mempool_new] by simp
  then have "with_built pr L it proposer n mempool_new s k = k (built L proposer 1 [])" for n s k
    by (intro with_built_eq) simp
  then show "empty_mempool_yields_empty_block pr L it proposer" "signed_block_uses_proposer_pubkey pr L it proposer"
    by (simp_all add: empty_mempool_yields_empty_block_def signed_block_uses_proposer_pubkey_def
        built_verifies [OF assms(1)])
qed

lemma builder_single_tests:
  assumes "ed25519_laws L" and "separate L (set (builder_test_txs L alice bob_key))" and "key_order it"
    and "lib_public L alice \<noteq> repeat_byte 9"
  shows "includes_valid_tx_from_single_sender pr L it proposer alice"
    and "sequential_nonces_are_packed_in_order pr L it proposer alice"
    and "nonce_gap_stops_sender_early pr L it proposer alice"
    and "respects_max_txs pr L it proposer alice"
    and "produced_block_applies_cleanly_against_state pr L it proposer alice"
proof -
  note sender = assms(4) assms(4) [symmetric]
  note single = with_built_single [OF builder_test_insertable [OF assms(1,2)] _ assms(3), where a = "lib_public L alice"]
  note selecting = select_from_signed [OF assms(1)] signed_admissible [OF assms(1)] account_views
  have range5: "map (\<lambda>n. tx_signed L alice (repeat_byte 9) 1 (of_nat n)) [0..<5] =
      [tx_signed L alice (repeat_byte 9) 1 0, tx_signed L alice (repeat_byte 9) 1 1, tx_signed L alice (repeat_byte 9) 1 2,
       tx_signed L alice (repeat_byte 9) 1 3, tx_signed L alice (repeat_byte 9) 1 4]"
    by (simp add: upt_rec)
  note txs = builder_test_txs_def range5
  let ?s = "funded (lib_public L alice) 100 state_new"
  let ?tx = "tx_signed L alice (repeat_byte 9)"
  have sel: "select_from pr L 100 [?tx 30 0] ?s [] = Some (False, transfer (?tx 30 0) ?s, [?tx 30 0])"
    using sender by (simp add: selecting del: select_from.simps(2))
  show "includes_valid_tx_from_single_sender pr L it proposer alice"
    unfolding includes_valid_tx_from_single_sender_def credit_new unwrap_simps
    by (subst single [OF _ _ _ _ _ _ _ sel]) (auto simp: txs built_verifies [OF assms(1)])

  have sel: "select_from pr L 100 [?tx 10 0, ?tx 10 1, ?tx 10 2] ?s [] =
      Some (False, fold transfer [?tx 10 0, ?tx 10 1, ?tx 10 2] ?s, [?tx 10 0, ?tx 10 1, ?tx 10 2])"
    using sender by (simp add: selecting del: select_from.simps(2))
  show "sequential_nonces_are_packed_in_order pr L it proposer alice"
    unfolding sequential_nonces_are_packed_in_order_def credit_new unwrap_simps
    by (subst single [OF _ _ _ _ _ _ _ sel]) (auto simp: txs)
  have sel: "select_from pr L 100 [?tx 10 1, ?tx 10 2] ?s [] = Some (False, ?s, [])"
    using sender by (simp add: selecting del: select_from.simps(2))
  show "nonce_gap_stops_sender_early pr L it proposer alice"
    unfolding nonce_gap_stops_sender_early_def credit_new unwrap_simps
    by (subst single [OF _ _ _ _ _ _ _ sel]) (auto simp: txs)
  have sel: "select_from pr L 3 [?tx 1 0, ?tx 1 1, ?tx 1 2, ?tx 1 3, ?tx 1 4] (funded (lib_public L alice) 1000 state_new) [] =
      Some (True, fold transfer [?tx 1 0, ?tx 1 1, ?tx 1 2] (funded (lib_public L alice) 1000 state_new),
        [?tx 1 0, ?tx 1 1, ?tx 1 2])"
    using sender by (simp add: selecting del: select_from.simps(2))
  show "respects_max_txs pr L it proposer alice"
    unfolding respects_max_txs_def range5 credit_new unwrap_simps
    by (subst single [OF _ _ _ _ _ _ _ sel]) (auto simp: txs)
  have sel: "select_from pr L 100 [?tx 30 0, ?tx 20 1] ?s [] =
      Some (False, fold transfer [?tx 30 0, ?tx 20 1] ?s, [?tx 30 0, ?tx 20 1])"
    using sender by (simp add: selecting del: select_from.simps(2))
  moreover have "apply_block pr L (sb_block (built L proposer 1 [?tx 30 0, ?tx 20 1])) ?s =
      (Ok (), fold transfer [?tx 30 0, ?tx 20 1] ?s)"
    using sender by (simp add: apply_block_Ok_iff apply_Cons_signed [OF assms(1)] signed_admissible [OF assms(1)] account_views)
  ultimately show "produced_block_applies_cleanly_against_state pr L it proposer alice"
    unfolding produced_block_applies_cleanly_against_state_def credit_new unwrap_simps Let_def
    by (subst single [OF _ _ _ _ _ _ _ sel]) (use sender in \<open>auto simp: txs account_views\<close>)
qed

lemma holds_pending_single:
  assumes "holds L m txs" and "{u \<in> set txs. tx_from u = tx_from t} = {t}"
  shows "pending_from m (tx_from t) = [t]"
  by (rule holds_pending_from [OF assms(1)]) (use assms(2) in simp_all)

lemma builder_two_senders_test:
  assumes "ed25519_laws L" and "separate L (set (builder_test_txs L alice bob_key))" and "key_order it"
    and "distinct [lib_public L alice, lib_public L bob_key, repeat_byte 9]"
  shows "skips_sender_with_insufficient_balance pr L it proposer alice bob_key"
proof -
  let ?t = "tx_signed L alice (repeat_byte 9) 30 0" and ?u = "tx_signed L bob_key (repeat_byte 9) 30 0"
  let ?m = "pool_of L 1024 [?t, ?u]" and ?s = "funded (lib_public L alice) 100 state_new"
  note selecting = select_from_signed [OF assms(1)] signed_admissible [OF assms(1)] account_views
  have sender: "lib_public L alice \<noteq> lib_public L bob_key" "lib_public L bob_key \<noteq> lib_public L alice"
    "lib_public L alice \<noteq> repeat_byte 9" "repeat_byte 9 \<noteq> lib_public L alice"
    "lib_public L bob_key \<noteq> repeat_byte 9" "repeat_byte 9 \<noteq> lib_public L bob_key"
    using assms(4) by auto
  have insertable: "insertable L [] [?t, ?u]"
    using sender by (intro builder_test_insertable [OF assms(1,2)]) (simp_all add: builder_test_txs_def)
  have held: "holds L ?m [?t, ?u]" by (rule pool_of_holds [OF insertable]) simp
  have queues: "pending_from ?m (lib_public L alice) = [?t]" "pending_from ?m (lib_public L bob_key) = [?u]"
  proof -
    have "{u \<in> set [?t, ?u]. tx_from u = tx_from ?t} = {?t}" "{u \<in> set [?t, ?u]. tx_from u = tx_from ?u} = {?u}"
      using sender by auto
    from this [THEN holds_pending_single [OF held]]
    show "pending_from ?m (lib_public L alice) = [?t]" "pending_from ?m (lib_public L bob_key) = [?u]"
      by simp_all
  qed
  have "distinct (senders it ?m)" using assms(3) by (simp add: senders_def key_order_def)
  moreover have "set (senders it ?m) = {lib_public L alice, lib_public L bob_key}"
    using held set_senders [of L ?m it] assms(3) by (simp add: holds_def)
  ultimately have "senders it ?m = [lib_public L alice, lib_public L bob_key] \<or>
      senders it ?m = [lib_public L bob_key, lib_public L alice]"
    using sender(1) by (rule distinct_set_pair)
  moreover have "select_from pr L 100 [?u] s sel = Some (False, s, sel)"
    if "length sel < 100" "get_balance s (lib_public L bob_key) = 0" for s sel
    using that by (simp add: selecting del: select_from.simps(2))
  moreover have "select_from pr L 100 [?t] ?s [] = Some (False, transfer ?t ?s, [?t])"
    using sender by (simp add: selecting del: select_from.simps(2))
  ultimately have "select_senders pr L 100 ?m (senders it ?m) ?s [] = Some (transfer ?t ?s, [?t])"
    using sender by (auto simp: queues account_views)
  from with_built_eq [OF this] show ?thesis
    unfolding skips_sender_with_insufficient_balance_def credit_new unwrap_simps
    by (subst insert_all_new [OF insertable]) simp_all
qed


section \<open>All of them\<close>

lemma builder_tests_pass:
  assumes "ed25519_laws L" and "codec_laws L" and "key_order it"
    and "no_collision L (tx_encode L ` set (builder_test_txs L alice bob_key))"
    and "distinct [lib_public L alice, lib_public L bob_key, repeat_byte 9]"
  shows "empty_mempool_yields_empty_block pr L it proposer \<and>
    includes_valid_tx_from_single_sender pr L it proposer alice \<and>
    sequential_nonces_are_packed_in_order pr L it proposer alice \<and>
    nonce_gap_stops_sender_early pr L it proposer alice \<and> respects_max_txs pr L it proposer alice \<and>
    skips_sender_with_insufficient_balance pr L it proposer alice bob_key \<and>
    produced_block_applies_cleanly_against_state pr L it proposer alice \<and>
    signed_block_uses_proposer_pubkey pr L it proposer"
proof -
  have "separate L (set (builder_test_txs L alice bob_key))" by (rule separate_no_collision [OF assms(2,4)])
  note separate = assms(1) this assms(3)
  have "lib_public L alice \<noteq> repeat_byte 9" using assms(5) by simp
  then show ?thesis
    by (intro conjI builder_empty_tests [OF assms(1,3)] builder_single_tests [OF separate]
        builder_two_senders_test [OF separate assms(5)])
qed


text \<open>The transactions of the tests, signed by the sample libraries.\<close>

lemma sample_builder_txs_distinct:
  "distinct (map sample_mix
     [sample_tx_bytes 7 9 30 0, sample_tx_bytes 7 9 20 1, sample_tx_bytes 7 9 10 0, sample_tx_bytes 7 9 10 1,
      sample_tx_bytes 7 9 10 2, sample_tx_bytes 8 9 30 0, sample_tx_bytes 7 9 1 0, sample_tx_bytes 7 9 1 1,
      sample_tx_bytes 7 9 1 2, sample_tx_bytes 7 9 1 3, sample_tx_bytes 7 9 1 4])"
  by code_simp

lemma sample_builder_txs_ok:
  "no_collision sample_libs (tx_encode sample_libs ` set (builder_test_txs sample_libs (repeat_byte 7) (repeat_byte 8)))"
proof -
  let ?key = "repeat_byte 7 :: address" and ?key2 = "repeat_byte 8 :: address"
  have "map (tx_encode sample_libs) (builder_test_txs sample_libs ?key ?key2) =
     [sample_tx_bytes 7 9 30 0, sample_tx_bytes 7 9 20 1, sample_tx_bytes 7 9 10 0, sample_tx_bytes 7 9 10 1,
      sample_tx_bytes 7 9 10 2, sample_tx_bytes 8 9 30 0, sample_tx_bytes 7 9 1 0, sample_tx_bytes 7 9 1 1,
      sample_tx_bytes 7 9 1 2, sample_tx_bytes 7 9 1 3, sample_tx_bytes 7 9 1 4]" (is "?encoded = ?bytes")
    by (simp add: builder_test_txs_def tx_encode_sample upt_rec)
  moreover have "no_collision sample_libs (set ?bytes)"
    by (rule no_collision_list) (use sample_builder_txs_distinct in simp)
  ultimately have "no_collision sample_libs (set ?encoded)" by simp
  then show ?thesis by simp
qed

end
