(* ===== verification/Unit_Tests_Actor.thy ===== *)
theory Unit_Tests_Actor
  imports Unit_Tests_Builder Node
begin

text \<open>
  The unit tests of \<open>crates/consensus/src/app\<close> as executable predicates: of the application actor, for every key a test may
  draw, every reading of the clock and both build profiles, and of the construction of the scheme.
\<close>

section \<open>Tests\<close>

text \<open>The accessors compiled for the tests only.\<close>

definition app_balance :: "'sk application \<Rightarrow> address \<Rightarrow> u64" where
  "app_balance app account = get_balance (app_state app) account"

definition app_tip_height :: "'sk application \<Rightarrow> u64" where
  "app_tip_height app =
     (case map_option (\<lambda>b. hd_height (blk_header b)) (tip (app_blocks app)) of Some h \<Rightarrow> h | None \<Rightarrow> 0)"

definition pending_tx_count :: "'sk application \<Rightarrow> nat" where
  "pending_tx_count app = mempool_len (app_mempool app)"

text \<open>The application of a test, with the genesis block finalized.\<close>

definition test_app :: "('sk, 'vk) libs \<Rightarrow> 'sk \<Rightarrow> state_store \<Rightarrow> mempool \<Rightarrow> 'sk application" where
  "test_app L signer state pool =
     app_new L state (block_store_insert L genesis block_store_new) pool
       \<lparr>cfg_mailbox_size = 8, cfg_signer = signer, cfg_genesis = genesis\<rparr>"

definition propose_then_finalize_advances_chain ::
  "profile \<Rightarrow> ('sk, 'vk) libs \<Rightarrow> address iter_order \<Rightarrow> u64 option \<Rightarrow> 'sk \<Rightarrow> 'sk \<Rightarrow> bool" where
  "propose_then_finalize_advances_chain pr L it clock alice signer \<longleftrightarrow>
     (let bob = repeat_byte 9
      in unwrap (credit pr (lib_public L alice) 1000 state_new) (\<lambda>_ state.
           insert_all L [tx_signed L alice bob 300 0] mempool_new (\<lambda>pool.
             let app = test_app L signer state pool; genesis_digest = block_hash L genesis
             in app_tip_height app = 0 \<and> app_balance app (lib_public L alice) = 1000 \<and>
                pending_tx_count app = 1 \<and>
                unwrap (propose pr L it clock genesis_digest app) (\<lambda>digest app.
                  verify pr L genesis_digest digest app = Some True \<and>
                  unwrap (finalize pr L digest app) (\<lambda>_ app.
                    app_tip_height app = 1 \<and> app_balance app (lib_public L alice) = 700 \<and>
                    app_balance app bob = 300 \<and> pending_tx_count app = 0)))))"

definition verify_rejects_unknown_digest :: "profile \<Rightarrow> ('sk, 'vk) libs \<Rightarrow> 'sk \<Rightarrow> bool" where
  "verify_rejects_unknown_digest pr L signer \<longleftrightarrow>
     verify pr L (block_hash L genesis) zero_hash (test_app L signer state_new mempool_new) = Some False"

definition finalize_unknown_digest_is_error :: "profile \<Rightarrow> ('sk, 'vk) libs \<Rightarrow> 'sk \<Rightarrow> bool" where
  "finalize_unknown_digest_is_error pr L signer \<longleftrightarrow>
     unwrap_err (finalize pr L zero_hash (test_app L signer state_new mempool_new)) (\<lambda>_ _. True)"

definition stored_peer_block_becomes_verifiable :: "profile \<Rightarrow> ('sk, 'vk) libs \<Rightarrow> 'sk \<Rightarrow> 'sk \<Rightarrow> bool" where
  "stored_peer_block_becomes_verifiable pr L alice signer \<longleftrightarrow>
     unwrap (credit pr (lib_public L alice) 1000 state_new) (\<lambda>_ state.
       let app = test_app L signer state mempool_new; genesis_digest = block_hash L genesis
       in case block_new L 1 genesis_digest 0 (repeat_byte 7) [tx_signed L alice (repeat_byte 9) 100 0] of
            None \<Rightarrow> False
          | Some peer_block \<Rightarrow>
              (let digest = block_hash L peer_block
               in verify pr L genesis_digest digest app = Some False \<and>
                  verify pr L genesis_digest digest (store_block L (block_encode L peer_block) app) = Some True))"

definition make_scheme_succeeds_when_my_seed_is_in_roster :: "('pk, 'set, 'scheme) scheme_lib \<Rightarrow> bool" where
  "make_scheme_succeeds_when_my_seed_is_in_roster K \<longleftrightarrow>
     (case make_scheme K (map of_char ''nanochain'') [1, 2, 3] 2 of Ok (Some _) \<Rightarrow> True | _ \<Rightarrow> False)"

definition make_scheme_fails_when_my_seed_is_outside_roster :: "('pk, 'set, 'scheme) scheme_lib \<Rightarrow> bool" where
  "make_scheme_fails_when_my_seed_is_outside_roster K \<longleftrightarrow>
     (case make_scheme K (map of_char ''nanochain'') [1, 2, 3] 99 of Ok None \<Rightarrow> True | _ \<Rightarrow> False)"


section \<open>Lemmas\<close>

lemma test_app_simps [simp]:
  "app_state (test_app L signer s m) = s" "app_mempool (test_app L signer s m) = m"
  "app_blocks (test_app L signer s m) = store_of L [genesis]"
  "app_pending (test_app L signer s m) = fmempty" "app_signer (test_app L signer s m) = signer"
  by (simp_all add: test_app_def app_new_def store_genesis_eq)

lemma header_height_genesis [simp]: "hd_height (blk_header genesis) = 0"
  by (simp add: genesis_def)

lemma tip_on_genesis:
  assumes "block_height b = 1"
  shows "tip (block_store_insert L b (store_of L [genesis])) = Some b"
  by (rule tip_insert_higher [where t = genesis]) (use assms in simp_all)

text \<open>A block on the genesis block that applies is verified once it is known.\<close>

lemma verify_on_genesis:
  assumes "app_pending app = fmupd d b fmempty" and "d \<noteq> block_hash L genesis"
    and "app_blocks app = store_of L [genesis]"
    and "block_parent b = block_hash L genesis" and "block_height b = 1"
    and "apply_block pr L b (app_state app) = (Ok (), s)"
  shows "verify pr L (block_hash L genesis) d app = Some True"
proof -
  have "block_by_digest app (block_hash L genesis) = Some genesis"
    using assms(1-3) by (simp add: block_by_digest_def)
  then show ?thesis using assms by (simp add: verify_at_tip_iff add_u64_one)
qed

text \<open>The blocks that occur in these tests: the one proposed at a given time, and the peer's.\<close>

definition actor_test_tx :: "('sk, 'vk) libs \<Rightarrow> 'sk \<Rightarrow> transaction" where
  "actor_test_tx L alice = tx_signed L alice (repeat_byte 9) 300 0"

definition proposed_block :: "('sk, 'vk) libs \<Rightarrow> 'sk \<Rightarrow> 'sk \<Rightarrow> u64 option \<Rightarrow> block" where
  "proposed_block L alice signer clock = sb_block (built L signer (now_secs clock) [actor_test_tx L alice])"

definition peer_block :: "('sk, 'vk) libs \<Rightarrow> 'sk \<Rightarrow> block" where
  "peer_block L alice =
     (let txs = [tx_signed L alice (repeat_byte 9) 100 0]
      in \<lparr>blk_header = \<lparr>hd_height = 1, hd_parent_hash = block_hash L genesis, hd_tx_root = tx_root L txs,
           hd_timestamp = 0, hd_proposer = repeat_byte 7\<rparr>, blk_transactions = txs\<rparr>)"

lemma proposed_block_simps [simp]:
  "blk_transactions (proposed_block L alice signer clock) = [actor_test_tx L alice]"
  "block_height (proposed_block L alice signer clock) = 1"
  "block_parent (proposed_block L alice signer clock) = block_hash L genesis"
  by (simp_all add: proposed_block_def block_height_def block_parent_def)

lemma peer_block_simps [simp]:
  "blk_transactions (peer_block L alice) = [tx_signed L alice (repeat_byte 9) 100 0]"
  "block_height (peer_block L alice) = 1" "block_parent (peer_block L alice) = block_hash L genesis"
  by (simp_all add: peer_block_def block_height_def block_parent_def Let_def)

lemma differs_from_genesis:
  assumes "codec_laws L" and "no_collision L {header_encode L (blk_header genesis), header_encode L (blk_header b)}"
    and "block_height b = 1"
  shows "block_hash L b \<noteq> block_hash L genesis"
  using block_hash_eqD [OF assms(1,2), of b genesis] assms(3) by (auto simp: block_height_def)

lemma test_state_applies:
  assumes "ed25519_laws L" and "lib_public L alice \<noteq> repeat_byte 9" and "amount \<le> 1000"
    and "blk_transactions b = [tx_signed L alice (repeat_byte 9) amount 0]"
  shows "apply_block pr L b (funded (lib_public L alice) 1000 state_new) =
    (Ok (), transfer (tx_signed L alice (repeat_byte 9) amount 0) (funded (lib_public L alice) 1000 state_new))"
proof -
  have "unat amount < 2 ^ 64" by (rule unat_u64_bound)
  then show ?thesis
    using assms by (simp add: apply_block_Ok_iff apply_signed signed_admissible account_views)
qed

lemma verify_tests:
  assumes "ed25519_laws L" and "codec_laws L" and "lib_public L alice \<noteq> repeat_byte 9"
    and "no_collision L {header_encode L (blk_header genesis), header_encode L (blk_header (peer_block L alice))}"
  shows "verify_rejects_unknown_digest pr L signer" and "finalize_unknown_digest_is_error pr L signer"
    and "stored_peer_block_becomes_verifiable pr L alice signer"
proof -
  show "verify_rejects_unknown_digest pr L signer" by (simp add: verify_rejects_unknown_digest_def verify_def)
  show "finalize_unknown_digest_is_error pr L signer" by (simp add: finalize_unknown_digest_is_error_def finalize_def)
  let ?s = "funded (lib_public L alice) 1000 state_new"
  let ?app = "test_app L signer ?s mempool_new" and ?b = "peer_block L alice"
  have new: "block_new L 1 (block_hash L genesis) 0 (repeat_byte 7) [tx_signed L alice (repeat_byte 9) 100 0] = Some ?b"
    by (simp add: block_new_eq peer_block_def Let_def)
  have "block_decode L (block_encode L ?b) = Inr ?b"
    by (rule block_decode_encode [OF assms(2)]) (simp add: MAX_TXS_PER_BLOCK_def)
  then have stored: "store_block L (block_encode L ?b) ?app = ?app\<lparr>app_pending := fmupd (block_hash L ?b) ?b fmempty\<rparr>"
    by (simp add: store_block_def)
  have "verify pr L (block_hash L genesis) (block_hash L ?b) (store_block L (block_encode L ?b) ?app) = Some True"
    unfolding stored
    using verify_on_genesis [where b = ?b and pr = pr, OF _ differs_from_genesis [OF assms(2,4)]]
      test_state_applies [OF assms(1,3), of 100 ?b pr] by simp
  moreover have "verify pr L (block_hash L genesis) (block_hash L ?b) ?app = Some False" by (simp add: verify_def)
  ultimately show "stored_peer_block_becomes_verifiable pr L alice signer"
    by (simp add: stored_peer_block_becomes_verifiable_def credit_new new Let_def)
qed

lemma scheme_tests:
  assumes "scheme_laws K" and "distinct (map (sl_key_of K) [1, 2, 3, 99])"
  shows "make_scheme_succeeds_when_my_seed_is_in_roster K" and "make_scheme_fails_when_my_seed_is_outside_roster K"
proof -
  have found: "(\<exists>sch. make_scheme K ns [1, 2, 3] seed = Ok (Some sch)) \<longleftrightarrow>
      sl_key_of K seed \<in> {sl_key_of K 1, sl_key_of K 2, sl_key_of K 3}" for ns seed
    using make_scheme_found [OF assms(1), of ns "[1, 2, 3]" seed] assms(2) by simp
  obtain vs where "sl_collect K [sl_key_of K 1, sl_key_of K 2, sl_key_of K 3] = Some vs"
    using assms(2) scheme_laws_collect [OF assms(1), of "[sl_key_of K 1, sl_key_of K 2, sl_key_of K 3]"] by auto
  then have made: "make_scheme K ns [1, 2, 3] seed = Ok (sl_signer K ns vs seed)" for ns seed
    by (simp add: make_scheme_def)
  show "make_scheme_succeeds_when_my_seed_is_in_roster K"
    using found [of "map of_char ''nanochain''" 2]
    by (auto simp: make_scheme_succeeds_when_my_seed_is_in_roster_def made split: option.split)
  show "make_scheme_fails_when_my_seed_is_outside_roster K"
    using found [of "map of_char ''nanochain''" 99] assms(2)
    by (auto simp: make_scheme_fails_when_my_seed_is_outside_roster_def made split: option.split)
qed

lemma chain_test:
  assumes "ed25519_laws L" and "codec_laws L" and "key_order it" and "lib_public L alice \<noteq> repeat_byte 9"
    and "no_collision L {header_encode L (blk_header genesis),
           header_encode L (blk_header (proposed_block L alice signer clock))}"
  shows "propose_then_finalize_advances_chain pr L it clock alice signer"
proof -
  let ?tx = "actor_test_tx L alice" and ?b = "proposed_block L alice signer clock"
  let ?s = "funded (lib_public L alice) 1000 state_new" and ?m = "pool_of L 1024 [actor_test_tx L alice]"
  let ?app = "test_app L signer ?s ?m" and ?d = "block_hash L ?b"
  let ?app1 = "?app\<lparr>app_pending := fmupd ?d ?b fmempty\<rparr>"
  let ?app2 = "committed L ?d ?b (transfer ?tx ?s) ?app1"
  note sender = assms(4) assms(4) [symmetric]
  have tx: "verify_signature L ?tx = Inr ()" "tx_from ?tx = lib_public L alice" "tx_amount ?tx = 300"
    "tx_nonce ?tx = 0" "tx_to ?tx = repeat_byte 9"
    by (simp_all add: actor_test_tx_def tx_signed_facts [OF assms(1)])
  have insertable: "insertable L [] [?tx]" by (simp add: apart_def tx)
  have held: "holds L ?m [?tx]" by (rule pool_of_holds [OF insertable]) simp
  have applies: "apply_block pr L ?b ?s = (Ok (), transfer ?tx ?s)"
    using test_state_applies [OF assms(1,4), of 300 ?b pr] by (simp add: actor_test_tx_def)
  have "pending_from ?m (lib_public L alice) = [?tx]"
    using holds_pending_single [OF held, of ?tx] by (simp add: tx Collect_conv_if)
  moreover have "senders it ?m = [lib_public L alice]"
    by (rule senders_single [OF held assms(3)]) (simp_all add: tx)
  moreover have "select_from pr L APP_MAX_TXS_PER_BLOCK [?tx] ?s [] = Some (False, transfer ?tx ?s, [?tx])"
    using sender
    by (simp add: actor_test_tx_def select_from_signed [OF assms(1)] signed_admissible [OF assms(1)]
        account_views APP_MAX_TXS_PER_BLOCK_def del: select_from.simps(2))
  ultimately have "select_senders pr L APP_MAX_TXS_PER_BLOCK ?m (senders it ?m) ?s [] = Some (transfer ?tx ?s, [?tx])"
    by simp
  from build_on_genesis [OF this] have proposed: "propose pr L it clock (block_hash L genesis) ?app = (Ok ?d, ?app1)"
    by (simp add: propose_def block_by_digest_def proposed_block_def built_verifies [OF assms(1)] Let_def)
  have verified: "verify pr L (block_hash L genesis) ?d ?app1 = Some True"
    using verify_on_genesis [where b = ?b and pr = pr, OF _ differs_from_genesis [OF assms(2,5)]] applies by simp
  have finalized: "finalize pr L ?d ?app1 = (Ok (), ?app2)"
    unfolding finalize_Ok_iff by (simp add: applies)
  have "remove_included L [?tx] ?m = snd (mempool_remove (tx_hash L ?tx) ?m)" by (simp add: remove_included_def)
  then have "mempool_len (remove_included L [?tx] ?m) = 0"
    using holds_remove(2) [OF held] by (simp add: separate_def holds_def)
  then have "app_tip_height ?app2 = 1 \<and> app_balance ?app2 (lib_public L alice) = 700 \<and>
      app_balance ?app2 (repeat_byte 9) = 300 \<and> pending_tx_count ?app2 = 0"
    using sender tip_on_genesis [of ?b L] proposed_block_simps(2) [of L alice signer clock]
    by (simp add: app_tip_height_def app_balance_def pending_tx_count_def account_views tx block_height_def)
  then show ?thesis
    unfolding propose_then_finalize_advances_chain_def credit_new unwrap_simps Let_def
      actor_test_tx_def [symmetric]
    by (subst insert_all_new [OF insertable])
      (use held in \<open>simp_all add: proposed verified finalized app_tip_height_def app_balance_def
         pending_tx_count_def holds_def account_views\<close>)
qed


section \<open>Properties\<close>

text \<open>
  C40: the unit tests of \<open>crates/consensus\<close> - of the block builder, the application and the
  scheme - pass in both build profiles, whatever keys they draw, whatever the clock shows and in
  whatever order the hash map yields the senders: the addresses of a test differ, no two of the
  transactions they sign have the same hash, no block involved has the digest of the genesis block,
  and the keys of the four seeds are different.
\<close>

theorem consensus_tests_pass:
  assumes "ed25519_laws L" and "codec_laws L" and "key_order it" and "scheme_laws K"
    and "distinct [lib_public L alice, lib_public L bob_key, repeat_byte 9]"
    and "distinct (map (sl_key_of K) [1, 2, 3, 99])"
    and "no_collision L (tx_encode L ` set (builder_test_txs L alice bob_key))"
    and "no_collision L {header_encode L (blk_header genesis),
           header_encode L (blk_header (proposed_block L alice signer clock))}"
    and "no_collision L {header_encode L (blk_header genesis), header_encode L (blk_header (peer_block L alice))}"
  shows "empty_mempool_yields_empty_block pr L it signer \<and>
    includes_valid_tx_from_single_sender pr L it signer alice \<and>
    sequential_nonces_are_packed_in_order pr L it signer alice \<and>
    nonce_gap_stops_sender_early pr L it signer alice \<and> respects_max_txs pr L it signer alice \<and>
    skips_sender_with_insufficient_balance pr L it signer alice bob_key \<and>
    produced_block_applies_cleanly_against_state pr L it signer alice \<and>
    signed_block_uses_proposer_pubkey pr L it signer \<and>
    propose_then_finalize_advances_chain pr L it clock alice signer \<and>
    verify_rejects_unknown_digest pr L signer \<and> finalize_unknown_digest_is_error pr L signer \<and>
    stored_peer_block_becomes_verifiable pr L alice signer \<and>
    make_scheme_succeeds_when_my_seed_is_in_roster K \<and> make_scheme_fails_when_my_seed_is_outside_roster K"
proof -
  have "lib_public L alice \<noteq> repeat_byte 9" using assms(5) by simp
  then show ?thesis
    using builder_tests_pass [OF assms(1-3,7,5), of pr signer] chain_test [OF assms(1-3) _ assms(8)]
      verify_tests [OF assms(1,2) _ assms(9)] scheme_tests [OF assms(4,6)]
    by blast
qed


subsection \<open>Witness\<close>

definition child_header_bytes :: "u64 \<Rightarrow> u64 \<Rightarrow> u8 \<Rightarrow> u8 list" where
  "child_header_bytes amount time proposer =
     to_le_bytes 1 @ as_slice (digest_bytes (sample_sha256 (sample_at_bytes 0 0))) @
     as_slice (digest_bytes (sample_sha256 (sample_tx_bytes 7 9 amount 0))) @ to_le_bytes time @ replicate 32 proposer"

lemma sample_child_headers:
  "header_encode sample_libs (blk_header (proposed_block sample_libs (repeat_byte 7) (repeat_byte 3) (Some 5))) =
     child_header_bytes 300 5 3"
  "header_encode sample_libs (blk_header (peer_block sample_libs (repeat_byte 7))) = child_header_bytes 100 0 7"
  by (simp_all add: proposed_block_def peer_block_def built_def actor_test_tx_def tx_root_single tx_hash_def
      tx_encode_sample block_hash_genesis header_encode_written sample_codec_laws write_header_def
      sample_codec_defs child_header_bytes_def now_secs_def Let_def)

lemma sample_child_headers_distinct:
  "distinct (map sample_mix [sample_at_bytes 0 0, child_header_bytes 300 5 3, child_header_bytes 100 0 7])"
  by code_simp

theorem consensus_tests_pass_witness:
  "respects_max_txs Debug sample_libs sorted_list_of_fset (repeat_byte 3) (repeat_byte 7) \<and>
   skips_sender_with_insufficient_balance Release sample_libs sorted_list_of_fset
     (repeat_byte 3) (repeat_byte 7) (repeat_byte 8) \<and>
   propose_then_finalize_advances_chain Debug sample_libs sorted_list_of_fset (Some 5) (repeat_byte 7) (repeat_byte 3) \<and>
   stored_peer_block_becomes_verifiable Release sample_libs (repeat_byte 7) (repeat_byte 3) \<and>
   make_scheme_fails_when_my_seed_is_outside_roster sample_schemes"
proof -
  have "header_encode sample_libs (blk_header genesis) = sample_at_bytes 0 0"
    using header_encode_sample_at [of 0 0] by (simp add: sample_at_def genesis_def)
  then have "no_collision sample_libs {header_encode sample_libs (blk_header genesis),
      header_encode sample_libs (blk_header (proposed_block sample_libs (repeat_byte 7) (repeat_byte 3) (Some 5)))}"
    "no_collision sample_libs {header_encode sample_libs (blk_header genesis),
      header_encode sample_libs (blk_header (peer_block sample_libs (repeat_byte 7)))}"
    using sample_child_headers_distinct by (auto simp: sample_child_headers intro!: no_collision_pair)
  note headers = this
  have "distinct (map (sl_key_of sample_schemes) [1, 2, 3, 99])" by (simp add: sample_schemes_def)
  from consensus_tests_pass [OF sample_ed25519_laws sample_codec_laws key_order_sorted sample_schemes_laws _ this
      sample_builder_txs_ok headers]
  have "respects_max_txs pr sample_libs sorted_list_of_fset (repeat_byte 3) (repeat_byte 7) \<and>
      skips_sender_with_insufficient_balance pr sample_libs sorted_list_of_fset (repeat_byte 3) (repeat_byte 7) (repeat_byte 8) \<and>
      propose_then_finalize_advances_chain pr sample_libs sorted_list_of_fset (Some 5) (repeat_byte 7) (repeat_byte 3) \<and>
      stored_peer_block_becomes_verifiable pr sample_libs (repeat_byte 7) (repeat_byte 3) \<and>
      make_scheme_fails_when_my_seed_is_outside_roster sample_schemes" for pr
    by simp
  then show ?thesis by blast
qed

end
