(* ===== verification/Spec2Isabelle.thy ===== *)
theory Spec2Isabelle
  imports Hashes Transactions Blocks Signed_Blocks State_Store Block_Store Mempool Builder
    Application Runs Ingress Commitments Chain Network Engine Node Validator Cluster Program Wire_Sizes
    Signatures Unit_Tests_Types Unit_Tests_Storage Unit_Tests_Mempool Unit_Tests_Builder
    Unit_Tests_Actor
begin

text \<open>
  A verification library for nanochain, a small blockchain node written in Rust over the
  commonware consensus libraries.

  \<^bold>\<open>The program.\<close> A validator keeps account balances (\<open>crates/storage\<close>), a pool of
  pending transactions (\<open>crates/mempool\<close>) and the blocks it knows. An application actor
  (\<open>crates/consensus\<close>) owns all three and serves the messages that the Simplex engine, the
  reporter of its activity and the block relay put into its mailbox: it proposes a block on a
  given parent, verifies a proposal, finalizes a block, hands a block out for broadcast, or
  takes in a block from a peer. \<open>crates/types\<close> holds the transactions, blocks, their hashes,
  signatures and wire formats; \<open>crates/network\<close> wraps the peer-to-peer library; \<open>crates/node\<close> boots a
  validator and connects application, engine and network by tasks that share only the mailbox of the
  actor and its queue of outgoing blocks.

  \<^bold>\<open>Theories, in the order they build on each other.\<close>

  \<^item> \<open>Prelude\<close>: results that can panic (\<open>res\<close>), 64-bit arithmetic with and without overflow
    checks (\<open>profile\<close>), hash maps and B-tree maps as finite maps. The unspecified iteration
    order of a \<open>HashMap\<close> is an argument constrained by \<open>key_order\<close> only.
  \<^item> \<open>Bytes\<close>: fixed-size byte arrays, little-endian encoding, decimal rendering.
  \<^item> \<open>Data_Types\<close>: the records of \<open>types/src\<close>, and the libraries (SHA-256, ed25519, codecs,
    channels) as a record of functions \<open>libs\<close> with the laws the code relies on; the locale
    \<open>wire_format\<close>. \<open>Sample_Libs\<close> is a concrete \<open>libs\<close> that meets the laws; the witnesses
    evaluate on it.
  \<^item> \<open>Hashes\<close>, \<open>Transactions\<close>, \<open>Blocks\<close>, \<open>Signed_Blocks\<close>: \<open>types/src/hash.rs\<close>,
    \<open>transaction.rs\<close>, \<open>block.rs\<close>, \<open>signed_block.rs\<close>. Wire round trips (interpretations of
    \<open>wire_format\<close>), the Merkle root as the root of a padded binary tree, what hashes bind on
    inputs without collisions, signatures.
  \<^item> \<open>State_Store\<close>: \<open>storage/src/state.rs\<close>. One transaction on every branch, block
    application and its rollback, conservation of the total balance, nonces, and refinement of
    a ledger of unbounded numbers; the locale \<open>tx_ledger\<close> for sequences of steps.
  \<^item> \<open>Block_Store\<close>: \<open>storage/src/block_store.rs\<close>; the locale \<open>keyed_store\<close>.
  \<^item> \<open>Mempool\<close>: \<open>mempool/src/pool.rs\<close>. The invariant of its two indexes, insertion and removal
    on every branch, the ordered views, refinement of a map from sender and nonce; the locales
    \<open>tx_pool\<close> (used by finalization) and \<open>sender_queues\<close> (used by block building).
  \<^item> \<open>Builder\<close>: \<open>consensus/src/builder.rs\<close>. The selection loops as structural recursion; a built
    block applies, selection is greedy and makes progress, and when it does not.
  \<^item> \<open>Application\<close>: \<open>consensus/src/app/actor.rs\<close>. Every handler of the actor; proposals that are
    verified and finalized at home and at a peer, and two ways in which they are not.
  \<^item> \<open>Runs\<close>: arbitrary sequences of messages, as the inductive relation \<open>app_reaches\<close> and as the
    executable \<open>app_run\<close>. Invariants of every run, the state as the replay of the committed
    blocks (a second interpretation of \<open>tx_ledger\<close>, with blocks as steps), agreement of
    replicas, absence of panics; the locale \<open>stepwise\<close>.
  \<^item> \<open>Ingress\<close>: \<open>consensus/src/app/ingress.rs\<close> and \<open>reporter.rs\<close>: what reaches the mailbox, in which
    order, and which reports can commit a block.
  \<^item> \<open>Commitments\<close>: what a digest determines - the Merkle root its transactions, a block hash the
    whole block - and agreement of two validators that commit the same digests, without assuming
    that they saw the same blocks.
  \<^item> \<open>Chain\<close>: runs driven by a consensus engine that keeps to its discipline (\<open>disciplined\<close>): the
    committed blocks then form one chain of hashes and heights.
  \<^item> \<open>Network\<close>, \<open>Engine\<close>: \<open>network/src\<close> and \<open>node/src/consensus.rs\<close> with \<open>Tuning\<close>: the channel API
    and the engine's configuration, over the libraries as records of functions.
  \<^item> \<open>Node\<close>: \<open>node/src/node.rs\<close> up to the creation of the application, the demo node and the
    command line of \<open>main.rs\<close>.
  \<^item> \<open>Validator\<close>: the rest of \<open>Node::run\<close>: wiring, and the four tasks it leaves running - engine,
    actor, \<open>block_out\<close>, \<open>block_in\<close> - as steps (\<open>validator_step\<close>) that interleave in any order. The
    validator refines the actor alone; the life of a validator from its genesis configuration; no
    interleaving stops it; a block that travels from its proposer to a follower and is finalized
    by both.
  \<^item> \<open>Cluster\<close>: any number of validators whose rounds interleave (\<open>cluster_reaches\<close>), over a network that
    may lose, delay, duplicate and reorder, but delivers only what one of them has broadcast. Every
    block in the cluster is then one that this code has built; validators that commit the same digests
    agree; and from its start the cluster can commit a block.
  \<^item> \<open>Program\<close>: \<open>main.rs\<close> as a whole. \<open>Wire_Sizes\<close>: every block that can be proposed fits a network
    message. \<open>Signatures\<close>: what a valid signature binds, if signatures are not forged.
  \<^item> \<open>Unit_Tests_Types\<close>, \<open>Unit_Tests_Storage\<close>, \<open>Unit_Tests_Mempool\<close>, \<open>Unit_Tests_Builder\<close>,
    \<open>Unit_Tests_Actor\<close>: the \<open>tests\<close> modules of the crates as executable predicates whose random keys are
    arguments, with the theorems that they hold for every key; they check the model against what
    the authors expect of the code.

  \<^bold>\<open>Conventions.\<close> An operation with \<open>&mut self\<close> returns its result and the state it leaves
  behind, so that what an error leaves behind is part of every statement. \<open>Panic\<close>, or \<open>None\<close>
  where an operation cannot fail otherwise, is a panic; the state then left is that of a task
  that is gone. Every loop is a recursion over a list or over a decreasing length, so no fuel is
  used; the endless loops of the tasks are runs over an arbitrary list of rounds. \<open>usize\<close> is a
  natural number, \<open>u64\<close> a 64-bit word, byte strings are lists of 8-bit words. A response channel in a message is the reply of the step that handles it. Records keep
  the names of the Rust fields behind a prefix (\<open>tx_from\<close>, \<open>hd_height\<close>, \<open>app_pending\<close>).

  \<^bold>\<open>Assumptions.\<close> The libraries are not part of the repository: \<open>codec_laws\<close>, \<open>ed25519_laws\<close>,
  \<open>channel_laws\<close>, \<open>mailbox_laws\<close>, \<open>recv_laws\<close>, \<open>scheme_laws\<close>, \<open>peer_map_laws\<close> and \<open>size_laws\<close> state
  their documented behaviour and are named as hypotheses where they are used.
  SHA-256 is never assumed to be injective: a theorem that needs it assumes that it does not collide on the finite set of inputs it names; likewise
  \<open>no_forgery\<close> names the keys and the messages on which no signature is forged.

  \<^bold>\<open>Not modelled.\<close> The Simplex engine and the peer-to-peer network themselves: what they may do is
  a parameter or an arbitrary sequence of steps. Logging, the runtime's executor, the wire formats of
  \<open>serde\<close> beyond the byte arrays the code converts itself, the messages of the error types, and the
  test \<open>broadcast_round_trip\<close> of the network crate, which exercises the delivery of the library only.
\<close>

end
